(* ===== verification/Prelude.thy ===== *)
theory Prelude
  imports Main "HOL-Library.Word" "HOL-Library.Multiset" "HOL-Library.Sublist"
begin

text \<open>
  What every component of the development shares.

  \<^item> the names of the basic data: identifiers (\<open>uuid\<close>), byte strings, instants;
  \<^item> a small calculus of effects: an operation of the program takes the state and returns
    either an error (the exception it raises) or a value, together with the state it leaves.
    \<open>wp\<close> reads off what holds after an operation, \<open>keeps\<close> says that an operation preserves a
    property of the state, and \<open>txn_by\<close> is a database transaction, which rolls back on an error;
  \<^item> SQL tables as lists of rows in insertion order, with the statements the program issues
    (\<open>select_where\<close>, \<open>update_where\<close>, \<open>delete_where\<close>, \<open>order_by\<close>);
  \<^item> the locale of a system of operations, from which invariants and monotone quantities of
    single operations are lifted to arbitrary runs.
\<close>

section \<open>Data\<close>

type_synonym uuid = "128 word"
type_synonym byte = "8 word"
type_synonym bytes = "byte list"
type_synonym seconds = int

named_theorems wp_rules "weakest preconditions of the effect combinators"
named_theorems keeps_rules "preservation rules of the effect combinators"

section \<open>Strings\<close>

text \<open>
  The string operations the program applies to codes and identifiers, on ASCII text: there
  \<open>str.isspace\<close> holds for the codes 9 to 13, 28 to 31 and 32.
\<close>

abbreviation ord_of :: "char \<Rightarrow> nat" where
  "ord_of c \<equiv> of_char c"

definition py_space :: "char \<Rightarrow> bool" where
  "py_space c \<longleftrightarrow> (9 \<le> ord_of c \<and> ord_of c \<le> 13) \<or> (28 \<le> ord_of c \<and> ord_of c \<le> 32)"

definition py_strip :: "string \<Rightarrow> string" where
  "py_strip s = rev (dropWhile py_space (rev (dropWhile py_space s)))"

text \<open>\<open>btrim\<close> removes blanks only.\<close>

definition btrim :: "string \<Rightarrow> string" where
  "btrim s = rev (dropWhile (\<lambda>c. c = CHR '' '') (rev (dropWhile (\<lambda>c. c = CHR '' '') s)))"

definition is_upper :: "char \<Rightarrow> bool" where
  "is_upper c \<longleftrightarrow> 65 \<le> ord_of c \<and> ord_of c \<le> 90"

definition is_lower :: "char \<Rightarrow> bool" where
  "is_lower c \<longleftrightarrow> 97 \<le> ord_of c \<and> ord_of c \<le> 122"

definition is_digit :: "char \<Rightarrow> bool" where
  "is_digit c \<longleftrightarrow> 48 \<le> ord_of c \<and> ord_of c \<le> 57"

definition py_upper :: "string \<Rightarrow> string" where
  "py_upper s = map (\<lambda>c. if is_lower c then char_of (ord_of c - 32) else c) s"

definition py_lower :: "string \<Rightarrow> string" where
  "py_lower s = map (\<lambda>c. if is_upper c then char_of (ord_of c + 32) else c) s"

text \<open>\<open>str\<close> of an integer.\<close>

fun digits_of :: "nat \<Rightarrow> string" where
  "digits_of n = (if n < 10 then [char_of (48 + n)]
     else digits_of (n div 10) @ [char_of (48 + n mod 10)])"

declare digits_of.simps [simp del]

definition int_str :: "int \<Rightarrow> string" where
  "int_str i = (if i < 0 then ''-'' @ digits_of (nat (- i)) else digits_of (nat i))"

text \<open>\<open>str\<close> of a UUID: five groups of hexadecimal digits.\<close>

definition nibble :: "uuid \<Rightarrow> nat \<Rightarrow> nat" where
  "nibble w k = unat (take_bit 4 (drop_bit (4 * k) w))"

definition hex_digit :: "nat \<Rightarrow> char" where
  "hex_digit n = char_of (if n < 10 then 48 + n else 87 + n)"

definition hex_range :: "uuid \<Rightarrow> nat \<Rightarrow> nat \<Rightarrow> string" where
  "hex_range w hi lo = map (\<lambda>k. hex_digit (nibble w k)) (rev [lo..<hi])"

definition uuid_str :: "uuid \<Rightarrow> string" where
  "uuid_str w = hex_range w 32 24 @ ''-'' @ hex_range w 24 20 @ ''-'' @ hex_range w 20 16 @ ''-''
     @ hex_range w 16 12 @ ''-'' @ hex_range w 12 0"

text \<open>\<open>UUID.version\<close>, defined for the RFC 4122 variant only.\<close>

definition uuid_version :: "uuid \<Rightarrow> nat option" where
  "uuid_version w = (if bit w 63 \<and> \<not> bit w 62 then Some (nibble w 19) else None)"

text \<open>JSON values, encoding of ASCII text, lines.\<close>

datatype json = JNull | JBool bool | JInt int | JFloat string | JStr string | JArr "json list"
  | JObj "(string \<times> json) list"

type_synonym params = "(string \<times> json) list"

definition encode_utf8 :: "string \<Rightarrow> bytes" where
  "encode_utf8 s = map (\<lambda>c. of_nat (ord_of c)) s"

fun join_lines :: "string list \<Rightarrow> string" where
  "join_lines [] = []"
| "join_lines [l] = l"
| "join_lines (l # m # ls) = l @ CHR 10 # join_lines (m # ls)"

lemma nibble_lt: "nibble w k < 16"
  using take_bit_nat_less_exp [of 4 "unat (drop_bit (4 * k) w)"]
  by (simp add: nibble_def unsigned_take_bit_eq)

lemma uuid_by_nibbles:
  assumes "\<And>k. k < 32 \<Longrightarrow> nibble v k = nibble w k"
  shows "v = w"
proof (rule bit_word_eqI)
  fix n
  assume "n < LENGTH(128)"
  then have "n div 4 < 32" by simp
  from assms [OF this] have "take_bit 4 (drop_bit (4 * (n div 4)) v) = take_bit 4 (drop_bit (4 * (n div 4)) w)"
    by (simp add: nibble_def word_unat_eq_iff)
  then have "bit (take_bit 4 (drop_bit (4 * (n div 4)) v)) (n mod 4)
      = bit (take_bit 4 (drop_bit (4 * (n div 4)) w)) (n mod 4)" by simp
  then show "bit v n = bit w n"
    by (simp add: bit_take_bit_iff bit_drop_bit_eq)
qed

lemma hex_digit_inj: "a < 16 \<Longrightarrow> b < 16 \<Longrightarrow> hex_digit a = hex_digit b \<Longrightarrow> a = b"
  by (auto simp: hex_digit_def take_bit_eq_mod split: if_splits dest!: arg_cong [where f = "of_char :: char \<Rightarrow> nat"])

lemma hex_range_eqD:
  assumes "hex_range v hi lo = hex_range w hi lo" and "lo \<le> k" "k < hi"
  shows "nibble v k = nibble w k"
proof -
  from assms(1) have "\<forall>k\<in>set (rev [lo..<hi]). hex_digit (nibble v k) = hex_digit (nibble w k)"
    unfolding hex_range_def map_eq_conv .
  with assms(2,3) show ?thesis by (auto intro: hex_digit_inj nibble_lt)
qed

lemma length_hex_range [simp]: "length (hex_range w hi lo) = hi - lo"
  by (simp add: hex_range_def)

lemma uuid_str_inj: "uuid_str v = uuid_str w \<Longrightarrow> v = w"
proof (rule uuid_by_nibbles)
  fix k :: nat
  assume eq: "uuid_str v = uuid_str w" and k: "k < 32"
  from eq have "hex_range v 32 24 = hex_range w 32 24" "hex_range v 24 20 = hex_range w 24 20"
    "hex_range v 20 16 = hex_range w 20 16" "hex_range v 16 12 = hex_range w 16 12"
    "hex_range v 12 0 = hex_range w 12 0"
    by (simp_all add: uuid_str_def append_eq_append_conv)
  note parts = this [THEN hex_range_eqD]
  consider "24 \<le> k" | "20 \<le> k" "k < 24" | "16 \<le> k" "k < 20" | "12 \<le> k" "k < 16" | "k < 12"
    by linarith
  then show "nibble v k = nibble w k" by cases (use parts k in auto)
qed

section \<open>Effects: state, result or error\<close>

type_synonym ('s, 'e, 'a) eff = "'s \<Rightarrow> ('e + 'a) \<times> 's"

definition ret :: "'a \<Rightarrow> ('s, 'e, 'a) eff" where
  "ret a s = (Inr a, s)"

definition raise :: "'e \<Rightarrow> ('s, 'e, 'a) eff" where
  "raise e s = (Inl e, s)"

definition bindE :: "('s, 'e, 'a) eff \<Rightarrow> ('a \<Rightarrow> ('s, 'e, 'b) eff) \<Rightarrow> ('s, 'e, 'b) eff" where
  "bindE m f s = (case m s of (Inl e, s') \<Rightarrow> (Inl e, s') | (Inr a, s') \<Rightarrow> f a s')"

definition reads :: "('s \<Rightarrow> 'a) \<Rightarrow> ('s, 'e, 'a) eff" where
  "reads f s = (Inr (f s), s)"

definition writes :: "('s \<Rightarrow> 's) \<Rightarrow> ('s, 'e, unit) eff" where
  "writes g s = (Inr (), g s)"

definition whenE :: "bool \<Rightarrow> ('s, 'e, unit) eff \<Rightarrow> ('s, 'e, unit) eff" where
  "whenE c m = (if c then m else ret ())"

definition catchE :: "('s, 'e, 'a) eff \<Rightarrow> ('e \<Rightarrow> ('s, 'f, 'a) eff) \<Rightarrow> ('s, 'f, 'a) eff" where
  "catchE m h s = (case m s of (Inl e, s') \<Rightarrow> h e s' | (Inr a, s') \<Rightarrow> (Inr a, s'))"

text \<open>A transaction: on an error the tables of the state are put back (\<open>roll old new\<close>).\<close>

definition txn_by :: "('s \<Rightarrow> 's \<Rightarrow> 's) \<Rightarrow> ('s, 'e, 'a) eff \<Rightarrow> ('s, 'e, 'a) eff" where
  "txn_by roll m s =
     (case m s of (Inl e, s') \<Rightarrow> (Inl e, roll s s') | (Inr a, s') \<Rightarrow> (Inr a, s'))"

text \<open>A transaction on a state that is nothing but tables.\<close>

definition txn :: "('s, 'e, 'a) eff \<Rightarrow> ('s, 'e, 'a) eff" where
  "txn m = txn_by (\<lambda>old new. old) m"

fun eachE :: "('x \<Rightarrow> ('s, 'e, unit) eff) \<Rightarrow> 'x list \<Rightarrow> ('s, 'e, unit) eff" where
  "eachE f [] = ret ()"
| "eachE f (x # xs) = bindE (f x) (\<lambda>_. eachE f xs)"

text \<open>A loop that collects what its body returns.\<close>

fun mapE :: "('x \<Rightarrow> ('s, 'e, 'a) eff) \<Rightarrow> 'x list \<Rightarrow> ('s, 'e, 'a list) eff" where
  "mapE f [] = ret []"
| "mapE f (x # xs) = bindE (f x) (\<lambda>y. bindE (mapE f xs) (\<lambda>ys. ret (y # ys)))"

subsection \<open>Weakest preconditions\<close>

definition wp ::
  "('s, 'e, 'a) eff \<Rightarrow> ('a \<Rightarrow> 's \<Rightarrow> bool) \<Rightarrow> ('e \<Rightarrow> 's \<Rightarrow> bool) \<Rightarrow> 's \<Rightarrow> bool" where
  "wp m Q E s = (case m s of (Inl e, s') \<Rightarrow> E e s' | (Inr a, s') \<Rightarrow> Q a s')"

lemma wp_ret [wp_rules, simp]: "wp (ret a) Q E s = Q a s"
  by (simp add: wp_def ret_def)

lemma wp_ret_fun: "wp (ret a) Q E = Q a"
  by (rule ext) simp

lemma wp_raise [wp_rules, simp]: "wp (raise e) Q E s = E e s"
  by (simp add: wp_def raise_def)

lemma wp_reads [wp_rules, simp]: "wp (reads f) Q E s = Q (f s) s"
  by (simp add: wp_def reads_def)

lemma wp_writes [wp_rules, simp]: "wp (writes g) Q E s = Q () (g s)"
  by (simp add: wp_def writes_def)

lemma wp_bindE [wp_rules, simp]:
  "wp (bindE m f) Q E s = wp m (\<lambda>a. wp (f a) Q E) E s"
  by (simp add: wp_def bindE_def split: prod.splits sum.splits)

lemma wp_bindE_fun: "wp (bindE m f) Q E = wp m (\<lambda>a. wp (f a) Q E) E"
  by (rule ext) simp

lemma wp_catchE [wp_rules, simp]:
  "wp (catchE m h) Q E s = wp m Q (\<lambda>e. wp (h e) Q E) s"
  by (simp add: wp_def catchE_def split: prod.splits sum.splits)

lemma wp_txn_by [wp_rules, simp]:
  "wp (txn_by roll m) Q E s = wp m Q (\<lambda>e s'. E e (roll s s')) s"
  by (simp add: wp_def txn_by_def split: prod.splits sum.splits)

lemma wp_txn [wp_rules, simp]: "wp (txn m) Q E s = wp m Q (\<lambda>e s'. E e s) s"
  by (simp add: txn_def)

lemma wp_whenE [wp_rules, simp]: "wp (whenE c m) Q E s = (if c then wp m Q E s else Q () s)"
  by (simp add: whenE_def)

lemma wp_if [wp_rules]: "wp (if c then m else n) Q E s = (if c then wp m Q E s else wp n Q E s)"
  by simp

lemma wp_mono:
  assumes "wp m Q E s"
    and "\<And>a s'. Q a s' \<Longrightarrow> Q' a s'" and "\<And>e s'. E e s' \<Longrightarrow> E' e s'"
  shows "wp m Q' E' s"
  using assms by (auto simp: wp_def split: prod.splits sum.splits)

lemma wp_conj:
  "wp m Q E s \<Longrightarrow> wp m Q' E' s
   \<Longrightarrow> wp m (\<lambda>a s. Q a s \<and> Q' a s) (\<lambda>e s. E e s \<and> E' e s) s"
  by (auto simp: wp_def split: prod.splits sum.splits)

lemma wp_InrD: "wp m Q E s \<Longrightarrow> m s = (Inr a, s') \<Longrightarrow> Q a s'"
  by (simp add: wp_def)

lemma wp_total: "wp m Q (\<lambda>_ _. False) s \<Longrightarrow> \<exists>a s'. m s = (Inr a, s') \<and> Q a s'"
  by (auto simp: wp_def split: prod.splits sum.splits)

lemma wp_InlD: "wp m Q E s \<Longrightarrow> m s = (Inl e, s') \<Longrightarrow> E e s'"
  by (simp add: wp_def)

lemma wp_sndI: "wp m (\<lambda>_. P) (\<lambda>_. P) s \<Longrightarrow> P (snd (m s))"
  by (auto simp: wp_def split: prod.splits sum.splits)

lemma wp_snd: "wp m (\<lambda>_. P) (\<lambda>_. P) s = P (snd (m s))"
  by (auto simp: wp_def split: prod.splits sum.splits)

subsection \<open>Operations that keep a property of the state\<close>

definition keeps :: "('s \<Rightarrow> bool) \<Rightarrow> ('s, 'e, 'a) eff \<Rightarrow> bool" where
  "keeps P m \<longleftrightarrow> (\<forall>s. P s \<longrightarrow> P (snd (m s)))"

lemma keepsI: "(\<And>s. P s \<Longrightarrow> wp m (\<lambda>_. P) (\<lambda>_. P) s) \<Longrightarrow> keeps P m"
  by (simp add: keeps_def wp_snd)

lemma keepsD: "keeps P m \<Longrightarrow> P s \<Longrightarrow> P (snd (m s))"
  by (simp add: keeps_def)

lemma keeps_wp: "keeps P m \<Longrightarrow> P s \<Longrightarrow> wp m (\<lambda>_. P) (\<lambda>_. P) s"
  by (simp add: keeps_def wp_snd)

lemma keeps_ret [keeps_rules, intro!]: "keeps P (ret a)"
  by (simp add: keeps_def ret_def)

lemma keeps_raise [keeps_rules, intro!]: "keeps P (raise e)"
  by (simp add: keeps_def raise_def)

lemma keeps_reads [keeps_rules, intro!]: "keeps P (reads f)"
  by (simp add: keeps_def reads_def)

lemma keeps_writes [keeps_rules]: "(\<And>s. P s \<Longrightarrow> P (g s)) \<Longrightarrow> keeps P (writes g)"
  by (simp add: keeps_def writes_def)

lemma keeps_bindE [keeps_rules]:
  "keeps P m \<Longrightarrow> (\<And>a. keeps P (f a)) \<Longrightarrow> keeps P (bindE m f)"
  by (rule keepsI) (auto intro: wp_mono [OF keeps_wp] keeps_wp)

lemma keeps_catchE [keeps_rules]:
  "keeps P m \<Longrightarrow> (\<And>e. keeps P (h e)) \<Longrightarrow> keeps P (catchE m h)"
  by (rule keepsI) (auto intro: wp_mono [OF keeps_wp] keeps_wp)

lemma keeps_whenE [keeps_rules]: "keeps P m \<Longrightarrow> keeps P (whenE c m)"
  by (simp add: whenE_def keeps_ret)

lemma keeps_if [keeps_rules]: "keeps P m \<Longrightarrow> keeps P n \<Longrightarrow> keeps P (if c then m else n)"
  by simp

lemma keeps_option [keeps_rules]:
  "keeps P m \<Longrightarrow> (\<And>a. keeps P (f a)) \<Longrightarrow> keeps P (case x of None \<Rightarrow> m | Some a \<Rightarrow> f a)"
  by (cases x) auto

lemma keeps_prod [keeps_rules]:
  "(\<And>a b. keeps P (f a b)) \<Longrightarrow> keeps P (case x of (a, b) \<Rightarrow> f a b)"
  by (cases x) auto

lemma keeps_sum [keeps_rules]:
  "(\<And>e. keeps P (f e)) \<Longrightarrow> (\<And>a. keeps P (g a)) \<Longrightarrow> keeps P (case x of Inl e \<Rightarrow> f e | Inr a \<Rightarrow> g a)"
  by (cases x) auto

lemma keeps_let [keeps_rules]: "keeps P (f x) \<Longrightarrow> keeps P (let y = x in f y)"
  by simp

lemma keeps_txn [keeps_rules]: "keeps P m \<Longrightarrow> keeps P (txn m)"
  by (auto simp: keeps_def txn_def txn_by_def split: prod.splits sum.splits)

lemma keeps_eachE [keeps_rules]: "(\<And>x. keeps P (f x)) \<Longrightarrow> keeps P (eachE f xs)"
  by (induction xs) (auto intro: keeps_rules)

lemma keeps_mapE [keeps_rules]: "(\<And>x. keeps P (f x)) \<Longrightarrow> keeps P (mapE f xs)"
  by (induction xs) (auto intro!: keeps_rules)

text \<open>
  A loop over distinct elements: each round makes \<open>Done x\<close> true of its own element and keeps it for
  the elements already dealt with.
\<close>

lemma wp_mapE:
  assumes "\<And>x s. x \<in> set xs \<Longrightarrow> I s \<Longrightarrow> wp (f x) (\<lambda>_ s'. I s' \<and> Done x s') E s"
    and "\<And>x y s. x \<in> set xs \<Longrightarrow> y \<in> set xs \<Longrightarrow> x \<noteq> y \<Longrightarrow> I s \<Longrightarrow> Done y s
      \<Longrightarrow> wp (f x) (\<lambda>_. Done y) E s"
    and "distinct xs" and "I s"
  shows "wp (mapE f xs) (\<lambda>_ s'. I s' \<and> (\<forall>x\<in>set xs. Done x s')) E s"
proof -
  have "wp (mapE f ys) (\<lambda>_ s'. I s' \<and> (\<forall>x\<in>done \<union> set ys. Done x s')) E s"
    if "set ys \<subseteq> set xs" "done \<subseteq> set xs" "done \<inter> set ys = {}" "distinct ys" "I s" "\<forall>x\<in>done. Done x s"
    for ys "done" s
    using that
  proof (induction ys arbitrary: "done" s)
    case Nil
    then show ?case by simp
  next
    case (Cons y ys)
    have each: "wp (f y) (\<lambda>_. Done x) E s" if "x \<in> done" for x
      using assms(2) [of y x s] Cons.prems that by auto
    have own: "wp (f y) (\<lambda>_ s'. I s' \<and> Done y s') E s" using assms(1) Cons.prems by auto
    have "wp (f y) (\<lambda>_ s'. I s' \<and> (\<forall>x\<in>insert y done. Done x s')) E s"
      using own each by (auto simp: wp_def split: prod.splits sum.splits)
    then have "wp (f y) (\<lambda>_ s'. wp (mapE f ys)
        (\<lambda>_ s''. I s'' \<and> (\<forall>x\<in>insert y done \<union> set ys. Done x s'')) E s') E s"
    proof (rule wp_mono)
      fix a s'
      assume "I s' \<and> (\<forall>x\<in>insert y done. Done x s')"
      then show "wp (mapE f ys) (\<lambda>_ s''. I s'' \<and> (\<forall>x\<in>insert y done \<union> set ys. Done x s'')) E s'"
        using Cons.IH [of "insert y done" s'] Cons.prems by auto
    qed
    then show ?case by (simp add: wp_bindE_fun wp_ret_fun)
  qed
  from this [of xs "{}" s] show ?thesis using assms(3,4) by simp
qed

lemma wp_mapE_keeps:
  assumes "\<And>x s. x \<in> set xs \<Longrightarrow> I s \<Longrightarrow> wp (f x) (\<lambda>_. I) E s" and "I s"
  shows "wp (mapE f xs) (\<lambda>_. I) E s"
  using assms
proof (induction xs arbitrary: s)
  case (Cons x xs)
  have "wp (f x) (\<lambda>_ s. wp (mapE f xs) (\<lambda>_. I) E s) E s"
    by (rule wp_mono [where Q = "\<lambda>_. I" and E = E]) (use Cons in auto)
  then show ?case by (simp add: wp_bindE_fun wp_ret_fun)
qed simp

text \<open>How a run ended, from the runs of the parts.\<close>

lemma run_bindE:
  "bindE m f s = (Inr b, t) \<longleftrightarrow> (\<exists>a s'. m s = (Inr a, s') \<and> f a s' = (Inr b, t))"
  "bindE m f s = (Inl e, t) \<longleftrightarrow> m s = (Inl e, t) \<or> (\<exists>a s'. m s = (Inr a, s') \<and> f a s' = (Inl e, t))"
  by (auto simp: bindE_def split: prod.splits sum.splits)

lemma run_catchE:
  "catchE m h s = (Inr b, t) \<longleftrightarrow> m s = (Inr b, t) \<or> (\<exists>e s'. m s = (Inl e, s') \<and> h e s' = (Inr b, t))"
  "catchE m h s = (Inl e', t) \<longleftrightarrow> (\<exists>e s'. m s = (Inl e, s') \<and> h e s' = (Inl e', t))"
  by (auto simp: catchE_def split: prod.splits sum.splits)

lemma run_basic:
  "ret a s = (Inr b, t) \<longleftrightarrow> b = a \<and> t = s" "ret a s \<noteq> (Inl e, t)"
  "raise e s = (Inl e', t) \<longleftrightarrow> e' = e \<and> t = s" "raise e s \<noteq> (Inr b, t)"
  "reads g s = (Inr c, t) \<longleftrightarrow> c = g s \<and> t = s" "reads g s \<noteq> (Inl e, t)"
  "writes k s = (Inr u, t) \<longleftrightarrow> t = k s" "writes k s \<noteq> (Inl e, t)"
  by (auto simp: ret_def raise_def reads_def writes_def)

lemmas run_iffs = run_bindE run_catchE run_basic

lemmas eff_defs = ret_def raise_def bindE_def reads_def writes_def whenE_def catchE_def
  txn_by_def txn_def

section \<open>Tables\<close>

text \<open>
  A table is the list of its rows in the order of insertion. A statement that changes rows
  reports how many it matched (\<open>rowcount\<close>), as the database cursor does.
\<close>

definition select_where :: "('r \<Rightarrow> bool) \<Rightarrow> 'r list \<Rightarrow> 'r list" where
  "select_where P t = filter P t"

definition update_where :: "('r \<Rightarrow> bool) \<Rightarrow> ('r \<Rightarrow> 'r) \<Rightarrow> 'r list \<Rightarrow> 'r list" where
  "update_where P f t = map (\<lambda>r. if P r then f r else r) t"

definition delete_where :: "('r \<Rightarrow> bool) \<Rightarrow> 'r list \<Rightarrow> 'r list" where
  "delete_where P t = filter (\<lambda>r. \<not> P r) t"

definition rowcount :: "('r \<Rightarrow> bool) \<Rightarrow> 'r list \<Rightarrow> nat" where
  "rowcount P t = length (filter P t)"

definition order_by :: "('r \<Rightarrow> 'k::linorder) \<Rightarrow> 'r list \<Rightarrow> 'r list" where
  "order_by k t = sort_key k t"

definition first_row :: "'r list \<Rightarrow> 'r option" where
  "first_row t = (case t of [] \<Rightarrow> None | r # _ \<Rightarrow> Some r)"

lemma set_select_where [simp]: "set (select_where P t) = {r \<in> set t. P r}"
  by (auto simp: select_where_def)

lemma set_delete_where [simp]: "set (delete_where P t) = {r \<in> set t. \<not> P r}"
  by (auto simp: delete_where_def)

lemma set_update_where:
  "set (update_where P f t) = (\<lambda>r. if P r then f r else r) ` set t"
  by (simp add: update_where_def)

lemma length_update_where [simp]: "length (update_where P f t) = length t"
  by (simp add: update_where_def)

lemma map_update_where:
  "(\<And>r. P r \<Longrightarrow> k (f r) = k r) \<Longrightarrow> map k (update_where P f t) = map k t"
  by (induction t) (auto simp: update_where_def)

lemma filter_update_where:
  "(\<And>r. P (f r) = P r) \<Longrightarrow> filter P (update_where P f t) = map f (filter P t)"
  by (induction t) (auto simp: update_where_def)

lemma filter_update_where_out:
  "(\<And>r. P r \<Longrightarrow> \<not> Q r \<and> \<not> Q (f r)) \<Longrightarrow> filter Q (update_where P f t) = filter Q t"
  by (induction t) (auto simp: update_where_def)

lemma update_where_id: "(\<And>r. r \<in> set t \<Longrightarrow> \<not> P r) \<Longrightarrow> update_where P f t = t"
  by (induction t) (auto simp: update_where_def)

lemma update_where_cong:
  "(\<And>r. r \<in> set t \<Longrightarrow> P r = Q r) \<Longrightarrow> (\<And>r. r \<in> set t \<Longrightarrow> Q r \<Longrightarrow> f r = g r)
   \<Longrightarrow> update_where P f t = update_where Q g t"
  by (simp add: update_where_def)

lemma rowcount_cong: "(\<And>r. r \<in> set t \<Longrightarrow> P r = Q r) \<Longrightarrow> rowcount P t = rowcount Q t"
  by (simp add: rowcount_def cong: filter_cong)

lemma delete_where_id: "(\<And>r. r \<in> set t \<Longrightarrow> \<not> P r) \<Longrightarrow> delete_where P t = t"
  by (induction t) (auto simp: delete_where_def)

lemma distinct_map_delete_where:
  "distinct (map k t) \<Longrightarrow> distinct (map k (delete_where P t))"
  by (simp add: delete_where_def distinct_map_filter)

lemma set_order_by [simp]: "set (order_by k t) = set t"
  by (simp add: order_by_def)

lemma order_by_Nil [simp]: "order_by k t = [] \<longleftrightarrow> t = []"
  by (metis set_empty set_order_by)

lemma first_row_None [simp]: "first_row t = None \<longleftrightarrow> t = []"
  by (cases t) (auto simp: first_row_def)

lemma first_row_simps [simp]: "first_row [] = None" "first_row (r # rs) = Some r"
  by (simp_all add: first_row_def)

lemma first_row_SomeD: "first_row t = Some r \<Longrightarrow> r \<in> set t"
  by (cases t) (auto simp: first_row_def)

lemma first_order_by_least:
  "first_row (order_by k t) = Some r \<Longrightarrow> x \<in> set t \<Longrightarrow> k r \<le> k x"
proof -
  assume r: "first_row (order_by k t) = Some r" and x: "x \<in> set t"
  then obtain rs where rs: "sort_key k t = r # rs"
    by (auto simp: first_row_def order_by_def split: list.splits)
  have "sorted (map k (r # rs))"
    using sorted_sort_key [of k t] by (simp add: rs)
  moreover have "x \<in> set (r # rs)" using x set_sort [of k t] by (simp add: rs)
  ultimately show "k r \<le> k x" by auto
qed

lemma first_order_by_mem: "first_row (order_by k t) = Some r \<Longrightarrow> r \<in> set t"
  by (drule first_row_SomeD) simp

lemma rowcount_pos_iff: "0 < rowcount P t \<longleftrightarrow> (\<exists>r\<in>set t. P r)"
  by (auto simp: rowcount_def filter_empty_conv)

lemma rowcount_key:
  assumes "distinct (map k t)" and "r \<in> set t"
  shows "rowcount (\<lambda>x. k x = k r) t = 1"
proof -
  have "filter (\<lambda>x. k x = k r) t = [r]"
    using assms
  proof (induction t)
    case Nil
    then show ?case by simp
  next
    case (Cons a t)
    have none: "filter (\<lambda>x. k x = k a) t = []"
      using Cons.prems(1) by (simp add: filter_empty_conv) (metis imageI)
    from Cons show ?case
      by (cases "a = r") (use none in \<open>auto simp: image_iff\<close>)
  qed
  then show ?thesis by (simp add: rowcount_def)
qed

lemma sum_list_delete_where_le:
  "sum_list (map g (delete_where P t)) \<le> (sum_list (map g t) :: nat)"
  by (induction t) (auto simp: delete_where_def)

lemma length_delete_where_less:
  "r \<in> set t \<Longrightarrow> P r \<Longrightarrow> length (delete_where P t) < length t"
  by (simp add: delete_where_def length_filter_less)

text \<open>
  A table that is only appended to and whose rows evolve along a relation: the old rows come first,
  each evolved, the new ones after them.
\<close>

definition table_evolves :: "('r \<Rightarrow> 'r \<Rightarrow> bool) \<Rightarrow> 'r list \<Rightarrow> 'r list \<Rightarrow> bool" where
  "table_evolves R rows rows' \<longleftrightarrow> (\<exists>old new. rows' = old @ new \<and> list_all2 R rows old)"

lemma table_evolves_refl: "(\<And>r. R r r) \<Longrightarrow> table_evolves R rows rows"
  unfolding table_evolves_def
  by (rule exI [of _ rows]) (auto simp: list_all2_same)

lemma table_evolves_trans:
  assumes "\<And>a b c. R a b \<Longrightarrow> R b c \<Longrightarrow> R a c"
    and "table_evolves R a b" and "table_evolves R b c"
  shows "table_evolves R a c"
proof -
  obtain b1 b2 where b: "b = b1 @ b2" "list_all2 R a b1"
    using assms(2) by (auto simp: table_evolves_def)
  obtain c1 c2 where c: "c = c1 @ c2" "list_all2 R b c1"
    using assms(3) by (auto simp: table_evolves_def)
  from c(2) b(1) obtain d1 d2 where d: "c1 = d1 @ d2" "list_all2 R b1 d1"
    by (auto simp: list_all2_append1)
  have "list_all2 R a d1" by (rule list_all2_trans [OF assms(1) b(2) d(2)])
  with c(1) d(1) show ?thesis by (auto simp: table_evolves_def)
qed

lemma table_evolves_update:
  "(\<And>r. r \<in> set rows \<Longrightarrow> R r (if P r then f r else r)) \<Longrightarrow> table_evolves R rows (update_where P f rows)"
  unfolding table_evolves_def update_where_def
  by (intro exI [of _ "map (\<lambda>r. if P r then f r else r) rows"] exI [of _ "[]"])
    (auto simp: list_all2_map2 list_all2_same)

lemma table_evolves_append: "(\<And>r. R r r) \<Longrightarrow> table_evolves R rows (rows @ new)"
  unfolding table_evolves_def by (intro exI [of _ rows] exI [of _ new]) (auto simp: list_all2_same)

lemma list_all2_memD: "list_all2 R xs ys \<Longrightarrow> x \<in> set xs \<Longrightarrow> \<exists>y\<in>set ys. R x y"
  by (induction rule: list_all2_induct) auto

lemma table_evolves_row: "table_evolves R rows rows' \<Longrightarrow> r \<in> set rows \<Longrightarrow> \<exists>r'\<in>set rows'. R r r'"
  by (auto simp: table_evolves_def dest!: list_all2_memD)

section \<open>Systems of operations\<close>

text \<open>
  A component is a set of operations on its state. What one operation keeps, every run of
  operations keeps; what one operation never decreases, no run decreases.
\<close>

locale op_system =
  fixes exec :: "'op \<Rightarrow> 's \<Rightarrow> 's" and good :: "'s \<Rightarrow> bool"
  assumes exec_good: "good s \<Longrightarrow> good (exec p s)"
begin

lemma run_good: "good s \<Longrightarrow> good (fold exec ps s)"
  by (induction ps arbitrary: s) (auto intro: exec_good)

end

locale monotone_system = op_system exec good
  for exec :: "'op \<Rightarrow> 's \<Rightarrow> 's" and good :: "'s \<Rightarrow> bool" +
  fixes upto :: "'s \<Rightarrow> 's \<Rightarrow> bool"
  assumes upto_refl: "upto s s"
    and upto_trans: "upto s t \<Longrightarrow> upto t u \<Longrightarrow> upto s u"
    and exec_upto: "good s \<Longrightarrow> upto s (exec p s)"
begin

lemma run_upto: "good s \<Longrightarrow> upto s (fold exec ps s)"
proof (induction ps arbitrary: s)
  case Nil
  show ?case by (simp add: upto_refl)
next
  case (Cons p ps)
  then have "upto s (exec p s)" and "upto (exec p s) (fold exec ps (exec p s))"
    by (auto intro: exec_upto exec_good)
  then show ?case by (simp add: upto_trans)
qed

end

end
