(* ===== verification/Agent_Queue.thy ===== *)
theory Agent_Queue
  imports Prelude
begin

text \<open>
  The durable queue of the agent, \<open>agent/nexus_agent/storage.py\<close>, class \<open>LocalQueue\<close>.

  The four SQLite tables are lists of rows in rowid order: an insert gets the largest rowid, so
  it is appended, and \<open>ORDER BY created_at, rowid\<close> is the stable sort by \<open>created_at\<close>.
  The clock and \<open>uuid4\<close> are supplies in the state: the k-th reading of \<open>int(clock())\<close> is
  \<open>w_clock s k\<close>, the k-th identifier \<open>w_uuid s k\<close>; a rolled back transaction does not take a
  reading back. The JSON and zlib codecs, SHA-256, the payload protector and the size of the
  SQLite files on disk are parameters of the configuration. \<open>None\<close> is their exception.
\<close>

section \<open>Tables and state\<close>

record queued_row =
  q_batch_id :: uuid
  q_parent_batch_id :: "uuid option"
  q_payload :: bytes
  q_payload_size :: nat
  q_critical :: bool
  q_split_depth :: int
  q_attempts :: int
  q_next_attempt_at :: seconds
  q_created_at :: seconds

record batch_quarantine_row =
  bq_batch_id :: uuid
  bq_encrypted_payload :: bytes
  bq_encrypted_size :: nat
  bq_error_code :: string
  bq_error_summary :: string
  bq_payload_digest :: string
  bq_sample_count :: nat
  bq_created_at :: seconds
  bq_purge_after :: seconds

record sample_quarantine_row =
  sq_sample_id :: uuid
  sq_parent_batch_id :: uuid
  sq_encrypted_payload :: bytes
  sq_encrypted_size :: nat
  sq_reason :: string
  sq_payload_digest :: string
  sq_created_at :: seconds
  sq_purge_after :: seconds

datatype audit_detail = Cause string | ErrorCode string | ParentBatch uuid | Expired string

record local_audit_row =
  la_id :: uuid
  la_event :: string
  la_resource_id :: uuid
  la_details :: audit_detail
  la_created_at :: seconds

record queue_tables =
  queued_batches :: "queued_row list"
  batch_quarantine :: "batch_quarantine_row list"
  sample_quarantine :: "sample_quarantine_row list"
  local_audit :: "local_audit_row list"

record queue_state =
  tables :: queue_tables
  w_clock :: "nat \<Rightarrow> seconds"
  w_reads :: nat
  w_uuid :: "nat \<Rightarrow> uuid"
  w_ids :: nat

datatype queue_error =
    ValueError string
  | QueueCapacityExceeded string
  | KeyError uuid
  | IntegrityError
  | DecodeError
  | PayloadProtectionUnavailable

record 's queue_config =
  max_queue_bytes :: nat
  max_quarantine_bytes :: nat
  retention_seconds :: seconds
  enforce_physical_quota :: bool
  encode :: "'s list \<Rightarrow> (bytes \<times> bytes) option"
  decode :: "bytes \<Rightarrow> 's list option"
  protect :: "bytes \<Rightarrow> bytes option"
  sha256_hex :: "bytes \<Rightarrow> string"
  disk_bytes :: "queue_tables \<Rightarrow> nat"
  disk_bytes_vacuumed :: "queue_tables \<Rightarrow> nat"

record 's stored_batch =
  sb_batch_id :: uuid
  sb_samples :: "'s list"
  sb_parent_batch_id :: "uuid option"
  sb_split_depth :: int
  sb_attempts :: int
  sb_created_at :: seconds

type_synonym 'a qeff = "(queue_state, queue_error, 'a) eff"

definition MAX_QUEUE_BYTES :: int where "MAX_QUEUE_BYTES = 500 * 1024 * 1024"
definition MAX_QUARANTINE_BYTES :: int where "MAX_QUARANTINE_BYTES = 50 * 1024 * 1024"
definition MAX_RETENTION_DAYS :: int where "MAX_RETENTION_DAYS = 30"

text \<open>The argument checks of the constructor, and the limits it stores.\<close>

definition local_queue_limits ::
  "int \<Rightarrow> int \<Rightarrow> int \<Rightarrow> queue_error + (nat \<times> nat \<times> seconds)" where
  "local_queue_limits max_queue max_quarantine retention_days =
     (if max_queue \<le> 0 \<or> max_queue > MAX_QUEUE_BYTES
      then Inl (ValueError ''max_queue_bytes must be between 1 and 500 MB'')
      else if max_quarantine \<le> 0 \<or> max_quarantine > MAX_QUARANTINE_BYTES
      then Inl (ValueError ''max_quarantine_bytes must be between 1 and 50 MB'')
      else if \<not> (1 \<le> retention_days \<and> retention_days \<le> MAX_RETENTION_DAYS)
      then Inl (ValueError ''quarantine retention must be between 1 and 30 days'')
      else Inr (nat max_queue, nat max_quarantine, retention_days * 86400))"

section \<open>Supplies, transactions, audit\<close>

definition clock_now :: "seconds qeff" where
  "clock_now s = (Inr (w_clock s (w_reads s)), s\<lparr>w_reads := Suc (w_reads s)\<rparr>)"

definition fresh_uuid :: "uuid qeff" where
  "fresh_uuid s = (Inr (w_uuid s (w_ids s)), s\<lparr>w_ids := Suc (w_ids s)\<rparr>)"

definition on_tables :: "(queue_tables \<Rightarrow> queue_tables) \<Rightarrow> unit qeff" where
  "on_tables f = writes (\<lambda>s. s\<lparr>tables := f (tables s)\<rparr>)"

definition transaction :: "'a qeff \<Rightarrow> 'a qeff" where
  "transaction m = txn_by (\<lambda>old new. new\<lparr>tables := tables old\<rparr>) m"

definition audit :: "string \<Rightarrow> uuid \<Rightarrow> audit_detail \<Rightarrow> unit qeff" where
  "audit event resource details =
     bindE fresh_uuid (\<lambda>i. bindE clock_now (\<lambda>now. bindE (reads tables) (\<lambda>t.
       if i \<in> la_id ` set (local_audit t) then raise IntegrityError
       else on_tables (\<lambda>t. t\<lparr>local_audit := local_audit t @
         [\<lparr>la_id = i, la_event = event, la_resource_id = resource, la_details = details,
           la_created_at = now\<rparr>]\<rparr>))))"

section \<open>Quotas and eviction\<close>

definition queue_bytes :: "queue_tables \<Rightarrow> nat" where
  "queue_bytes t = sum_list (map q_payload_size (queued_batches t))"

definition quarantine_bytes :: "queue_tables \<Rightarrow> nat" where
  "quarantine_bytes t = sum_list (map bq_encrypted_size (batch_quarantine t))
     + sum_list (map sq_encrypted_size (sample_quarantine t))"

definition oldest_evictable :: "queue_tables \<Rightarrow> queued_row option" where
  "oldest_evictable t =
     first_row (order_by q_created_at (select_where (\<lambda>r. \<not> q_critical r) (queued_batches t)))"

definition delete_queued :: "uuid \<Rightarrow> queue_tables \<Rightarrow> queue_tables" where
  "delete_queued b t = t\<lparr>queued_batches := delete_where (\<lambda>r. q_batch_id r = b) (queued_batches t)\<rparr>"

definition evict :: "string \<Rightarrow> uuid \<Rightarrow> unit qeff" where
  "evict cause b = transaction (bindE (on_tables (delete_queued b))
     (\<lambda>_. audit ''QUEUE_FIFO_EVICTION'' b (Cause cause)))"

lemma wp_clock_now [simp]:
  "wp clock_now Q E s = Q (w_clock s (w_reads s)) (s\<lparr>w_reads := Suc (w_reads s)\<rparr>)"
  by (simp add: wp_def clock_now_def)

lemma wp_fresh_uuid [simp]:
  "wp fresh_uuid Q E s = Q (w_uuid s (w_ids s)) (s\<lparr>w_ids := Suc (w_ids s)\<rparr>)"
  by (simp add: wp_def fresh_uuid_def)

lemma wp_on_tables [simp]: "wp (on_tables f) Q E s = Q () (s\<lparr>tables := f (tables s)\<rparr>)"
  by (simp add: on_tables_def)

lemma wp_transaction [simp]:
  "wp (transaction m) Q E s = wp m Q (\<lambda>e s'. E e (s'\<lparr>tables := tables s\<rparr>)) s"
  by (simp add: transaction_def)

lemma evict_queue:
  "wp (evict cause b)
     (\<lambda>_ s'. queued_batches (tables s') = delete_where (\<lambda>r. q_batch_id r = b) (queued_batches (tables s)))
     (\<lambda>_ _. True) s"
  by (simp add: evict_def audit_def delete_queued_def wp_if)

text \<open>
  The eviction loop: while the store is too large, the oldest batch that is not critical goes,
  with an audit row; if there is none the caller's error is raised. \<open>_make_room\<close> runs it inside
  the caller's transaction, \<open>_enforce_disk_bound\<close> one transaction per turn.
\<close>

function evict_until ::
  "(queue_tables \<Rightarrow> bool) \<Rightarrow> string \<Rightarrow> string \<Rightarrow> queue_state \<Rightarrow> (queue_error + unit) \<times> queue_state" where
  "evict_until over cause full s =
     (if over (tables s) then
        (case oldest_evictable (tables s) of
           None \<Rightarrow> (Inl (QueueCapacityExceeded full), s)
         | Some r \<Rightarrow>
             (case evict cause (q_batch_id r) s of
                (Inl e, s') \<Rightarrow> (Inl e, s')
              | (Inr _, s') \<Rightarrow> evict_until over cause full s'))
      else (Inr (), s))"
  by pat_completeness auto

lemma evict_shrinks:
  assumes "oldest_evictable (tables s) = Some r" and "evict cause (q_batch_id r) s = (Inr u, s')"
  shows "length (queued_batches (tables s')) < length (queued_batches (tables s))"
proof -
  have "r \<in> set (queued_batches (tables s))"
    using first_order_by_mem [OF assms(1) [unfolded oldest_evictable_def]] by simp
  with wp_InrD [OF evict_queue assms(2)] show ?thesis
    by (simp add: length_delete_where_less)
qed

termination evict_until
  by (relation "measure (\<lambda>(over, cause, full, s). length (queued_batches (tables s)))")
    (auto dest: evict_shrinks [OF _ sym])

declare evict_until.simps [simp del]

definition make_room :: "'s queue_config \<Rightarrow> nat \<Rightarrow> unit qeff" where
  "make_room cfg required =
     (if required > max_queue_bytes cfg
      then raise (QueueCapacityExceeded ''single payload exceeds local queue quota'')
      else evict_until
        (\<lambda>t. queue_bytes t + quarantine_bytes t + required > max_queue_bytes cfg)
        ''QUEUE_QUOTA'' ''queue contains only protected critical records'')"

definition enforce_disk_bound :: "'s queue_config \<Rightarrow> unit qeff" where
  "enforce_disk_bound cfg =
     (if \<not> enforce_physical_quota cfg then ret ()
      else bindE (reads tables) (\<lambda>t.
        if disk_bytes cfg t \<le> max_queue_bytes cfg then ret ()
        else evict_until (\<lambda>t. disk_bytes_vacuumed cfg t > max_queue_bytes cfg)
          ''PHYSICAL_QUOTA'' ''physical SQLite files exceed queue quota''))"

section \<open>Operations of the queue\<close>

text \<open>
  \<open>INSERT INTO queued_batches\<close> with the table's constraints: the primary key and
  \<open>split_depth BETWEEN 0 AND 3\<close>; \<open>attempts\<close> and \<open>next_attempt_at\<close> default to 0.
\<close>

definition insert_queued ::
  "uuid \<Rightarrow> uuid option \<Rightarrow> bytes \<Rightarrow> bool \<Rightarrow> int \<Rightarrow> seconds \<Rightarrow> unit qeff" where
  "insert_queued b parent p critical depth now = bindE (reads tables) (\<lambda>t.
     if b \<in> q_batch_id ` set (queued_batches t) \<or> \<not> (0 \<le> depth \<and> depth \<le> 3)
     then raise IntegrityError
     else on_tables (\<lambda>t. t\<lparr>queued_batches := queued_batches t @
       [\<lparr>q_batch_id = b, q_parent_batch_id = parent, q_payload = p, q_payload_size = length p,
         q_critical = critical, q_split_depth = depth, q_attempts = 0, q_next_attempt_at = 0,
         q_created_at = now\<rparr>]\<rparr>))"

definition enqueue ::
  "'s queue_config \<Rightarrow> 's list \<Rightarrow> uuid option \<Rightarrow> uuid option \<Rightarrow> int \<Rightarrow> bool \<Rightarrow> uuid qeff" where
  "enqueue cfg samples batch_id parent_batch_id split_depth critical =
     (if samples = [] then raise (ValueError ''batch must contain at least one sample'')
      else if \<not> (0 \<le> split_depth \<and> split_depth \<le> 3)
      then raise (ValueError ''split_depth must be between 0 and 3'')
      else bindE (case batch_id of Some b \<Rightarrow> ret b | None \<Rightarrow> fresh_uuid) (\<lambda>identifier.
        case encode cfg samples of
          None \<Rightarrow> raise (ValueError ''samples are not JSON'')
        | Some (_, compressed) \<Rightarrow>
            bindE clock_now (\<lambda>now.
            bindE (transaction (bindE (make_room cfg (length compressed)) (\<lambda>_.
              insert_queued identifier parent_batch_id compressed critical split_depth now))) (\<lambda>_.
            bindE (enforce_disk_bound cfg) (\<lambda>_.
            bindE (reads tables) (\<lambda>t.
              if identifier \<in> q_batch_id ` set (queued_batches t) then ret identifier
              else raise (QueueCapacityExceeded ''payload could not fit within physical SQLite quota'')))))))"

definition stored_of :: "'s queue_config \<Rightarrow> queued_row \<Rightarrow> queue_error + 's stored_batch" where
  "stored_of cfg r =
     (case decode cfg (q_payload r) of
        None \<Rightarrow> Inl DecodeError
      | Some xs \<Rightarrow> Inr \<lparr>sb_batch_id = q_batch_id r, sb_samples = xs,
          sb_parent_batch_id = q_parent_batch_id r, sb_split_depth = q_split_depth r,
          sb_attempts = q_attempts r, sb_created_at = q_created_at r\<rparr>)"

definition load_row :: "'s queue_config \<Rightarrow> queued_row option \<Rightarrow> 's stored_batch option qeff" where
  "load_row cfg row =
     (case row of
        None \<Rightarrow> ret None
      | Some r \<Rightarrow> (case stored_of cfg r of Inl e \<Rightarrow> raise e | Inr b \<Rightarrow> ret (Some b)))"

definition next_row :: "seconds \<Rightarrow> queue_tables \<Rightarrow> queued_row option" where
  "next_row now t =
     first_row (order_by q_created_at (select_where (\<lambda>r. q_next_attempt_at r \<le> now) (queued_batches t)))"

definition next_batch :: "'s queue_config \<Rightarrow> seconds option \<Rightarrow> 's stored_batch option qeff" where
  "next_batch cfg now =
     bindE (case now of None \<Rightarrow> clock_now | Some n \<Rightarrow> ret n) (\<lambda>effective_now.
     bindE (reads (\<lambda>s. next_row effective_now (tables s))) (load_row cfg))"

definition row_of :: "uuid \<Rightarrow> queue_tables \<Rightarrow> queued_row option" where
  "row_of b t = first_row (select_where (\<lambda>r. q_batch_id r = b) (queued_batches t))"

definition get_batch :: "'s queue_config \<Rightarrow> uuid \<Rightarrow> 's stored_batch option qeff" where
  "get_batch cfg b = bindE (reads (\<lambda>s. row_of b (tables s))) (load_row cfg)"

definition queued_batch_ids :: "nat \<Rightarrow> uuid list qeff" where
  "queued_batch_ids limit =
     reads (\<lambda>s. map q_batch_id (take limit (order_by q_created_at (queued_batches (tables s)))))"

definition acknowledge :: "uuid \<Rightarrow> bool qeff" where
  "acknowledge b = transaction (bindE (reads tables) (\<lambda>t.
     bindE (on_tables (delete_queued b)) (\<lambda>_.
       ret (rowcount (\<lambda>r. q_batch_id r = b) (queued_batches t) = 1))))"

definition defer_row :: "uuid \<Rightarrow> seconds \<Rightarrow> queue_tables \<Rightarrow> queue_tables" where
  "defer_row b at t = t\<lparr>queued_batches := update_where (\<lambda>r. q_batch_id r = b)
     (\<lambda>r. r\<lparr>q_attempts := q_attempts r + 1, q_next_attempt_at := at\<rparr>) (queued_batches t)\<rparr>"

definition defer_batch :: "uuid \<Rightarrow> int \<Rightarrow> unit qeff" where
  "defer_batch b delay_seconds =
     (if delay_seconds < 0 then raise (ValueError ''delay_seconds cannot be negative'')
      else transaction (bindE clock_now (\<lambda>now. on_tables (defer_row b (now + delay_seconds)))))"

definition insert_child ::
  "'s queue_config \<Rightarrow> 's stored_batch \<Rightarrow> bool \<Rightarrow> uuid \<Rightarrow> bytes \<Rightarrow> unit qeff" where
  "insert_child cfg batch critical identifier p =
     bindE (make_room cfg (length p)) (\<lambda>_. bindE clock_now (\<lambda>now.
       insert_queued identifier (Some (sb_batch_id batch)) p critical (sb_split_depth batch + 1) now))"

definition split_batch :: "'s queue_config \<Rightarrow> 's stored_batch \<Rightarrow> (uuid \<times> uuid) qeff" where
  "split_batch cfg batch =
     (if length (sb_samples batch) < 2 \<or> sb_split_depth batch \<ge> 3
      then raise (ValueError ''batch cannot be split'')
      else let midpoint = length (sb_samples batch) div 2 in
        bindE fresh_uuid (\<lambda>id1. bindE fresh_uuid (\<lambda>id2.
          case (encode cfg (take midpoint (sb_samples batch)),
                encode cfg (drop midpoint (sb_samples batch))) of
            (Some (_, p1), Some (_, p2)) \<Rightarrow>
              bindE (transaction (bindE (reads (\<lambda>s. row_of (sb_batch_id batch) (tables s))) (\<lambda>existing.
                case existing of
                  None \<Rightarrow> raise (KeyError (sb_batch_id batch))
                | Some r \<Rightarrow>
                    bindE (on_tables (delete_queued (sb_batch_id batch))) (\<lambda>_.
                    bindE (insert_child cfg batch (q_critical r) id1 p1) (\<lambda>_.
                      insert_child cfg batch (q_critical r) id2 p2)))))
                (\<lambda>_. ret (id1, id2))
          | _ \<Rightarrow> raise (ValueError ''samples are not JSON''))))"

section \<open>Quarantine\<close>

text \<open>\<open>[A-Z][A-Z0-9_]{0,63}\<close>, the shape of an error code.\<close>

definition code_shape :: "string \<Rightarrow> bool" where
  "code_shape s = (case s of
     [] \<Rightarrow> False
   | c # cs \<Rightarrow> is_upper c \<and> length cs \<le> 63
       \<and> list_all (\<lambda>d. is_upper d \<or> is_digit d \<or> d = CHR ''_'') cs)"

definition normalize_code :: "string \<Rightarrow> string \<Rightarrow> string" where
  "normalize_code fallback error_code =
     (let normalized = py_upper (py_strip error_code)
      in if code_shape normalized then normalized else fallback)"

definition safe_error_code :: "string \<Rightarrow> string" where
  "safe_error_code error_code = normalize_code ''REMOTE_REJECTION'' error_code"

definition safe_summary :: "string \<Rightarrow> string" where
  "safe_summary summary = ''Batch rejected by server; inspect protected server diagnostics''"

definition expired_batches :: "seconds \<Rightarrow> queue_tables \<Rightarrow> uuid list" where
  "expired_batches now t =
     map bq_batch_id (select_where (\<lambda>r. bq_purge_after r \<le> now) (batch_quarantine t))"

definition expired_samples :: "seconds \<Rightarrow> queue_tables \<Rightarrow> uuid list" where
  "expired_samples now t =
     map sq_sample_id (select_where (\<lambda>r. sq_purge_after r \<le> now) (sample_quarantine t))"

definition audit_expired :: "string \<Rightarrow> uuid list \<Rightarrow> unit qeff" where
  "audit_expired table ids = eachE (\<lambda>i. audit ''QUARANTINE_PAYLOAD_EXPIRED'' i (Expired table)) ids"

definition purge_expired :: "seconds \<Rightarrow> nat qeff" where
  "purge_expired now =
     bindE (reads (\<lambda>s. expired_batches now (tables s))) (\<lambda>bs.
     bindE (on_tables (\<lambda>t. t\<lparr>batch_quarantine :=
       delete_where (\<lambda>r. bq_purge_after r \<le> now) (batch_quarantine t)\<rparr>)) (\<lambda>_.
     bindE (audit_expired ''batch_quarantine'' bs) (\<lambda>_.
     bindE (reads (\<lambda>s. expired_samples now (tables s))) (\<lambda>xs.
     bindE (on_tables (\<lambda>t. t\<lparr>sample_quarantine :=
       delete_where (\<lambda>r. sq_purge_after r \<le> now) (sample_quarantine t)\<rparr>)) (\<lambda>_.
     bindE (audit_expired ''sample_quarantine'' xs) (\<lambda>_.
       ret (length bs + length xs)))))))"

definition purge_expired_quarantine :: "nat qeff" where
  "purge_expired_quarantine = transaction (bindE clock_now purge_expired)"

definition ensure_quarantine_room :: "'s queue_config \<Rightarrow> nat \<Rightarrow> unit qeff" where
  "ensure_quarantine_room cfg required = bindE (reads tables) (\<lambda>t.
     if required > max_quarantine_bytes cfg \<or> quarantine_bytes t + required > max_quarantine_bytes cfg
     then raise (QueueCapacityExceeded ''quarantine quota exhausted'') else ret ())"

text \<open>Both quarantine operations take the batch out of the queue and make room before they store.\<close>

definition take_out :: "'s queue_config \<Rightarrow> uuid \<Rightarrow> nat \<Rightarrow> seconds \<Rightarrow> unit qeff" where
  "take_out cfg b n now =
     bindE (purge_expired now) (\<lambda>_.
     bindE (reads tables) (\<lambda>t.
     bindE (on_tables (delete_queued b)) (\<lambda>_.
       if rowcount (\<lambda>r. q_batch_id r = b) (queued_batches t) \<noteq> 1 then raise (KeyError b)
       else bindE (make_room cfg n) (\<lambda>_. ensure_quarantine_room cfg n))))"

definition quarantine_batch ::
  "'s queue_config \<Rightarrow> 's stored_batch \<Rightarrow> string \<Rightarrow> string \<Rightarrow> unit qeff" where
  "quarantine_batch cfg batch error_code error_summary =
     (case encode cfg (sb_samples batch) of
        None \<Rightarrow> raise (ValueError ''samples are not JSON'')
      | Some (raw, _) \<Rightarrow>
        (case protect cfg raw of
           None \<Rightarrow> raise PayloadProtectionUnavailable
         | Some encrypted \<Rightarrow>
           bindE clock_now (\<lambda>now.
           let safe_code = safe_error_code error_code in
           transaction (
             bindE (take_out cfg (sb_batch_id batch) (length encrypted) now) (\<lambda>_.
             bindE (reads tables) (\<lambda>t.
             bindE (if sb_batch_id batch \<in> bq_batch_id ` set (batch_quarantine t)
                    then raise IntegrityError
                    else on_tables (\<lambda>t. t\<lparr>batch_quarantine := batch_quarantine t @
                      [\<lparr>bq_batch_id = sb_batch_id batch, bq_encrypted_payload = encrypted,
                        bq_encrypted_size = length encrypted, bq_error_code = safe_code,
                        bq_error_summary = safe_summary error_summary,
                        bq_payload_digest = sha256_hex cfg raw,
                        bq_sample_count = length (sb_samples batch), bq_created_at = now,
                        bq_purge_after = now + retention_seconds cfg\<rparr>]\<rparr>)) (\<lambda>_.
             audit (if prefix ''HTTP_422'' safe_code then ''BATCH_QUARANTINED_422''
                    else ''BATCH_QUARANTINED_TERMINAL'')
               (sb_batch_id batch) (ErrorCode safe_code))))))))"

definition quarantine_sample ::
  "'s queue_config \<Rightarrow> 's stored_batch \<Rightarrow> string \<Rightarrow> uuid qeff" where
  "quarantine_sample cfg batch reason =
     (if length (sb_samples batch) \<noteq> 1
      then raise (ValueError ''sample quarantine requires exactly one sample'')
      else case encode cfg (sb_samples batch) of
        None \<Rightarrow> raise (ValueError ''samples are not JSON'')
      | Some (raw, _) \<Rightarrow>
        (case protect cfg raw of
           None \<Rightarrow> raise PayloadProtectionUnavailable
         | Some encrypted \<Rightarrow>
           bindE clock_now (\<lambda>now.
           bindE fresh_uuid (\<lambda>sample_id.
           bindE (transaction (
             bindE (take_out cfg (sb_batch_id batch) (length encrypted) now) (\<lambda>_.
             bindE (reads tables) (\<lambda>t.
             bindE (if sample_id \<in> sq_sample_id ` set (sample_quarantine t)
                    then raise IntegrityError
                    else on_tables (\<lambda>t. t\<lparr>sample_quarantine := sample_quarantine t @
                      [\<lparr>sq_sample_id = sample_id, sq_parent_batch_id = sb_batch_id batch,
                        sq_encrypted_payload = encrypted, sq_encrypted_size = length encrypted,
                        sq_reason = take 64 reason, sq_payload_digest = sha256_hex cfg raw,
                        sq_created_at = now, sq_purge_after = now + retention_seconds cfg\<rparr>]\<rparr>)) (\<lambda>_.
             audit ''SAMPLE_QUARANTINED_413'' sample_id (ParentBatch (sb_batch_id batch))))))) (\<lambda>_.
           ret sample_id)))))"

definition counts :: "(nat \<times> nat \<times> nat \<times> nat) qeff" where
  "counts = reads (\<lambda>s. (length (queued_batches (tables s)), length (batch_quarantine (tables s)),
     length (sample_quarantine (tables s)), length (local_audit (tables s))))"

section \<open>What eviction does\<close>

definition eviction_row :: "string \<Rightarrow> queued_row \<Rightarrow> local_audit_row \<Rightarrow> bool" where
  "eviction_row cause r a \<longleftrightarrow> la_event a = ''QUEUE_FIFO_EVICTION''
     \<and> la_resource_id a = q_batch_id r \<and> la_details a = Cause cause"

definition evicted :: "queued_row \<Rightarrow> local_audit_row \<Rightarrow> queue_tables \<Rightarrow> queue_tables" where
  "evicted r a t = (delete_queued (q_batch_id r) t)\<lparr>local_audit := local_audit t @ [a]\<rparr>"

lemma evict_wp:
  "wp (evict cause (q_batch_id r))
     (\<lambda>_ s'. \<exists>a. eviction_row cause r a \<and> tables s' = evicted r a (tables s))
     (\<lambda>_ s'. tables s' = tables s) s"
  by (auto simp: evict_def audit_def wp_if eviction_row_def evicted_def delete_queued_def
      intro!: exI [where x = "\<lparr>la_id = w_uuid s (w_ids s), la_event = ''QUEUE_FIFO_EVICTION'',
        la_resource_id = q_batch_id r, la_details = Cause cause,
        la_created_at = w_clock s (w_reads s)\<rparr>"])

lemma oldest_evictableD:
  assumes "oldest_evictable t = Some r"
  shows "r \<in> set (queued_batches t)" and "\<not> q_critical r"
    and "\<And>x. x \<in> set (queued_batches t) \<Longrightarrow> \<not> q_critical x \<Longrightarrow> q_created_at r \<le> q_created_at x"
  using first_order_by_mem [OF assms [unfolded oldest_evictable_def]]
    first_order_by_least [OF assms [unfolded oldest_evictable_def]] by auto

text \<open>The rule for the loop: what every eviction keeps holds at the end, and the store fits.\<close>

lemma evict_until_rule:
  assumes "P (tables s)"
    and "\<And>t r a. P t \<Longrightarrow> over t \<Longrightarrow> oldest_evictable t = Some r \<Longrightarrow> eviction_row cause r a
      \<Longrightarrow> P (evicted r a t)"
  shows "wp (evict_until over cause full)
    (\<lambda>_ s'. P (tables s') \<and> \<not> over (tables s')) (\<lambda>_ s'. P (tables s')) s"
  using assms
proof (induction over cause full s rule: evict_until.induct)
  case (1 over cause full s)
  show ?case
  proof (cases "over (tables s)")
    case False
    with 1 show ?thesis by (simp add: wp_def evict_until.simps [of over cause full s])
  next
    case over: True
    show ?thesis
    proof (cases "oldest_evictable (tables s)")
      case None
      with over 1 show ?thesis by (simp add: wp_def evict_until.simps [of over cause full s])
    next
      case (Some r)
      show ?thesis
      proof (cases "evict cause (q_batch_id r) s")
        case (Pair res s')
        show ?thesis
        proof (cases res)
          case (Inl e)
          with Pair have "tables s' = tables s" using wp_InlD [OF evict_wp] by blast
          with over Some Pair Inl 1 show ?thesis
            by (simp add: wp_def evict_until.simps [of over cause full s])
        next
          case (Inr u)
          with Pair obtain a where "eviction_row cause r a" "tables s' = evicted r a (tables s)"
            using wp_InrD [OF evict_wp] by blast
          with 1 over Some have P': "P (tables s')" by simp
          have "wp (evict_until over cause full)
            (\<lambda>_ s'. P (tables s') \<and> \<not> over (tables s')) (\<lambda>_ s'. P (tables s')) s'"
            using "1.IH" [OF over Some Pair [symmetric] Inr P' "1.prems"(2)] by blast
          with over Some Pair Inr show ?thesis
            by (simp add: wp_def evict_until.simps [of over cause full s])
        qed
      qed
    qed
  qed
qed

lemma make_room_rule:
  assumes "P (tables s)"
    and "\<And>t r a. P t \<Longrightarrow> oldest_evictable t = Some r \<Longrightarrow> eviction_row ''QUEUE_QUOTA'' r a
      \<Longrightarrow> P (evicted r a t)"
  shows "wp (make_room cfg n)
    (\<lambda>_ s'. P (tables s') \<and> queue_bytes (tables s') + quarantine_bytes (tables s') + n \<le> max_queue_bytes cfg)
    (\<lambda>_ s'. P (tables s')) s"
  using assms evict_until_rule [where P = P and s = s and cause = "''QUEUE_QUOTA''"]
  by (auto simp: make_room_def wp_if not_less intro!: wp_mono [OF evict_until_rule [where P = P]])

section \<open>The invariant of the store\<close>

definition row_ok :: "queued_row \<Rightarrow> bool" where
  "row_ok r \<longleftrightarrow> q_payload_size r = length (q_payload r)
     \<and> 0 \<le> q_split_depth r \<and> q_split_depth r \<le> 3 \<and> 0 \<le> q_attempts r"

definition rows_ok :: "queue_tables \<Rightarrow> bool" where
  "rows_ok t \<longleftrightarrow> distinct (map q_batch_id (queued_batches t))
     \<and> distinct (map bq_batch_id (batch_quarantine t))
     \<and> distinct (map sq_sample_id (sample_quarantine t))
     \<and> (\<forall>r\<in>set (queued_batches t). row_ok r)"

definition within_quota :: "'s queue_config \<Rightarrow> queue_tables \<Rightarrow> bool" where
  "within_quota cfg t \<longleftrightarrow> queue_bytes t + quarantine_bytes t \<le> max_queue_bytes cfg
     \<and> quarantine_bytes t \<le> max_quarantine_bytes cfg"

definition tables_ok :: "'s queue_config \<Rightarrow> queue_tables \<Rightarrow> bool" where
  "tables_ok cfg t \<longleftrightarrow> rows_ok t \<and> within_quota cfg t"

named_theorems table_simps "how the parts of the store read after an update of another part"

lemma bytes_simps [table_simps, simp]:
  "queue_bytes (t\<lparr>local_audit := a\<rparr>) = queue_bytes t"
  "quarantine_bytes (t\<lparr>local_audit := a\<rparr>) = quarantine_bytes t"
  "quarantine_bytes (t\<lparr>queued_batches := q\<rparr>) = quarantine_bytes t"
  "queue_bytes (t\<lparr>batch_quarantine := b\<rparr>) = queue_bytes t"
  "queue_bytes (t\<lparr>sample_quarantine := x\<rparr>) = queue_bytes t"
  by (simp_all add: queue_bytes_def quarantine_bytes_def)

lemma rows_ok_audit [table_simps, simp]: "rows_ok (t\<lparr>local_audit := a\<rparr>) = rows_ok t"
  by (simp add: rows_ok_def)

lemma tables_ok_audit [table_simps, simp]:
  "tables_ok cfg (t\<lparr>local_audit := a\<rparr>) = tables_ok cfg t"
  by (simp add: tables_ok_def within_quota_def)

lemma queue_bytes_delete: "queue_bytes (delete_queued b t) \<le> queue_bytes t"
  by (simp add: queue_bytes_def delete_queued_def sum_list_delete_where_le)

lemma quarantine_bytes_delete [simp]: "quarantine_bytes (delete_queued b t) = quarantine_bytes t"
  by (simp add: delete_queued_def)

lemma rows_ok_delete: "rows_ok t \<Longrightarrow> rows_ok (delete_queued b t)"
  by (auto simp: rows_ok_def delete_queued_def intro: distinct_map_delete_where)

lemma tables_ok_delete: "tables_ok cfg t \<Longrightarrow> tables_ok cfg (delete_queued b t)"
  using queue_bytes_delete [of b t] by (auto simp: tables_ok_def within_quota_def rows_ok_delete)

lemma tables_ok_evicted: "tables_ok cfg t \<Longrightarrow> tables_ok cfg (evicted r a t)"
  by (simp add: evicted_def tables_ok_delete)

lemma tables_ok_defer: "tables_ok cfg t \<Longrightarrow> tables_ok cfg (defer_row b at t)"
proof -
  assume ok: "tables_ok cfg t"
  have "map q_payload_size (queued_batches (defer_row b at t)) = map q_payload_size (queued_batches t)"
    and "map q_batch_id (queued_batches (defer_row b at t)) = map q_batch_id (queued_batches t)"
    by (simp_all add: defer_row_def map_update_where)
  then show ?thesis
    using ok by (auto simp: tables_ok_def rows_ok_def within_quota_def queue_bytes_def
      quarantine_bytes_def defer_row_def set_update_where row_ok_def)
qed

lemma quarantine_bytes_purge:
  "quarantine_bytes (t\<lparr>batch_quarantine := delete_where P (batch_quarantine t)\<rparr>) \<le> quarantine_bytes t"
  "quarantine_bytes (t\<lparr>sample_quarantine := delete_where Q (sample_quarantine t)\<rparr>) \<le> quarantine_bytes t"
  by (simp_all add: quarantine_bytes_def sum_list_delete_where_le)

lemma tables_ok_purge:
  assumes "tables_ok cfg t"
  shows "tables_ok cfg (t\<lparr>batch_quarantine := delete_where P (batch_quarantine t)\<rparr>)"
    and "tables_ok cfg (t\<lparr>sample_quarantine := delete_where Q (sample_quarantine t)\<rparr>)"
  using assms quarantine_bytes_purge(1) [of P t] quarantine_bytes_purge(2) [of Q t]
  by (auto simp: tables_ok_def rows_ok_def within_quota_def distinct_map_delete_where)

abbreviation store_ok :: "'s queue_config \<Rightarrow> queue_state \<Rightarrow> bool" where
  "store_ok cfg s \<equiv> tables_ok cfg (tables s)"

text \<open>Every combinator of this component keeps the invariant.\<close>

lemma keeps_clock_now [keeps_rules]: "keeps (\<lambda>s. P (tables s)) clock_now"
  by (rule keepsI) simp

lemma keeps_fresh_uuid [keeps_rules]: "keeps (\<lambda>s. P (tables s)) fresh_uuid"
  by (rule keepsI) simp

lemma keeps_on_tables [keeps_rules]:
  "(\<And>t. P t \<Longrightarrow> P (f t)) \<Longrightarrow> keeps (\<lambda>s. P (tables s)) (on_tables f)"
  by (rule keepsI) simp

lemma keeps_transaction [keeps_rules]:
  "keeps (\<lambda>s. P (tables s)) m \<Longrightarrow> keeps (\<lambda>s. P (tables s)) (transaction m)"
  by (rule keepsI) (auto intro: wp_mono [OF keeps_wp])

lemma keeps_audit [keeps_rules]:
  "(\<And>t a. P t \<Longrightarrow> P (t\<lparr>local_audit := a\<rparr>)) \<Longrightarrow> keeps (\<lambda>s. P (tables s)) (audit e r d)"
  unfolding audit_def by (intro keeps_rules) auto

lemma keeps_evict_until:
  "(\<And>t r a. P t \<Longrightarrow> P (evicted r a t)) \<Longrightarrow> keeps (\<lambda>s. P (tables s)) (evict_until over cause full)"
  by (rule keepsI) (rule wp_mono [OF evict_until_rule [where P = P]], auto)

lemma keeps_make_room [keeps_rules]: "keeps (store_ok cfg) (make_room cfg' n)"
  unfolding make_room_def
  by (intro keeps_rules keeps_evict_until) (auto intro: tables_ok_evicted)

lemma keeps_disk_bound [keeps_rules]: "keeps (store_ok cfg) (enforce_disk_bound cfg')"
  unfolding enforce_disk_bound_def
  by (intro keeps_rules keeps_evict_until) (auto intro: tables_ok_evicted)

text \<open>An insert after \<open>make_room\<close> fits.\<close>

definition room_for :: "'s queue_config \<Rightarrow> nat \<Rightarrow> queue_tables \<Rightarrow> bool" where
  "room_for cfg n t \<longleftrightarrow> tables_ok cfg t
     \<and> queue_bytes t + quarantine_bytes t + n \<le> max_queue_bytes cfg"

lemma make_room_room:
  "store_ok cfg s \<Longrightarrow>
   wp (make_room cfg n) (\<lambda>_ s'. room_for cfg n (tables s')) (\<lambda>_ s'. store_ok cfg s') s"
  unfolding room_for_def
  by (rule wp_mono [OF make_room_rule [where P = "tables_ok cfg"]])
    (auto intro: tables_ok_evicted)

lemma insert_queued_ok:
  "room_for cfg (length p) (tables s) \<Longrightarrow>
   wp (insert_queued b parent p critical depth now)
     (\<lambda>_. store_ok cfg) (\<lambda>_. store_ok cfg) s"
  by (auto simp: insert_queued_def wp_if room_for_def tables_ok_def rows_ok_def within_quota_def
      queue_bytes_def quarantine_bytes_def row_ok_def)

lemma keeps_insert_after_room:
  "keeps (store_ok cfg)
     (transaction (bindE (make_room cfg (length p)) (\<lambda>_. insert_queued b parent p critical depth now)))"
  by (rule keeps_transaction, rule keepsI, simp, rule wp_mono [OF make_room_room])
    (auto intro: insert_queued_ok)

lemma keeps_enqueue: "keeps (store_ok cfg) (enqueue cfg xs b parent depth critical)"
  unfolding enqueue_def by (rule keeps_insert_after_room keeps_rules)+

lemma keeps_load_row [keeps_rules]: "keeps P (load_row cfg row)"
  unfolding load_row_def by (rule keeps_rules)+

lemma keeps_next_batch: "keeps (store_ok cfg) (next_batch cfg' now)"
  unfolding next_batch_def by (rule keeps_rules)+

lemma keeps_get_batch: "keeps (store_ok cfg) (get_batch cfg' b)"
  unfolding get_batch_def by (rule keeps_rules)+

lemma keeps_acknowledge: "keeps (store_ok cfg) (acknowledge b)"
  unfolding acknowledge_def by (rule keeps_rules tables_ok_delete | assumption)+

lemma keeps_defer: "keeps (store_ok cfg) (defer_batch b d)"
  unfolding defer_batch_def by (rule keeps_rules tables_ok_defer | assumption)+

lemma keeps_insert_child: "keeps (store_ok cfg) (insert_child cfg batch critical i p)"
  unfolding insert_child_def
  by (rule keepsI, simp, rule wp_mono [OF make_room_room]) (auto intro: insert_queued_ok)

lemma keeps_split: "keeps (store_ok cfg) (split_batch cfg batch)"
  unfolding split_batch_def
  by (rule keeps_insert_child keeps_rules tables_ok_delete | assumption)+

lemma keeps_purge_expired: "keeps (store_ok cfg) (purge_expired now)"
  unfolding purge_expired_def audit_expired_def
  by (rule keeps_rules tables_ok_purge | assumption | simp)+

lemma keeps_purge: "keeps (store_ok cfg) purge_expired_quarantine"
  unfolding purge_expired_quarantine_def by (rule keeps_purge_expired keeps_rules)+

text \<open>Quarantine: what \<open>take_out\<close> establishes is what the insert needs.\<close>

definition quarantine_room :: "'s queue_config \<Rightarrow> nat \<Rightarrow> queue_tables \<Rightarrow> bool" where
  "quarantine_room cfg n t \<longleftrightarrow> room_for cfg n t \<and> quarantine_bytes t + n \<le> max_quarantine_bytes cfg"

lemma take_out_room:
  assumes "store_ok cfg s"
  shows "wp (take_out cfg b n now)
    (\<lambda>_ s'. quarantine_room cfg n (tables s')) (\<lambda>_ s'. store_ok cfg s') s"
proof -
  have room: "wp (bindE (make_room cfg n) (\<lambda>_. ensure_quarantine_room cfg n))
      (\<lambda>_ s'. quarantine_room cfg n (tables s')) (\<lambda>_ s'. store_ok cfg s') s'"
    if "store_ok cfg s'" for s'
    using that
    by (simp, intro wp_mono [OF make_room_room])
      (auto simp: ensure_quarantine_room_def wp_if quarantine_room_def room_for_def)
  show ?thesis
    unfolding take_out_def
    using assms
    by (simp, intro wp_mono [OF keeps_wp [OF keeps_purge_expired]])
      (auto simp: wp_if tables_ok_delete intro!: room [unfolded wp_bindE])
qed

lemma keeps_quarantine_batch: "keeps (store_ok cfg) (quarantine_batch cfg batch code summary)"
  unfolding quarantine_batch_def Let_def
proof (rule keeps_option, rule keeps_raise, rule keeps_prod, rule keeps_option, rule keeps_raise,
    rule keeps_bindE, rule keeps_clock_now, rule keeps_transaction)
  fix raw encrypted now
  let ?insert = "\<lambda>t :: queue_tables. if sb_batch_id batch \<in> bq_batch_id ` set (batch_quarantine t)
    then raise IntegrityError else on_tables (\<lambda>t. t\<lparr>batch_quarantine := batch_quarantine t @
      [\<lparr>bq_batch_id = sb_batch_id batch, bq_encrypted_payload = encrypted,
        bq_encrypted_size = length encrypted, bq_error_code = safe_error_code code,
        bq_error_summary = safe_summary summary, bq_payload_digest = sha256_hex cfg raw,
        bq_sample_count = length (sb_samples batch), bq_created_at = now,
        bq_purge_after = now + retention_seconds cfg\<rparr>]\<rparr>)"
  have ins: "wp (?insert (tables s)) (\<lambda>_. store_ok cfg) (\<lambda>_. store_ok cfg) s"
    if "quarantine_room cfg (length encrypted) (tables s)" for s
    using that by (auto simp: wp_if quarantine_room_def room_for_def tables_ok_def rows_ok_def
        within_quota_def queue_bytes_def quarantine_bytes_def)
  have aud: "keeps (store_ok cfg) (audit e r d)" for e r d
    by (rule keeps_audit) simp
  show "keeps (store_ok cfg) (bindE (take_out cfg (sb_batch_id batch) (length encrypted) now)
      (\<lambda>_. bindE (reads tables) (\<lambda>t. bindE (?insert t) (\<lambda>_.
        audit (if prefix ''HTTP_422'' (safe_error_code code) then ''BATCH_QUARANTINED_422''
               else ''BATCH_QUARANTINED_TERMINAL'') (sb_batch_id batch)
          (ErrorCode (safe_error_code code))))))"
    by (rule keepsI, subst wp_bindE, rule wp_mono [OF take_out_room], assumption,
        subst wp_bindE, subst wp_reads, subst wp_bindE, erule wp_mono [OF ins])
      (auto intro: keeps_wp [OF aud])
qed

lemma keeps_quarantine_sample: "keeps (store_ok cfg) (quarantine_sample cfg batch reason)"
  unfolding quarantine_sample_def
proof (rule keeps_if, rule keeps_raise, rule keeps_option, rule keeps_raise, rule keeps_prod,
    rule keeps_option, rule keeps_raise, rule keeps_bindE, rule keeps_clock_now,
    rule keeps_bindE, rule keeps_fresh_uuid, rule keeps_bindE, rule keeps_transaction)
  fix raw encrypted now sample_id
  let ?insert = "\<lambda>t :: queue_tables. if sample_id \<in> sq_sample_id ` set (sample_quarantine t)
    then raise IntegrityError else on_tables (\<lambda>t. t\<lparr>sample_quarantine := sample_quarantine t @
      [\<lparr>sq_sample_id = sample_id, sq_parent_batch_id = sb_batch_id batch,
        sq_encrypted_payload = encrypted, sq_encrypted_size = length encrypted,
        sq_reason = take 64 reason, sq_payload_digest = sha256_hex cfg raw,
        sq_created_at = now, sq_purge_after = now + retention_seconds cfg\<rparr>]\<rparr>)"
  have ins: "wp (?insert (tables s)) (\<lambda>_. store_ok cfg) (\<lambda>_. store_ok cfg) s"
    if "quarantine_room cfg (length encrypted) (tables s)" for s
    using that by (auto simp: wp_if quarantine_room_def room_for_def tables_ok_def rows_ok_def
        within_quota_def queue_bytes_def quarantine_bytes_def)
  have aud: "keeps (store_ok cfg) (audit e r d)" for e r d
    by (rule keeps_audit) simp
  show "keeps (store_ok cfg) (bindE (take_out cfg (sb_batch_id batch) (length encrypted) now)
      (\<lambda>_. bindE (reads tables) (\<lambda>t. bindE (?insert t) (\<lambda>_.
        audit ''SAMPLE_QUARANTINED_413'' sample_id (ParentBatch (sb_batch_id batch))))))"
    by (rule keepsI, subst wp_bindE, rule wp_mono [OF take_out_room], assumption,
        subst wp_bindE, subst wp_reads, subst wp_bindE, erule wp_mono [OF ins])
      (auto intro: keeps_wp [OF aud])
qed (rule keeps_ret)

text \<open>All operations of the class, as one system.\<close>

datatype 's queue_op =
    Enqueue "'s list" "uuid option" "uuid option" int bool
  | NextBatch "seconds option"
  | GetBatch uuid
  | Acknowledge uuid
  | Defer uuid int
  | Split "'s stored_batch"
  | QuarantineBatch "'s stored_batch" string string
  | QuarantineSample "'s stored_batch" string
  | PurgeExpired

fun exec_queue :: "'s queue_config \<Rightarrow> 's queue_op \<Rightarrow> queue_state \<Rightarrow> queue_state" where
  "exec_queue cfg (Enqueue xs b p d c) s = snd (enqueue cfg xs b p d c s)"
| "exec_queue cfg (NextBatch now) s = snd (next_batch cfg now s)"
| "exec_queue cfg (GetBatch b) s = snd (get_batch cfg b s)"
| "exec_queue cfg (Acknowledge b) s = snd (acknowledge b s)"
| "exec_queue cfg (Defer b d) s = snd (defer_batch b d s)"
| "exec_queue cfg (Split b) s = snd (split_batch cfg b s)"
| "exec_queue cfg (QuarantineBatch b c m) s = snd (quarantine_batch cfg b c m s)"
| "exec_queue cfg (QuarantineSample b r) s = snd (quarantine_sample cfg b r s)"
| "exec_queue cfg PurgeExpired s = snd (purge_expired_quarantine s)"

lemmas keeps_queue_ops = keeps_enqueue keeps_next_batch keeps_get_batch keeps_acknowledge
  keeps_defer keeps_split keeps_quarantine_batch keeps_quarantine_sample keeps_purge

interpretation local_queue: op_system "exec_queue cfg" "store_ok cfg"
  for cfg :: "'s queue_config"
proof unfold_locales
  fix s p
  assume "store_ok cfg s"
  then show "store_ok cfg (exec_queue cfg p s)"
    by (cases p) (auto intro: keepsD [OF keeps_queue_ops(1)] keepsD [OF keeps_queue_ops(2)]
      keepsD [OF keeps_queue_ops(3)] keepsD [OF keeps_queue_ops(4)] keepsD [OF keeps_queue_ops(5)]
      keepsD [OF keeps_queue_ops(6)] keepsD [OF keeps_queue_ops(7)] keepsD [OF keeps_queue_ops(8)]
      keepsD [OF keeps_queue_ops(9)])
qed

section \<open>Facts about rows and contents\<close>

definition row_with :: "uuid \<Rightarrow> queued_row \<Rightarrow> queue_tables \<Rightarrow> bool" where
  "row_with b r t \<longleftrightarrow> r \<in> set (queued_batches t) \<and> q_batch_id r = b
     \<and> (\<forall>x\<in>set (queued_batches t). q_batch_id x = b \<longrightarrow> x = r)"

lemma row_of_unique: "row_with b r t \<Longrightarrow> row_of b t = Some r"
proof -
  assume r: "row_with b r t"
  then have "filter (\<lambda>x. q_batch_id x = b) (queued_batches t) \<noteq> []"
    by (auto simp: row_with_def filter_empty_conv)
  then obtain x xs where xs: "filter (\<lambda>x. q_batch_id x = b) (queued_batches t) = x # xs"
    by (cases "filter (\<lambda>x. q_batch_id x = b) (queued_batches t)") auto
  then have "x \<in> {x \<in> set (queued_batches t). q_batch_id x = b}"
    by (metis list.set_intros(1) set_filter)
  with r xs show ?thesis by (auto simp: row_of_def select_where_def first_row_def row_with_def)
qed

lemma row_of_SomeD: "row_of b t = Some r \<Longrightarrow> r \<in> set (queued_batches t) \<and> q_batch_id r = b"
  unfolding row_of_def by (drule first_row_SomeD) simp

definition codec_ok :: "'s queue_config \<Rightarrow> bool" where
  "codec_ok cfg \<longleftrightarrow> (\<forall>xs raw z. encode cfg xs = Some (raw, z) \<longrightarrow> decode cfg z = Some xs)"

lemma make_room_fits:
  "queue_bytes (tables s) + quarantine_bytes (tables s) + n \<le> max_queue_bytes cfg \<Longrightarrow>
   make_room cfg n s = (Inr (), s)"
  by (simp add: make_room_def evict_until.simps [where s = s])

lemma not_evictedD: "x \<in> set (queued_batches (evicted r a t)) \<Longrightarrow> x \<in> set (queued_batches t)"
  by (simp add: evicted_def delete_queued_def)

section \<open>Properties\<close>

text \<open>Property C3. Whatever sequence of queue operations runs, successful or failing, the store stays
  well formed: primary keys unique, split depth between 0 and 3, recorded sizes exact, the queue
  and the quarantine together within \<open>max_queue_bytes\<close> and the quarantine within its own quota.\<close>

theorem queue_invariant:
  "store_ok cfg s \<Longrightarrow> store_ok cfg (fold (exec_queue cfg) ops s)"
  by (rule local_queue.run_good)

definition fifo_evicted :: "string \<Rightarrow> queue_tables \<Rightarrow> queue_tables \<Rightarrow> bool" where
  "fifo_evicted cause t0 t \<longleftrightarrow> rows_ok t
     \<and> subseq (queued_batches t) (queued_batches t0)
     \<and> (\<forall>r\<in>set (queued_batches t0) - set (queued_batches t). \<not> q_critical r
          \<and> (\<forall>x\<in>set (queued_batches t). \<not> q_critical x \<longrightarrow> q_created_at r \<le> q_created_at x))
     \<and> batch_quarantine t = batch_quarantine t0 \<and> sample_quarantine t = sample_quarantine t0
     \<and> (\<exists>rows. local_audit t = local_audit t0 @ rows
          \<and> length (queued_batches t) + length rows = length (queued_batches t0)
          \<and> (\<forall>a\<in>set rows. la_event a = ''QUEUE_FIFO_EVICTION'' \<and> la_details a = Cause cause)
          \<and> la_resource_id ` set rows
              = q_batch_id ` (set (queued_batches t0) - set (queued_batches t)))"

lemma delete_queued_distinct:
  assumes "distinct (map q_batch_id q)" and "r \<in> set q"
  shows "set (delete_where (\<lambda>x. q_batch_id x = q_batch_id r) q) = set q - {r}"
    and "length (delete_where (\<lambda>x. q_batch_id x = q_batch_id r) q) + 1 = length q"
proof -
  have "q_batch_id x = q_batch_id r \<longleftrightarrow> x = r" if "x \<in> set q" for x
    using assms that by (auto simp: distinct_map inj_on_def)
  then show "set (delete_where (\<lambda>x. q_batch_id x = q_batch_id r) q) = set q - {r}" by auto
  have "length (filter (\<lambda>x. q_batch_id x = q_batch_id r) q) = 1"
    using rowcount_key [OF assms] by (simp add: rowcount_def)
  then show "length (delete_where (\<lambda>x. q_batch_id x = q_batch_id r) q) + 1 = length q"
    using sum_length_filter_compl [of "\<lambda>x. q_batch_id x = q_batch_id r" q]
    by (simp add: delete_where_def)
qed

lemma fifo_evicted_step:
  assumes t: "fifo_evicted cause t0 t" and r: "oldest_evictable t = Some r"
    and a: "eviction_row cause r a"
  shows "fifo_evicted cause t0 (evicted r a t)"
proof -
  note old = oldest_evictableD [OF r]
  have d: "distinct (map q_batch_id (queued_batches t))"
    using t by (simp add: fifo_evicted_def rows_ok_def)
  note del = delete_queued_distinct [OF d old(1)]
  let ?q' = "delete_where (\<lambda>x. q_batch_id x = q_batch_id r) (queued_batches t)"
  have r0: "r \<in> set (queued_batches t0)"
    using t old(1) by (auto simp: fifo_evicted_def dest: list_emb_set)
  have diff: "set (queued_batches t0) - set ?q'
      = insert r (set (queued_batches t0) - set (queued_batches t))"
    using r0 old(1) by (auto simp only: del(1))
  have sub: "subseq ?q' (queued_batches t0)"
    using t unfolding fifo_evicted_def delete_where_def
    by (blast intro: subseq_order.trans [OF subseq_filter_left])
  have ok: "rows_ok (evicted r a t)"
    using t by (simp add: fifo_evicted_def evicted_def rows_ok_delete)
  obtain rows where rows: "local_audit t = local_audit t0 @ rows"
      "length (queued_batches t) + length rows = length (queued_batches t0)"
      "\<forall>a\<in>set rows. la_event a = ''QUEUE_FIFO_EVICTION'' \<and> la_details a = Cause cause"
      "la_resource_id ` set rows = q_batch_id ` (set (queued_batches t0) - set (queued_batches t))"
    using t by (auto simp: fifo_evicted_def)
  have "\<exists>rows. local_audit (evicted r a t) = local_audit t0 @ rows
      \<and> length ?q' + length rows = length (queued_batches t0)
      \<and> (\<forall>a\<in>set rows. la_event a = ''QUEUE_FIFO_EVICTION'' \<and> la_details a = Cause cause)
      \<and> la_resource_id ` set rows = q_batch_id ` (set (queued_batches t0) - set ?q')"
    using rows del(2) a
    by (intro exI [where x = "rows @ [a]"]) (auto simp: diff evicted_def eviction_row_def
      simp del: set_delete_where)
  then show ?thesis
    using t ok sub diff old unfolding fifo_evicted_def
    by (auto simp: evicted_def delete_queued_def del(1) simp del: set_delete_where)
qed

text \<open>Property C7. Making room evicts in FIFO order and never touches protected data: the rows that
  remain are a subsequence of the queue, every row that went was not critical and not younger than
  any evictable row that stays, both quarantines are untouched, and exactly one audit row per
  evicted batch names it. On success the new payload fits in the quota.\<close>

theorem make_room_fifo:
  assumes "rows_ok (tables s)" and "make_room cfg n s = (res, s')"
  shows "fifo_evicted ''QUEUE_QUOTA'' (tables s) (tables s')
    \<and> (res = Inr () \<longrightarrow>
        queue_bytes (tables s') + quarantine_bytes (tables s') + n \<le> max_queue_bytes cfg)"
proof -
  have "fifo_evicted ''QUEUE_QUOTA'' (tables s) (tables s)"
    using assms(1) by (simp add: fifo_evicted_def)
  from make_room_rule [where P = "fifo_evicted ''QUEUE_QUOTA'' (tables s)", OF this]
  have "wp (make_room cfg n)
      (\<lambda>_ s'. fifo_evicted ''QUEUE_QUOTA'' (tables s) (tables s')
        \<and> queue_bytes (tables s') + quarantine_bytes (tables s') + n \<le> max_queue_bytes cfg)
      (\<lambda>_ s'. fifo_evicted ''QUEUE_QUOTA'' (tables s) (tables s')) s"
    by (blast intro: fifo_evicted_step)
  with assms(2) show ?thesis by (cases res) (auto simp: wp_def)
qed

lemma insert_queued_row:
  "wp (insert_queued b parent p critical depth now)
     (\<lambda>_ s'. \<forall>x\<in>set (queued_batches (tables s')). q_batch_id x = b \<longrightarrow>
        q_parent_batch_id x = parent \<and> q_payload x = p \<and> q_critical x = critical
        \<and> q_split_depth x = depth \<and> q_attempts x = 0 \<and> q_next_attempt_at x = 0)
     (\<lambda>_ _. True) s"
  by (auto simp: insert_queued_def wp_if)

text \<open>\<open>enqueue\<close> and \<open>get_batch\<close> are inverse: if \<open>enqueue\<close> returns an identifier (the
  given one, if one was given), the batch stored under it decodes to exactly the samples handed in,
  never tried, due at once, with the given parent, depth and protection.\<close>

theorem enqueue_get_batch:
  assumes "codec_ok cfg" and run: "enqueue cfg xs bid parent d c s = (Inr i, s')"
  shows "\<exists>b. get_batch cfg i s' = (Inr (Some b), s') \<and> sb_batch_id b = i \<and> sb_samples b = xs
      \<and> sb_parent_batch_id b = parent \<and> sb_split_depth b = d \<and> sb_attempts b = 0
      \<and> (\<exists>r. row_of i (tables s') = Some r \<and> q_critical r = c \<and> q_next_attempt_at r = 0)
      \<and> (\<forall>j. bid = Some j \<longrightarrow> i = j)"
proof -
  define good where "good = (\<lambda>i z (t :: queue_tables). \<forall>x\<in>set (queued_batches t). q_batch_id x = i \<longrightarrow>
      q_parent_batch_id x = parent \<and> q_payload x = z \<and> q_critical x = c
      \<and> q_split_depth x = d \<and> q_attempts x = 0 \<and> q_next_attempt_at x = 0)"
  have ins: "wp (insert_queued i parent z c d now) (\<lambda>_ s. good i z (tables s)) (\<lambda>_ _. True) s"
    for i z now s unfolding good_def by (rule insert_queued_row)
  have room: "wp (make_room cfg n) (\<lambda>_ _. True) (\<lambda>_ _. True) s" for n s
    by (simp add: wp_def split: prod.splits sum.splits)
  have disk: "keeps (\<lambda>s. good i z (tables s)) (enforce_disk_bound cfg)" for i z
    unfolding enforce_disk_bound_def
    by (intro keeps_rules keeps_evict_until) (auto simp: good_def dest: not_evictedD)
  have "wp (enqueue cfg xs bid parent d c)
      (\<lambda>i s'. \<exists>raw z. encode cfg xs = Some (raw, z) \<and> good i z (tables s')
         \<and> i \<in> q_batch_id ` set (queued_batches (tables s')) \<and> (\<forall>j. bid = Some j \<longrightarrow> i = j))
      (\<lambda>_ _. True) s"
    unfolding enqueue_def
    by (auto simp: wp_if split: option.splits
        intro!: wp_mono [OF room] wp_mono [OF ins] wp_mono [OF keeps_wp [OF disk]])
  from wp_InrD [OF this run] obtain raw z r where
    z: "encode cfg xs = Some (raw, z)" and g: "good i z (tables s')"
    and r: "r \<in> set (queued_batches (tables s'))" "q_batch_id r = i"
    and j: "\<forall>j. bid = Some j \<longrightarrow> i = j" by auto
  then obtain r0 where r0: "row_of i (tables s') = Some r0"
    by (cases "row_of i (tables s')") (auto simp: row_of_def select_where_def filter_empty_conv)
  with g row_of_SomeD [OF r0] assms(1) z j show ?thesis
    by (auto simp: get_batch_def load_row_def stored_of_def eff_defs good_def codec_ok_def)
qed

lemma wp_make_room_fits [simp]:
  "queue_bytes (tables s) + quarantine_bytes (tables s) + n \<le> max_queue_bytes cfg \<Longrightarrow>
   wp (make_room cfg n) Q E s = Q () s"
  by (simp add: wp_def make_room_fits)

lemma queue_bytes_append:
  "queue_bytes (t\<lparr>queued_batches := q @ rs\<rparr>)
     = queue_bytes (t\<lparr>queued_batches := q\<rparr>) + sum_list (map q_payload_size rs)"
  by (simp add: queue_bytes_def)

text \<open>Property C9. Splitting loses nothing where there is room: for a queued batch of two or more samples that was
  split fewer than three times, if both halves can be encoded and decoded again, the queue has room for
  both beside all that it holds, and the two random identifiers are different and unused, \<open>split\<close>
  replaces the parent by two children, in order, whose samples together are the parent's, one level
  deeper, as protected as the parent was, due at once; nothing else in the store changes.\<close>

theorem split_lossless:
  assumes codec: "codec_ok cfg" and row: "row_of (sb_batch_id b) (tables s) = Some r"
    and many: "2 \<le> length (sb_samples b)" and depth: "0 \<le> sb_split_depth b" "sb_split_depth b < 3"
    and e1: "encode cfg (take (length (sb_samples b) div 2) (sb_samples b)) = Some (raw1, p1)"
    and e2: "encode cfg (drop (length (sb_samples b) div 2) (sb_samples b)) = Some (raw2, p2)"
    and new: "w_uuid s (w_ids s) \<noteq> w_uuid s (Suc (w_ids s))"
      "w_uuid s (w_ids s) \<notin> q_batch_id ` set (queued_batches (tables s))"
      "w_uuid s (Suc (w_ids s)) \<notin> q_batch_id ` set (queued_batches (tables s))"
    and room: "queue_bytes (tables s) + quarantine_bytes (tables s) + length p1 + length p2
      \<le> max_queue_bytes cfg"
  shows "\<exists>r1 r2 s'. split_batch cfg b s = (Inr (q_batch_id r1, q_batch_id r2), s')
    \<and> tables s' = (tables s)\<lparr>queued_batches :=
        delete_where (\<lambda>x. q_batch_id x = sb_batch_id b) (queued_batches (tables s)) @ [r1, r2]\<rparr>
    \<and> the (decode cfg (q_payload r1)) @ the (decode cfg (q_payload r2)) = sb_samples b
    \<and> (\<forall>x\<in>{r1, r2}. q_parent_batch_id x = Some (sb_batch_id b) \<and> q_critical x = q_critical r
        \<and> q_split_depth x = sb_split_depth b + 1 \<and> q_attempts x = 0 \<and> q_next_attempt_at x = 0)"
proof -
  let ?n = "length (sb_samples b) div 2"
  have less: "queue_bytes (delete_queued (sb_batch_id b) (tables s)) \<le> queue_bytes (tables s)"
    by (rule queue_bytes_delete)
  have dec: "decode cfg p1 = Some (take ?n (sb_samples b))"
    "decode cfg p2 = Some (drop ?n (sb_samples b))"
    using codec e1 e2 by (auto simp: codec_ok_def)
  have fresh: "w_uuid s k \<notin> q_batch_id ` {r \<in> set (queued_batches (tables s)). q_batch_id r \<noteq> sb_batch_id b}"
    if "k = w_ids s \<or> k = Suc (w_ids s)" for k
    using new that by auto
  let ?row = "\<lambda>k p. \<lparr>q_batch_id = w_uuid s (w_ids s + k), q_parent_batch_id = Some (sb_batch_id b),
    q_payload = p, q_payload_size = length p, q_critical = q_critical r,
    q_split_depth = sb_split_depth b + 1, q_attempts = 0, q_next_attempt_at = 0,
    q_created_at = w_clock s (w_reads s + k)\<rparr>"
  have "wp (split_batch cfg b)
    (\<lambda>res s'. \<exists>r1 r2. res = (q_batch_id r1, q_batch_id r2)
      \<and> tables s' = (tables s)\<lparr>queued_batches :=
          delete_where (\<lambda>x. q_batch_id x = sb_batch_id b) (queued_batches (tables s)) @ [r1, r2]\<rparr>
      \<and> q_payload r1 = p1 \<and> q_payload r2 = p2
      \<and> (\<forall>x\<in>{r1, r2}. q_parent_batch_id x = Some (sb_batch_id b) \<and> q_critical x = q_critical r
          \<and> q_split_depth x = sb_split_depth b + 1 \<and> q_attempts x = 0 \<and> q_next_attempt_at x = 0))
    (\<lambda>_ _. False) s"
    using many depth row e1 e2 new(1) fresh room less
    by (simp add: split_batch_def insert_child_def insert_queued_def delete_queued_def
        queue_bytes_append wp_if)
      (rule exI [where x = "?row 0 p1"], simp, rule exI [where x = "?row 1 p2"], simp)
  then show ?thesis using dec
    by (fastforce simp: wp_def split: prod.splits sum.splits)
qed

text \<open>A failed transaction leaves the tables as they were.\<close>

lemma transaction_rolls_back:
  "transaction m s = (Inl e, s') \<Longrightarrow> tables s' = tables s"
  by (auto simp: transaction_def txn_by_def split: prod.splits sum.splits)

definition only_reads :: "'a qeff \<Rightarrow> bool" where
  "only_reads m \<longleftrightarrow> (\<forall>s. tables (snd (m s)) = tables s)"

definition atomic :: "'a qeff \<Rightarrow> bool" where
  "atomic m \<longleftrightarrow> (\<forall>s e s'. m s = (Inl e, s') \<longrightarrow> tables s' = tables s)"

named_theorems atomic_rules "operations whose failure changes nothing"

lemma atomic_transaction [atomic_rules]: "atomic (transaction m)"
  by (auto simp: atomic_def dest: transaction_rolls_back)

lemma atomic_raise [atomic_rules]: "atomic (raise e)"
  by (simp add: atomic_def raise_def)

lemma atomic_bind_reads [atomic_rules]:
  "only_reads m \<Longrightarrow> (\<And>a. atomic (f a)) \<Longrightarrow> atomic (bindE m f)"
  unfolding atomic_def only_reads_def bindE_def
  by (auto split: prod.splits sum.splits) (metis snd_conv)+

lemma atomic_bind_ret [atomic_rules]: "atomic m \<Longrightarrow> atomic (bindE m (\<lambda>a. ret (f a)))"
  by (auto simp: atomic_def bindE_def ret_def split: prod.splits sum.splits)

lemma atomic_cases [atomic_rules]:
  "atomic m \<Longrightarrow> atomic n \<Longrightarrow> atomic (if c then m else n)"
  "atomic m \<Longrightarrow> (\<And>a. atomic (f a)) \<Longrightarrow> atomic (case x of None \<Rightarrow> m | Some a \<Rightarrow> f a)"
  "(\<And>a b. atomic (g a b)) \<Longrightarrow> atomic (case y of (a, b) \<Rightarrow> g a b)"
  by (simp, cases x, simp_all, cases y, simp)

lemma only_reads_supplies [atomic_rules]: "only_reads clock_now" "only_reads fresh_uuid"
  by (simp_all add: only_reads_def clock_now_def fresh_uuid_def)

text \<open>The operations that move a batch are atomic: when \<open>acknowledge\<close>, \<open>defer\<close>,
  \<open>split\<close>, \<open>quarantine_batch\<close>, \<open>quarantine_sample\<close> or the purge raises, for whatever reason, none
  of the four tables has changed.\<close>

theorem failed_operation_changes_nothing:
  "atomic (acknowledge b) \<and> atomic (defer_batch b d) \<and> atomic (split_batch cfg batch)
   \<and> atomic (quarantine_batch cfg batch code summary) \<and> atomic (quarantine_sample cfg batch reason)
   \<and> atomic purge_expired_quarantine"
  unfolding acknowledge_def defer_batch_def split_batch_def quarantine_batch_def
    quarantine_sample_def purge_expired_quarantine_def Let_def
  by (intro conjI; (rule atomic_rules)+)

section \<open>The properties at concrete inputs\<close>

text \<open>
  An instance of the parameters (samples are bytes, encoded as themselves) and a store that holds
  two batches, one of them protected.
\<close>

definition plain_config :: "nat \<Rightarrow> byte queue_config" where
  "plain_config limit = \<lparr>max_queue_bytes = limit, max_quarantine_bytes = 4, retention_seconds = 86400,
     enforce_physical_quota = False, encode = (\<lambda>xs. Some (xs, xs)), decode = Some,
     protect = Some, sha256_hex = (\<lambda>_. []), disk_bytes = (\<lambda>_. 0), disk_bytes_vacuumed = (\<lambda>_. 0)\<rparr>"

definition sample_row :: "uuid \<Rightarrow> bytes \<Rightarrow> bool \<Rightarrow> queued_row" where
  "sample_row b p critical = \<lparr>q_batch_id = b, q_parent_batch_id = None, q_payload = p,
     q_payload_size = length p, q_critical = critical, q_split_depth = 0, q_attempts = 0,
     q_next_attempt_at = 0, q_created_at = 0\<rparr>"

definition sample_state :: queue_state where
  "sample_state = \<lparr>tables = \<lparr>queued_batches = [sample_row 1 [1, 2] True, sample_row 2 [3, 4] False],
       batch_quarantine = [], sample_quarantine = [], local_audit = []\<rparr>,
     w_clock = int, w_reads = 100, w_uuid = word_of_nat, w_ids = 50\<rparr>"

definition sample_batch :: "byte stored_batch" where
  "sample_batch = \<lparr>sb_batch_id = 2, sb_samples = [3, 4], sb_parent_batch_id = None,
     sb_split_depth = 0, sb_attempts = 0, sb_created_at = 0\<rparr>"

lemmas sample_defs = plain_config_def sample_row_def sample_state_def sample_batch_def

lemma sample_store_ok: "store_ok (plain_config 6) sample_state"
  by (simp add: sample_defs tables_ok_def rows_ok_def within_quota_def queue_bytes_def
      quarantine_bytes_def row_ok_def)

lemma plain_codec_ok: "codec_ok (plain_config n)"
  by (simp add: codec_ok_def plain_config_def)

lemma queue_invariant_witness:
  "store_ok (plain_config 6) (fold (exec_queue (plain_config 6))
     [Enqueue [5, 6, 7] None None 0 False, Split sample_batch, Acknowledge 1] sample_state)"
  by (rule queue_invariant [OF sample_store_ok])

lemma make_room_fifo_witness:
  "fifo_evicted ''QUEUE_QUOTA'' (tables sample_state)
     (tables (snd (make_room (plain_config 6) 3 sample_state)))"
proof -
  have "rows_ok (tables sample_state)" using sample_store_ok by (simp add: tables_ok_def)
  from make_room_fifo [OF this prod.collapse [symmetric]] show ?thesis by blast
qed

lemma enqueue_get_batch_witness:
  "\<exists>i s' b. enqueue (plain_config 8) [5, 6, 7] None None 1 True sample_state = (Inr i, s')
     \<and> get_batch (plain_config 8) i s' = (Inr (Some b), s') \<and> sb_samples b = [5, 6, 7]"
proof -
  have "wp (enqueue (plain_config 8) [5, 6, 7] None None 1 True) (\<lambda>_ _. True) (\<lambda>_ _. False) sample_state"
    by (simp add: enqueue_def insert_queued_def wp_if sample_defs queue_bytes_def quarantine_bytes_def
        enforce_disk_bound_def)
  then obtain i s' where run:
    "enqueue (plain_config 8) [5, 6, 7] None None 1 True sample_state = (Inr i, s')"
    by (auto simp: wp_def split: prod.splits sum.splits)
  from enqueue_get_batch [OF plain_codec_ok run] run show ?thesis by blast
qed

lemma split_lossless_witness:
  "\<exists>r1 r2 s'. split_batch (plain_config 6) sample_batch sample_state
      = (Inr (q_batch_id r1, q_batch_id r2), s')
     \<and> queued_batches (tables s') = [sample_row 1 [1, 2] True, r1, r2]"
proof -
  have row: "row_of (sb_batch_id sample_batch) (tables sample_state) = Some (sample_row 2 [3, 4] False)"
    by (simp add: sample_defs row_of_def select_where_def first_row_def)
  have "encode (plain_config 6) xs = Some (xs, xs)" for xs by (simp add: plain_config_def)
  note enc = this this
  show ?thesis
    using split_lossless [OF plain_codec_ok row _ _ _ enc]
    by (simp add: sample_defs queue_bytes_def quarantine_bytes_def delete_where_def)
      (elim exE conjE, intro exI conjI, assumption, simp)
qed

end
