(* ===== verification/Agent_Dispatch.thy ===== *)
theory Agent_Dispatch
  imports Agent_Queue
begin

text \<open>
  The outcome policy for metric batches, \<open>agent/nexus_agent/dispatcher.py\<close>.

  \<open>BatchDispatcher\<close> is handed a queue, a sender, a diagnostic callback and a random source; the
  record \<open>queue_api\<close> holds the methods of the queue it calls, and its own operations take such a
  record. What it relies on is the locale \<open>batch_queue\<close>; \<open>local_queue_api\<close> is the instance on
  \<open>LocalQueue\<close>, for which the locale is interpreted. The network is a state \<open>'n\<close> with a function
  that answers a request: \<open>Reply\<close>, an \<open>OSError\<close>/\<open>TimeoutError\<close>, or another exception.
\<close>

section \<open>Data\<close>

record http_result =
  status_code :: int
  error_code :: string
  error_summary :: string
  remote_status :: string

datatype send_result = Reply http_result | NetworkError | SenderRaises

datatype dispatch_error = QueueFailed queue_error | SenderFailed

datatype outcome =
    EMPTY | RETRY | ACKNOWLEDGED | ACCEPTED | RETAINED | QUARANTINED | SAMPLE_QUARANTINED
  | SPLIT | NOT_FOUND | REJECTED

datatype reconciled =
    R_ACKNOWLEDGED | R_NOT_FOUND | R_RETAINED | R_RETAINED_DLQ | R_AWAITING_REUPLOAD
  | R_RETAINED_EXHAUSTED | R_PURGED | R_UNKNOWN

record dispatch_result =
  outcome :: outcome
  batch_id :: "uuid option"
  child_batch_ids :: "uuid list"

record 's body =
  body_batch_id :: uuid
  body_payload_digest :: string
  body_samples :: "'s list"

datatype diagnostic =
    Batch_Quarantined_422 uuid string nat
  | Batch_Terminal_Rejection uuid string
  | Sample_Quarantined_413 uuid int
  | Batch_Split_Limit_Reached uuid int

text \<open>The methods of the queue that the dispatcher calls.\<close>

record ('q, 's) queue_api =
  api_next :: "('q, queue_error, 's stored_batch option) eff"
  api_get :: "uuid \<Rightarrow> ('q, queue_error, 's stored_batch option) eff"
  api_acknowledge :: "uuid \<Rightarrow> ('q, queue_error, bool) eff"
  api_defer :: "uuid \<Rightarrow> int \<Rightarrow> ('q, queue_error, unit) eff"
  api_split :: "'s stored_batch \<Rightarrow> ('q, queue_error, uuid \<times> uuid) eff"
  api_quarantine_batch :: "'s stored_batch \<Rightarrow> string \<Rightarrow> string \<Rightarrow> ('q, queue_error, unit) eff"
  api_quarantine_sample :: "'s stored_batch \<Rightarrow> string \<Rightarrow> ('q, queue_error, uuid) eff"

record ('q, 's, 'n) dispatcher =
  d_queue :: "('q, 's) queue_api"
  d_send :: "'s body \<Rightarrow> 'n \<Rightarrow> send_result \<times> 'n"
  d_reupload :: "(uuid \<Rightarrow> 's body \<Rightarrow> 'n \<Rightarrow> send_result \<times> 'n) option"
  d_digest :: "'s list \<Rightarrow> string"
  d_poll_delay :: int

text \<open>
  What a step of the dispatcher acts on: the queue, the network, the random draws (the k-th value
  of \<open>random()\<close> is \<open>w_random k / 2 ^ 53\<close>) and the diagnostics emitted so far.
\<close>

record ('q, 'n) world =
  w_queue :: 'q
  w_net :: 'n
  w_random :: "nat \<Rightarrow> nat"
  w_draws :: nat
  w_diagnostics :: "diagnostic list"

type_synonym ('q, 'n, 'a) deff = "(('q, 'n) world, dispatch_error, 'a) eff"

definition on_queue :: "('q, queue_error, 'a) eff \<Rightarrow> ('q, 'n, 'a) deff" where
  "on_queue m w = (case m (w_queue w) of
     (Inl e, q) \<Rightarrow> (Inl (QueueFailed e), w\<lparr>w_queue := q\<rparr>)
   | (Inr a, q) \<Rightarrow> (Inr a, w\<lparr>w_queue := q\<rparr>))"

definition on_net :: "('n \<Rightarrow> send_result \<times> 'n) \<Rightarrow> ('q, 'n, send_result) deff" where
  "on_net f w = (case f (w_net w) of (r, n) \<Rightarrow> (Inr r, w\<lparr>w_net := n\<rparr>))"

definition draw :: "('q, 'n, nat) deff" where
  "draw w = (Inr (w_random w (w_draws w)), w\<lparr>w_draws := Suc (w_draws w)\<rparr>)"

definition diagnose :: "diagnostic \<Rightarrow> ('q, 'n, unit) deff" where
  "diagnose d = writes (\<lambda>w. w\<lparr>w_diagnostics := w_diagnostics w @ [d]\<rparr>)"

lemma wp_on_queue [simp]:
  "wp (on_queue m) Q E w = wp m (\<lambda>a q. Q a (w\<lparr>w_queue := q\<rparr>))
     (\<lambda>e q. E (QueueFailed e) (w\<lparr>w_queue := q\<rparr>)) (w_queue w)"
  by (simp add: wp_def on_queue_def split: prod.splits sum.splits)

lemma wp_on_net [simp]:
  "wp (on_net f) Q E w = (case f (w_net w) of (r, n) \<Rightarrow> Q r (w\<lparr>w_net := n\<rparr>))"
  by (simp add: wp_def on_net_def split: prod.splits)

lemma wp_draw [simp]: "wp draw Q E w = Q (w_random w (w_draws w)) (w\<lparr>w_draws := Suc (w_draws w)\<rparr>)"
  by (simp add: wp_def draw_def)

lemma wp_diagnose [simp]:
  "wp (diagnose d) Q E w = Q () (w\<lparr>w_diagnostics := w_diagnostics w @ [d]\<rparr>)"
  by (simp add: diagnose_def)

section \<open>Backoff\<close>

text \<open>
  \<open>int(base * 0.25 * random())\<close>. \<open>base * 0.25\<close> is exact; the product with \<open>n / 2 ^ 53\<close> is rounded
  to 53 significant bits, ties to even, then truncated.
\<close>

fun bit_length :: "nat \<Rightarrow> nat" where
  "bit_length n = (if n = 0 then 0 else Suc (bit_length (n div 2)))"

declare bit_length.simps [simp del]

definition round_even :: "nat \<Rightarrow> nat \<Rightarrow> nat" where
  "round_even e x = (let q = x div 2 ^ e; r = x mod 2 ^ e in
     (if 2 * r < 2 ^ e \<or> (2 * r = 2 ^ e \<and> even q) then q else q + 1) * 2 ^ e)"

definition float_round :: "nat \<Rightarrow> nat" where
  "float_round x = (if x < 2 ^ 53 then x else round_even (bit_length x - 53) x)"

definition backoff_base :: "int \<Rightarrow> nat" where
  "backoff_base attempts = min (30 * 2 ^ nat (min attempts 6)) 1800"

definition jitter :: "nat \<Rightarrow> nat \<Rightarrow> nat" where
  "jitter base n = float_round (base * n) div 2 ^ 55"

definition defer_backoff ::
  "('q, 's) queue_api \<Rightarrow> 's stored_batch \<Rightarrow> ('q, 'n, unit) deff" where
  "defer_backoff q batch =
     (let base = backoff_base (sb_attempts batch) in
      bindE draw (\<lambda>n. on_queue (api_defer q (sb_batch_id batch) (int (base + jitter base n)))))"

section \<open>Operations\<close>

definition body_of :: "('q, 's, 'n) dispatcher \<Rightarrow> 's stored_batch \<Rightarrow> 's body" where
  "body_of d batch = \<lparr>body_batch_id = sb_batch_id batch,
     body_payload_digest = d_digest d (sb_samples batch), body_samples = sb_samples batch\<rparr>"

definition poll_delay :: "('q, 's, 'n) dispatcher \<Rightarrow> int" where
  "poll_delay d = max 1 (d_poll_delay d)"

definition done_with :: "outcome \<Rightarrow> uuid \<Rightarrow> ('q, 'n, dispatch_result) deff" where
  "done_with out b = ret \<lparr>outcome = out, batch_id = Some b, child_batch_ids = []\<rparr>"

fun digit_chars :: "nat \<Rightarrow> string" where
  "digit_chars n = (if n < 10 then [char_of (48 + n)]
     else digit_chars (n div 10) @ [char_of (48 + n mod 10)])"

declare digit_chars.simps [simp del]

definition py_str_int :: "int \<Rightarrow> string" where
  "py_str_int i = (if i < 0 then ''-'' @ digit_chars (nat (- i)) else digit_chars (nat i))"

definition or_else :: "string \<Rightarrow> string \<Rightarrow> string" where
  "or_else s fallback = (if s = [] then fallback else s)"

definition handle_413 ::
  "('q, 's, 'n) dispatcher \<Rightarrow> 's stored_batch \<Rightarrow> ('q, 'n, dispatch_result) deff" where
  "handle_413 d batch = (let q = d_queue d; b = sb_batch_id batch in
     if length (sb_samples batch) = 1 then
       bindE (on_queue (api_quarantine_sample q batch ''HTTP_413_SINGLE_SAMPLE_TOO_LARGE'')) (\<lambda>_.
       bindE (diagnose (Sample_Quarantined_413 b (sb_split_depth batch))) (\<lambda>_.
         done_with SAMPLE_QUARANTINED b))
     else if sb_split_depth batch \<ge> 3 then
       bindE (on_queue (api_quarantine_batch q batch ''HTTP_413_SPLIT_LIMIT''
         ''batch remains too large after three split levels'')) (\<lambda>_.
       bindE (diagnose (Batch_Split_Limit_Reached b (sb_split_depth batch))) (\<lambda>_.
         done_with QUARANTINED b))
     else bindE (on_queue (api_split q batch)) (\<lambda>(c1, c2).
       ret \<lparr>outcome = SPLIT, batch_id = Some b, child_batch_ids = [c1, c2]\<rparr>))"

definition handle_reply ::
  "('q, 's, 'n) dispatcher \<Rightarrow> 's stored_batch \<Rightarrow> http_result \<Rightarrow> ('q, 'n, dispatch_result) deff" where
  "handle_reply d batch result = (let q = d_queue d; b = sb_batch_id batch in
     if status_code result = 200 then
       if remote_status result \<in> {'''', ''PROCESSED''} then
         bindE (on_queue (api_acknowledge q b)) (\<lambda>_. done_with ACKNOWLEDGED b)
       else if remote_status result \<in> {''RECEIVED'', ''PROCESSING''} then
         bindE (on_queue (api_defer q b (poll_delay d))) (\<lambda>_. done_with ACCEPTED b)
       else bindE (on_queue (api_defer q b (poll_delay d * 2))) (\<lambda>_. done_with RETAINED b)
     else if status_code result = 202 then
       bindE (on_queue (api_defer q b (poll_delay d))) (\<lambda>_. done_with ACCEPTED b)
     else if status_code result = 413 then handle_413 d batch
     else if status_code result = 422 then
       let code = normalize_code ''HTTP_422_SCHEMA_REJECTED'' (error_code result) in
       bindE (on_queue (api_quarantine_batch q batch code
         (or_else (error_summary result) ''schema validation rejected''))) (\<lambda>_.
       bindE (diagnose (Batch_Quarantined_422 b code (length (sb_samples batch)))) (\<lambda>_.
         done_with QUARANTINED b))
     else if status_code result = 0 \<or> status_code result = 429 \<or> status_code result \<ge> 500 then
       bindE (defer_backoff q batch) (\<lambda>_. done_with RETRY b)
     else
       let code = normalize_code (''HTTP_'' @ py_str_int (status_code result) @ ''_TERMINAL'')
         (error_code result) in
       bindE (on_queue (api_quarantine_batch q batch code
         (or_else (error_summary result) ''terminal client rejection''))) (\<lambda>_.
       bindE (diagnose (Batch_Terminal_Rejection b code)) (\<lambda>_.
         done_with QUARANTINED b)))"

definition dispatch_once :: "('q, 's, 'n) dispatcher \<Rightarrow> ('q, 'n, dispatch_result) deff" where
  "dispatch_once d =
     bindE (on_queue (api_next (d_queue d))) (\<lambda>batch. case batch of
       None \<Rightarrow> ret \<lparr>outcome = EMPTY, batch_id = None, child_batch_ids = []\<rparr>
     | Some batch \<Rightarrow>
         bindE (on_net (d_send d (body_of d batch))) (\<lambda>answer. case answer of
           NetworkError \<Rightarrow> bindE (defer_backoff (d_queue d) batch)
             (\<lambda>_. done_with RETRY (sb_batch_id batch))
         | SenderRaises \<Rightarrow> raise SenderFailed
         | Reply result \<Rightarrow> handle_reply d batch result))"

definition reconcile_status ::
  "('q, 's, 'n) dispatcher \<Rightarrow> uuid \<Rightarrow> string \<Rightarrow> ('q, 'n, reconciled) deff" where
  "reconcile_status d b remote =
     (let q = d_queue d; normalized = py_upper (py_strip remote) in
      if normalized = ''PROCESSED'' then
        bindE (on_queue (api_acknowledge q b)) (\<lambda>acknowledged.
          ret (if acknowledged then R_ACKNOWLEDGED else R_NOT_FOUND))
      else if normalized \<in> {''RECEIVED'', ''PROCESSING''} then
        bindE (on_queue (api_defer q b (poll_delay d))) (\<lambda>_. ret R_RETAINED)
      else if normalized = ''DLQ'' then
        bindE (on_queue (api_defer q b (poll_delay d * 2))) (\<lambda>_. ret R_RETAINED_DLQ)
      else if normalized = ''AWAITING_REUPLOAD'' then
        bindE (on_queue (api_defer q b (poll_delay d))) (\<lambda>_. ret R_AWAITING_REUPLOAD)
      else if normalized = ''DLQ_EXHAUSTED'' then
        bindE (on_queue (api_defer q b (poll_delay d * 4))) (\<lambda>_. ret R_RETAINED_EXHAUSTED)
      else if normalized = ''PURGE_LOCAL'' then
        bindE (on_queue (api_acknowledge q b)) (\<lambda>acknowledged.
          ret (if acknowledged then R_PURGED else R_NOT_FOUND))
      else ret R_UNKNOWN)"

text \<open>The mapping from identifiers to statuses is read in its order.\<close>

fun reconcile_statuses ::
  "('q, 's, 'n) dispatcher \<Rightarrow> (uuid \<times> string) list \<Rightarrow> ('q, 'n, (uuid \<times> reconciled) list) deff" where
  "reconcile_statuses d [] = ret []"
| "reconcile_statuses d ((b, status) # rest) =
     bindE (reconcile_status d b status) (\<lambda>r.
     bindE (reconcile_statuses d rest) (\<lambda>rs. ret ((b, r) # rs)))"

definition reupload_batch :: "('q, 's, 'n) dispatcher \<Rightarrow> uuid \<Rightarrow> ('q, 'n, dispatch_result) deff" where
  "reupload_batch d b =
     bindE (on_queue (api_get (d_queue d) b)) (\<lambda>batch. case batch of
       None \<Rightarrow> done_with NOT_FOUND b
     | Some batch \<Rightarrow>
         bindE (on_net (case d_reupload d of
             Some f \<Rightarrow> f b (body_of d batch) | None \<Rightarrow> d_send d (body_of d batch))) (\<lambda>answer.
         case answer of
           NetworkError \<Rightarrow> bindE (defer_backoff (d_queue d) batch) (\<lambda>_. done_with RETRY b)
         | SenderRaises \<Rightarrow> raise SenderFailed
         | Reply result \<Rightarrow>
             if status_code result \<in> {200, 202} then
               bindE (on_queue (api_defer (d_queue d) b (poll_delay d))) (\<lambda>_. done_with ACCEPTED b)
             else if status_code result \<in> {0, 429} \<or> status_code result \<ge> 500 then
               bindE (defer_backoff (d_queue d) batch) (\<lambda>_. done_with RETRY b)
             else done_with REJECTED b))"

definition local_queue_api :: "'s queue_config \<Rightarrow> (queue_state, 's) queue_api" where
  "local_queue_api cfg = \<lparr>api_next = next_batch cfg None, api_get = get_batch cfg,
     api_acknowledge = acknowledge, api_defer = defer_batch, api_split = split_batch cfg,
     api_quarantine_batch = quarantine_batch cfg, api_quarantine_sample = quarantine_sample cfg\<rparr>"

section \<open>What the dispatcher relies on\<close>

text \<open>
  A queue holds batches under their identifiers. Only the operation that names a batch takes it
  out; any other batch that goes is one the queue reports as dropped. A batch quarantined is in
  quarantine, the children of a split are held unless dropped, and a failure removes nothing.
\<close>

locale batch_queue =
  fixes q :: "('q, 's) queue_api"
    and held :: "'q \<Rightarrow> uuid set" and dropped :: "'q \<Rightarrow> uuid set" and quarantined :: "'q \<Rightarrow> uuid set"
  assumes next_law:
      "wp (api_next q) (\<lambda>r s'. held s' = held s) (\<lambda>_ s'. held s' = held s) s"
    and acknowledge_law:
      "wp (api_acknowledge q b) (\<lambda>_ s'. held s - {b} \<subseteq> held s') (\<lambda>_ s'. held s' = held s) s"
    and defer_law:
      "wp (api_defer q b n) (\<lambda>_ s'. held s' = held s) (\<lambda>_ s'. held s' = held s) s"
    and split_law:
      "wp (api_split q x)
         (\<lambda>(c1, c2) s'. held s - {sb_batch_id x} \<union> {c1, c2} \<subseteq> held s' \<union> dropped s')
         (\<lambda>_ s'. held s' = held s) s"
    and quarantine_batch_law:
      "wp (api_quarantine_batch q x code summary)
         (\<lambda>_ s'. held s - {sb_batch_id x} \<subseteq> held s' \<union> dropped s' \<and> sb_batch_id x \<in> quarantined s')
         (\<lambda>_ s'. held s' = held s) s"
    and quarantine_sample_law:
      "wp (api_quarantine_sample q x reason)
         (\<lambda>_ s'. held s - {sb_batch_id x} \<subseteq> held s' \<union> dropped s' \<and> sb_batch_id x \<in> quarantined s')
         (\<lambda>_ s'. held s' = held s) s"

text \<open>What may have become of a batch that was in the queue before a step.\<close>

definition confirmed :: "('q, 's, 'n) dispatcher \<Rightarrow> 'n \<Rightarrow> uuid \<Rightarrow> bool" where
  "confirmed d net b \<longleftrightarrow> (\<exists>batch r. sb_batch_id batch = b
     \<and> fst (d_send d (body_of d batch) net) = Reply r
     \<and> status_code r = 200 \<and> remote_status r \<in> {'''', ''PROCESSED''})"

definition accounted ::
  "('q, 's, 'n) dispatcher \<Rightarrow> ('q \<Rightarrow> uuid set) \<Rightarrow> ('q \<Rightarrow> uuid set) \<Rightarrow> ('q \<Rightarrow> uuid set)
   \<Rightarrow> 'n \<Rightarrow> dispatch_result \<Rightarrow> 'q \<Rightarrow> uuid \<Rightarrow> bool" where
  "accounted d held dropped quarantined net r s' b \<longleftrightarrow>
     b \<in> held s' \<or> b \<in> dropped s' \<or>
     (batch_id r = Some b \<and>
       (case outcome r of
          ACKNOWLEDGED \<Rightarrow> confirmed d net b
        | QUARANTINED \<Rightarrow> b \<in> quarantined s'
        | SAMPLE_QUARANTINED \<Rightarrow> b \<in> quarantined s'
        | SPLIT \<Rightarrow> length (child_batch_ids r) = 2 \<and> set (child_batch_ids r) \<subseteq> held s' \<union> dropped s'
        | _ \<Rightarrow> False))"

lemma accounted_held: "b \<in> held s' \<Longrightarrow> accounted d held dropped quarantined net r s' b"
  by (simp add: accounted_def)

context batch_queue
begin

lemma defer_backoff_keeps:
  "wp (defer_backoff q batch) (\<lambda>_ w'. held (w_queue w') = held (w_queue w) \<and> w_net w' = w_net w)
     (\<lambda>_ w'. held (w_queue w') = held (w_queue w)) w"
  by (auto simp: defer_backoff_def Let_def intro!: wp_mono [OF defer_law])

lemma dispatch_accounts:
  assumes "d_queue d = q"
  shows "wp (dispatch_once d)
    (\<lambda>r w'. \<forall>b\<in>held (w_queue w). accounted d held dropped quarantined (w_net w) r (w_queue w') b)
    (\<lambda>_ w'. held (w_queue w') = held (w_queue w)) w"
proof -
  note laws = wp_mono [OF acknowledge_law] wp_mono [OF defer_law] wp_mono [OF split_law]
    wp_mono [OF quarantine_batch_law] wp_mono [OF quarantine_sample_law]
    wp_mono [OF defer_backoff_keeps]
  have 413: "wp (handle_413 d batch)
      (\<lambda>r w'. \<forall>b\<in>held (w_queue w). accounted d held dropped quarantined net r (w_queue w') b)
      (\<lambda>_ w'. held (w_queue w') = held (w_queue w)) w" for batch w net
    by (auto simp: handle_413_def Let_def wp_if done_with_def accounted_def assms intro!: laws)
  have reply: "wp (handle_reply d batch result)
      (\<lambda>r w'. \<forall>b\<in>held (w_queue w). accounted d held dropped quarantined net r (w_queue w') b)
      (\<lambda>_ w'. held (w_queue w') = held (w_queue w)) w"
    if "fst (d_send d (body_of d batch) net) = Reply result" for batch w result net
    using that unfolding handle_reply_def Let_def
    by (auto simp: wp_if done_with_def accounted_def assms confirmed_def
          intro!: laws wp_mono [OF 413 [where net = net]])
  show ?thesis
    unfolding dispatch_once_def
    by (auto simp: assms done_with_def accounted_held split: option.splits send_result.splits prod.splits
        intro!: wp_mono [OF next_law] laws wp_mono [OF reply [where net = "w_net w"]])
qed

end

section \<open>The local queue keeps the contract\<close>

definition held_ids :: "queue_tables \<Rightarrow> uuid set" where
  "held_ids t = q_batch_id ` set (queued_batches t)"

definition dropped_ids :: "queue_tables \<Rightarrow> uuid set" where
  "dropped_ids t =
     la_resource_id ` {a \<in> set (local_audit t). la_event a = ''QUEUE_FIFO_EVICTION''}"

definition quarantined_ids :: "queue_tables \<Rightarrow> uuid set" where
  "quarantined_ids t =
     bq_batch_id ` set (batch_quarantine t) \<union> sq_parent_batch_id ` set (sample_quarantine t)"

definition kept :: "uuid \<Rightarrow> queue_tables \<Rightarrow> bool" where
  "kept i t \<longleftrightarrow> i \<in> held_ids t \<or> i \<in> dropped_ids t"

lemma keeps_audit_append:
  "(\<And>t a. P t \<Longrightarrow> P (t\<lparr>local_audit := local_audit t @ [a]\<rparr>)) \<Longrightarrow>
   keeps (\<lambda>s. P (tables s)) (audit e r d)"
  unfolding audit_def by (intro keeps_rules) auto

lemma kept_audit: "kept i t \<Longrightarrow> kept i (t\<lparr>local_audit := local_audit t @ [a]\<rparr>)"
  by (auto simp: kept_def held_ids_def dropped_ids_def)

lemma kept_delete: "kept i t \<Longrightarrow> i \<noteq> b \<Longrightarrow> kept i (delete_queued b t)"
  by (auto simp: kept_def held_ids_def dropped_ids_def delete_queued_def)

lemma kept_evicted: "kept i t \<Longrightarrow> eviction_row cause r a \<Longrightarrow> kept i (evicted r a t)"
  by (cases "i = q_batch_id r")
    (auto simp: kept_def held_ids_def dropped_ids_def delete_queued_def evicted_def
      eviction_row_def image_iff)

lemma kept_other:
  "kept i (t\<lparr>batch_quarantine := x\<rparr>) = kept i t" "kept i (t\<lparr>sample_quarantine := y\<rparr>) = kept i t"
  "kept i t \<Longrightarrow> kept i (t\<lparr>queued_batches := queued_batches t @ rows\<rparr>)"
  by (auto simp: kept_def held_ids_def dropped_ids_def)

lemma keeps_kept_room: "keeps (\<lambda>s. kept i (tables s)) (make_room cfg n)"
  by (rule keepsI) (rule wp_mono [OF make_room_rule [where P = "kept i"]], auto intro: kept_evicted)

lemma keeps_kept_take_out:
  "i \<noteq> b \<Longrightarrow> keeps (\<lambda>s. kept i (tables s)) (take_out cfg b n now)"
  unfolding take_out_def purge_expired_def audit_expired_def ensure_quarantine_room_def
  by (rule keeps_kept_room keeps_audit_append keeps_rules kept_audit kept_delete
      | assumption | simp add: kept_other)+

lemma keeps_kept_insert: "keeps (\<lambda>s. kept i (tables s)) (insert_child cfg batch c j p)"
  unfolding insert_child_def insert_queued_def
  by (rule keeps_kept_room keeps_rules kept_other(3) | assumption)+

lemma keeps_kept_split:
  "i \<noteq> sb_batch_id x \<Longrightarrow> keeps (\<lambda>s. kept i (tables s)) (split_batch cfg x)"
  unfolding split_batch_def
  by (rule keeps_kept_insert keeps_rules kept_delete | assumption)+

lemma keeps_kept_quarantine_batch:
  "i \<noteq> sb_batch_id x \<Longrightarrow> keeps (\<lambda>s. kept i (tables s)) (quarantine_batch cfg x code summary)"
  unfolding quarantine_batch_def
  by (rule keeps_kept_take_out keeps_audit_append keeps_rules kept_audit
      | assumption | simp add: kept_other)+

lemma keeps_kept_quarantine_sample:
  "i \<noteq> sb_batch_id x \<Longrightarrow> keeps (\<lambda>s. kept i (tables s)) (quarantine_sample cfg x reason)"
  unfolding quarantine_sample_def
  by (rule keeps_kept_take_out keeps_audit_append keeps_rules kept_audit
      | assumption | simp add: kept_other)+

lemma law_of_atomic:
  assumes "atomic m" and "\<And>i. i \<noteq> b \<Longrightarrow> keeps (\<lambda>s. kept i (tables s)) m"
    and "wp m Q (\<lambda>_ _. True) s"
  shows "wp m (\<lambda>a s'. held_ids (tables s) - {b} \<subseteq> held_ids (tables s') \<union> dropped_ids (tables s')
      \<and> Q a s')
    (\<lambda>_ s'. held_ids (tables s') = held_ids (tables s)) s"
proof (cases "m s")
  case (Pair r s')
  show ?thesis
  proof (cases r)
    case (Inl e)
    with Pair assms(1) show ?thesis by (auto simp: wp_def atomic_def)
  next
    case (Inr a)
    have "kept i (tables s')" if "i \<in> held_ids (tables s)" "i \<noteq> b" for i
      using keepsD [OF assms(2) [OF that(2)], of s] that(1) Pair by (simp add: kept_def)
    with Pair Inr assms(3) show ?thesis by (auto simp: wp_def kept_def)
  qed
qed

lemma wp_True: "wp m (\<lambda>_ _. True) (\<lambda>_ _. True) s"
  by (simp add: wp_def split: prod.splits sum.splits)

lemma insert_child_kept: "wp (insert_child cfg x c j p) (\<lambda>_ s'. kept j (tables s')) (\<lambda>_ _. True) s"
  by (simp add: insert_child_def, rule wp_mono [OF wp_True])
    (auto simp: insert_queued_def wp_if kept_def held_ids_def)

lemma split_children_kept:
  "wp (split_batch cfg x) (\<lambda>(c1, c2) s'. kept c1 (tables s') \<and> kept c2 (tables s')) (\<lambda>_ _. True) s"
  by (auto simp: split_batch_def wp_if Let_def split: option.splits)
    (rule wp_mono [OF insert_child_kept],
      erule wp_mono [OF wp_conj [OF insert_child_kept keeps_wp [OF keeps_kept_insert]]], simp_all)

lemma quarantine_batch_ids:
  "wp (quarantine_batch cfg x code summary)
     (\<lambda>_ s'. sb_batch_id x \<in> quarantined_ids (tables s')) (\<lambda>_ _. True) s"
  by (simp add: quarantine_batch_def Let_def split: option.splits;
      intro conjI allI impI; rule wp_mono [OF wp_True])
    (auto simp: audit_def wp_if quarantined_ids_def)

lemma quarantine_sample_ids:
  "wp (quarantine_sample cfg x reason)
     (\<lambda>_ s'. sb_batch_id x \<in> quarantined_ids (tables s')) (\<lambda>_ _. True) s"
  by (simp add: quarantine_sample_def wp_if Let_def split: option.splits; intro allI impI;
      rule wp_mono [OF wp_True])
    (auto simp: audit_def wp_if quarantined_ids_def)

lemma load_row_tables: "wp (load_row cfg row) (\<lambda>_ s'. s' = s) (\<lambda>_ s'. s' = s) s"
  by (simp add: load_row_def split: option.splits sum.splits)

lemma held_defer: "held_ids (defer_row b at t) = held_ids t"
proof -
  have "map q_batch_id (queued_batches (defer_row b at t)) = map q_batch_id (queued_batches t)"
    by (simp add: defer_row_def map_update_where)
  then have "set (map q_batch_id (queued_batches (defer_row b at t)))
      = set (map q_batch_id (queued_batches t))" by simp
  then show ?thesis by (simp add: held_ids_def)
qed

interpretation local_batches: batch_queue "local_queue_api cfg"
    "\<lambda>s. held_ids (tables s)" "\<lambda>s. dropped_ids (tables s)" "\<lambda>s. quarantined_ids (tables s)"
  for cfg :: "'s queue_config"
proof (unfold_locales, goal_cases)
  case (1 s)
  show ?case
    by (auto simp: local_queue_api_def next_batch_def intro!: wp_mono [OF load_row_tables])
next
  case (2 b s)
  show ?case
    by (auto simp: local_queue_api_def acknowledge_def held_ids_def delete_queued_def)
next
  case (3 b n s)
  show ?case
    by (auto simp: local_queue_api_def defer_batch_def wp_if held_defer)
next
  case (4 x s)
  have "atomic (split_batch cfg x)" using failed_operation_changes_nothing by blast
  from law_of_atomic [OF this keeps_kept_split split_children_kept] show ?case
    unfolding local_queue_api_def queue_api.simps by (rule wp_mono) (auto simp: kept_def)
next
  case (5 x code summary s)
  have "atomic (quarantine_batch cfg x code summary)" using failed_operation_changes_nothing by blast
  from law_of_atomic [OF this keeps_kept_quarantine_batch quarantine_batch_ids] show ?case
    unfolding local_queue_api_def queue_api.simps .
next
  case (6 x reason s)
  have "atomic (quarantine_sample cfg x reason)" using failed_operation_changes_nothing by blast
  from law_of_atomic [OF this keeps_kept_quarantine_sample quarantine_sample_ids] show ?case
    unfolding local_queue_api_def queue_api.simps .
qed

section \<open>Facts about the backoff\<close>

lemma bit_length_bounds: "n < 2 ^ bit_length n"
proof (induction n rule: bit_length.induct)
  case (1 n)
  show ?case
  proof (cases "n = 0")
    case False
    then have "n div 2 < 2 ^ bit_length (n div 2)" using 1 by simp
    with False show ?thesis by (subst bit_length.simps) auto
  qed simp
qed

lemma bit_length_le: "n < 2 ^ k \<Longrightarrow> bit_length n \<le> k"
proof (induction n arbitrary: k rule: bit_length.induct)
  case (1 n)
  show ?case
  proof (cases "n = 0")
    case True
    then show ?thesis by (subst bit_length.simps) simp
  next
    case False
    with "1.prems" obtain j where k: "k = Suc j" by (cases k) auto
    with "1.prems" have "n div 2 < 2 ^ j" by auto
    with "1.IH" False k show ?thesis by (subst bit_length.simps) auto
  qed
qed

text \<open>Rounding does not pass a bound that is itself a multiple of the rounding unit.\<close>

lemma round_even_le:
  assumes "x \<le> m * 2 ^ e"
  shows "round_even e x \<le> m * 2 ^ e"
proof -
  define q r where "q = x div 2 ^ e" and "r = x mod 2 ^ e"
  have x: "x = q * 2 ^ e + r" unfolding q_def r_def by (rule div_mult_mod_eq [symmetric])
  have "q \<le> m * 2 ^ e div 2 ^ e" using assms unfolding q_def by (rule div_le_mono)
  then have qm: "q \<le> m" by simp
  show ?thesis
  proof (cases "2 * r < 2 ^ e \<or> (2 * r = 2 ^ e \<and> even q)")
    case True
    with qm show ?thesis by (simp add: round_even_def Let_def q_def r_def)
  next
    case False
    then have "0 < r" by (cases "r = 0") auto
    with assms x have "q * 2 ^ e < m * 2 ^ e" by linarith
    then have "q + 1 \<le> m" by simp
    then have "(q + 1) * 2 ^ e \<le> m * 2 ^ e" by (rule mult_le_mono1)
    with False show ?thesis
      using \<open>q + 1 \<le> m\<close> unfolding round_even_def Let_def q_def [symmetric] r_def [symmetric] by auto
  qed
qed

lemma jitter_le:
  assumes "n < 2 ^ 53" and "base < 2 ^ 11"
  shows "4 * jitter base n \<le> base"
proof -
  have le: "base * n \<le> base * 2 ^ 53" using assms(1) by simp
  have "float_round (base * n) \<le> base * 2 ^ 53"
  proof (cases "base * n < 2 ^ 53")
    case True
    then show ?thesis using le by (simp add: float_round_def)
  next
    case False
    define e where "e = bit_length (base * n) - 53"
    have "base * n < 2 ^ 11 * 2 ^ 53"
      using assms by (intro mult_strict_mono) auto
    then have "bit_length (base * n) \<le> 64"
      by (intro bit_length_le) (simp flip: power_add)
    then have e: "e \<le> 53" by (simp add: e_def)
    then have "base * 2 ^ 53 = (base * 2 ^ (53 - e)) * 2 ^ e"
      by (simp flip: power_add)
    with le have "round_even e (base * n) \<le> base * 2 ^ 53"
      by (metis round_even_le)
    with False show ?thesis by (simp add: float_round_def e_def)
  qed
  then have "jitter base n \<le> base * 2 ^ 53 div 2 ^ 55"
    by (simp add: jitter_def div_le_mono)
  also have "\<dots> = base div 4" by (simp add: div_mult2_eq [symmetric])
  finally show ?thesis by linarith
qed

lemma backoff_base_bounds: "0 < backoff_base a \<and> backoff_base a \<le> 1800"
  by (simp add: backoff_base_def)

section \<open>Properties\<close>

text \<open>The backoff: at least 30 seconds, doubling with every attempt up to the ceiling of 1800 seconds
  that the sixth attempt reaches, and the jitter adds at most a quarter, whatever the random source
  draws, with the floating-point rounding of the product included.\<close>

theorem backoff_bounds:
  assumes "0 \<le> attempts" and "n < 2 ^ 53"
  shows "backoff_base attempts = (if attempts < 6 then 30 * 2 ^ nat attempts else 1800)
    \<and> 30 \<le> backoff_base attempts \<and> backoff_base attempts \<le> 1800
    \<and> 4 * jitter (backoff_base attempts) n \<le> backoff_base attempts"
proof -
  have small: "30 * 2 ^ nat attempts \<le> (1800 :: nat)" if "attempts < 6"
  proof -
    have "nat attempts \<le> 5" using that by simp
    then have "2 ^ nat attempts \<le> (2 :: nat) ^ 5" by (rule power_increasing) simp
    then show ?thesis by simp
  qed
  have eq: "backoff_base attempts = (if attempts < 6 then 30 * 2 ^ nat attempts else 1800)"
    using small by (auto simp: backoff_base_def min_def)
  have "1 \<le> (2 :: nat) ^ nat attempts" by simp
  then have "30 \<le> backoff_base attempts" by (simp add: eq)
  with eq backoff_base_bounds [of attempts] jitter_le [OF assms(2), of "backoff_base attempts"]
  show ?thesis by simp
qed

text \<open>Property C1. No batch is lost: after \<open>dispatch_once\<close>, a batch that was in the queue is still there, or
  it was evicted and an audit row names it, or it is the batch dispatched and either the server
  confirmed it (a 200 with an empty or \<open>PROCESSED\<close> status), or it is in quarantine, or it was split
  and both halves are in the queue or named by an eviction row. If \<open>dispatch_once\<close> raises, no batch
  has left the queue.\<close>

theorem dispatch_no_loss:
  assumes "d_queue d = local_queue_api cfg" and "dispatch_once d w = (res, w')"
  shows "case res of
      Inr r \<Rightarrow> \<forall>b\<in>held_ids (tables (w_queue w)).
        accounted d (\<lambda>s. held_ids (tables s)) (\<lambda>s. dropped_ids (tables s))
          (\<lambda>s. quarantined_ids (tables s)) (w_net w) r (w_queue w') b
    | Inl e \<Rightarrow> held_ids (tables (w_queue w')) = held_ids (tables (w_queue w))"
  using local_batches.dispatch_accounts [OF assms(1), of w] assms(2)
  by (simp add: wp_def split: sum.splits)

definition settling :: "send_result \<Rightarrow> bool" where
  "settling a = (case a of
     Reply r \<Rightarrow> (if status_code r = 200 then remote_status r \<in> {'''', ''PROCESSED''}
       else status_code r \<notin> {202, 0, 429} \<and> status_code r < 500)
   | _ \<Rightarrow> False)"

text \<open>Until the server settles it the batch is retained: on a network failure, a 202, 0, 429 or 5xx,
  or a 200 whose status is neither empty nor \<open>PROCESSED\<close>, the next due batch stays in the store
  with its payload, one more attempt and a new due time between 1 second and the larger of 2250
  seconds and twice the poll delay away; nothing else in the store changes.\<close>

theorem retained_until_settled:
  fixes w :: "(queue_state, 'n) world"
  assumes q: "d_queue d = local_queue_api cfg"
    and row: "next_row (w_clock (w_queue w) (w_reads (w_queue w))) (tables (w_queue w)) = Some r"
    and dec: "stored_of cfg r = Inr batch"
    and send: "d_send d (body_of d batch) (w_net w) = (answer, net')"
    and ans: "\<not> settling answer" "answer \<noteq> SenderRaises"
    and rand: "\<And>k. w_random w k < 2 ^ 53"
  shows "\<exists>res w' delay. dispatch_once d w = (Inr res, w')
    \<and> outcome res \<in> {RETRY, ACCEPTED, RETAINED} \<and> batch_id res = Some (q_batch_id r)
    \<and> tables (w_queue w') = defer_row (q_batch_id r)
        (w_clock (w_queue w) (Suc (w_reads (w_queue w))) + delay) (tables (w_queue w))
    \<and> 1 \<le> delay \<and> delay \<le> max 2250 (2 * poll_delay d)"
proof -
  have b: "sb_batch_id batch = q_batch_id r"
    using dec by (auto simp: stored_of_def split: option.splits)
  let ?a = "sb_attempts batch"
  have j: "4 * jitter (backoff_base ?a) (w_random w k) \<le> backoff_base ?a" for k
    using jitter_le [OF rand, of "backoff_base ?a" k] backoff_base_bounds [of ?a] by simp
  have p: "1 \<le> poll_delay d" by (simp add: poll_delay_def)
  define Q where "Q = (\<lambda>(res :: dispatch_result) (w' :: (queue_state, 'n) world). \<exists>delay.
    outcome res \<in> {RETRY, ACCEPTED, RETAINED} \<and> batch_id res = Some (q_batch_id r)
    \<and> tables (w_queue w') = defer_row (q_batch_id r)
        (w_clock (w_queue w) (Suc (w_reads (w_queue w))) + delay) (tables (w_queue w))
    \<and> 1 \<le> delay \<and> delay \<le> max 2250 (2 * poll_delay d))"
  define w1 where "w1 = w\<lparr>w_queue := (w_queue w)\<lparr>w_reads := Suc (w_reads (w_queue w))\<rparr>, w_net := net'\<rparr>"
  have later: "wp (on_queue (defer_batch (q_batch_id r) n)) (\<lambda>_. wp (done_with out (q_batch_id r)) Q (\<lambda>_ _. False))
      (\<lambda>_ _. False) w2"
    if "1 \<le> n" "n \<le> max 2250 (2 * poll_delay d)" "out \<in> {RETRY, ACCEPTED, RETAINED}"
      "w_queue w2 = w_queue w1" for n out w2
    using that by (auto simp: defer_batch_def wp_if done_with_def Q_def w1_def)
  have backoff: "wp (defer_backoff (d_queue d) batch) (\<lambda>_. wp (done_with RETRY (q_batch_id r)) Q (\<lambda>_ _. False))
      (\<lambda>_ _. False) w1"
  proof -
    let ?n = "int (backoff_base ?a + jitter (backoff_base ?a) (w_random w (w_draws w)))"
    have "1 \<le> ?n" "?n \<le> max 2250 (2 * poll_delay d)"
      using j [of "w_draws w"] backoff_base_bounds [of ?a] by linarith+
    from later [OF this, of RETRY "w1\<lparr>w_draws := Suc (w_draws w1)\<rparr>"] show ?thesis
      by (simp add: defer_backoff_def Let_def q local_queue_api_def b w1_def)
  qed
  have "wp (dispatch_once d) Q (\<lambda>_ _. False) w"
  proof (cases answer)
    case NetworkError
    then show ?thesis using backoff
      by (simp add: dispatch_once_def q local_queue_api_def next_batch_def row load_row_def dec send b w1_def)
  next
    case (Reply result)
    have "wp (handle_reply d batch result) Q (\<lambda>_ _. False) w1"
      using ans(1) p backoff unfolding handle_reply_def Let_def b
      by (auto simp: Reply settling_def q local_queue_api_def intro!: later [unfolded wp_on_queue] split: if_splits)
    then show ?thesis
      by (simp add: dispatch_once_def q local_queue_api_def next_batch_def row load_row_def dec send b
          w1_def Reply)
  qed (use ans in simp)
  then show ?thesis by (auto simp: wp_def Q_def split: prod.splits sum.splits)
qed

text \<open>A status from the server settles a batch in two cases only: for \<open>PROCESSED\<close> and
  \<open>PURGE_LOCAL\<close> (whatever the case and the blanks around it) exactly that batch leaves the queue, and
  the result says whether it was there; for any other status nothing leaves, at most the batch is
  deferred. Reconciling never fails.\<close>

theorem reconcile_settles:
  assumes q: "d_queue d = local_queue_api cfg" and ok: "rows_ok (tables (w_queue w))"
  shows "\<exists>r w'. reconcile_status d b remote w = (Inr r, w')
    \<and> (if py_upper (py_strip remote) \<in> {''PROCESSED'', ''PURGE_LOCAL''}
       then tables (w_queue w') = delete_queued b (tables (w_queue w))
         \<and> (r \<in> {R_ACKNOWLEDGED, R_PURGED} \<longleftrightarrow> b \<in> held_ids (tables (w_queue w)))
       else (\<exists>at. tables (w_queue w') = defer_row b at (tables (w_queue w)))
         \<or> (r = R_UNKNOWN \<and> w' = w))"
proof -
  have one: "rowcount (\<lambda>x. q_batch_id x = b) (queued_batches (tables (w_queue w))) = 1
      \<longleftrightarrow> b \<in> held_ids (tables (w_queue w))"
  proof
    assume "rowcount (\<lambda>x. q_batch_id x = b) (queued_batches (tables (w_queue w))) = 1"
    then show "b \<in> held_ids (tables (w_queue w))"
      using rowcount_pos_iff [of "\<lambda>x. q_batch_id x = b" "queued_batches (tables (w_queue w))"]
      by (auto simp: held_ids_def)
  next
    assume "b \<in> held_ids (tables (w_queue w))"
    with ok show "rowcount (\<lambda>x. q_batch_id x = b) (queued_batches (tables (w_queue w))) = 1"
      using rowcount_key [of q_batch_id "queued_batches (tables (w_queue w))"]
      by (auto simp: held_ids_def rows_ok_def)
  qed
  have "1 \<le> poll_delay d" by (simp add: poll_delay_def)
  then have "wp (reconcile_status d b remote) (\<lambda>r w'.
      if py_upper (py_strip remote) \<in> {''PROCESSED'', ''PURGE_LOCAL''}
       then tables (w_queue w') = delete_queued b (tables (w_queue w))
         \<and> (r \<in> {R_ACKNOWLEDGED, R_PURGED} \<longleftrightarrow> b \<in> held_ids (tables (w_queue w)))
       else (\<exists>at. tables (w_queue w') = defer_row b at (tables (w_queue w)))
         \<or> (r = R_UNKNOWN \<and> w' = w)) (\<lambda>_ _. False) w"
    unfolding reconcile_status_def Let_def q
    by (auto simp: local_queue_api_def acknowledge_def defer_batch_def wp_if one [simplified])
  then show ?thesis by (rule wp_total)
qed

text \<open>A measure for the splitting of batches that the server finds too large.\<close>

definition split_weight :: "queue_tables \<Rightarrow> nat" where
  "split_weight t = sum_list (map (\<lambda>r. 3 ^ nat (4 - q_split_depth r)) (queued_batches t))"

lemma split_weight_simps [simp]:
  "split_weight (t\<lparr>local_audit := a\<rparr>) = split_weight t"
  "split_weight (t\<lparr>batch_quarantine := bq\<rparr>) = split_weight t"
  "split_weight (t\<lparr>sample_quarantine := sq\<rparr>) = split_weight t"
  by (simp_all add: split_weight_def)

lemma split_weight_delete: "split_weight (delete_queued b t) \<le> split_weight t"
  by (simp add: split_weight_def delete_queued_def sum_list_delete_where_le)

lemma sum_list_delete_where_mem:
  "r \<in> set t \<Longrightarrow> P r \<Longrightarrow> sum_list (map g (delete_where P t)) + g r \<le> (sum_list (map g t) :: nat)"
proof (induction t)
  case (Cons a t)
  show ?case
  proof (cases "r = a")
    case True
    with Cons.prems show ?thesis
      using sum_list_delete_where_le [of g P t] by (simp add: delete_where_def)
  next
    case False
    with Cons show ?thesis by (simp add: delete_where_def)
  qed
qed simp

lemma split_weight_delete_mem:
  "r \<in> set (queued_batches t) \<Longrightarrow> q_batch_id r = b \<Longrightarrow>
   split_weight (delete_queued b t) + 3 ^ nat (4 - q_split_depth r) \<le> split_weight t"
  unfolding split_weight_def delete_queued_def
  using sum_list_delete_where_mem [of r "queued_batches t" "\<lambda>r. q_batch_id r = b"
    "\<lambda>r. 3 ^ nat (4 - q_split_depth r)"] by simp

lemma keeps_weight_room: "keeps (\<lambda>s. split_weight (tables s) \<le> k) (make_room cfg n)"
proof (rule keepsI, rule wp_mono [OF make_room_rule [where P = "\<lambda>t. split_weight t \<le> k"]])
  fix t r a
  assume "split_weight t \<le> k"
  then show "split_weight (evicted r a t) \<le> k"
    using split_weight_delete [of "q_batch_id r" t] by (simp add: evicted_def)
qed auto

lemma insert_child_weight:
  assumes "split_weight (tables s) \<le> k"
  shows "wp (insert_child cfg x c j p)
    (\<lambda>_ s'. split_weight (tables s') \<le> k + 3 ^ nat (3 - sb_split_depth x)) (\<lambda>_ _. True) s"
  by (simp add: insert_child_def, rule wp_mono [OF keeps_wp [OF keeps_weight_room]])
    (use assms in \<open>auto simp: insert_queued_def wp_if split_weight_def\<close>)

definition stored_as :: "'s stored_batch \<Rightarrow> queue_tables \<Rightarrow> bool" where
  "stored_as x t \<longleftrightarrow> (\<exists>r\<in>set (queued_batches t).
     q_batch_id r = sb_batch_id x \<and> q_split_depth r = sb_split_depth x)"

lemma split_lighter:
  assumes "stored_as x (tables s)"
  shows "wp (split_batch cfg x) (\<lambda>_ s'. split_weight (tables s') < split_weight (tables s))
    (\<lambda>_ _. True) s"
proof (cases "sb_split_depth x \<ge> 3")
  case True
  then show ?thesis by (simp add: split_batch_def)
next
  case False
  let ?t = "delete_queued (sb_batch_id x) (tables s)"
  let ?h = "3 ^ nat (3 - sb_split_depth x) :: nat"
  from False have "nat (4 - sb_split_depth x) = Suc (nat (3 - sb_split_depth x))" by simp
  then have d: "3 ^ nat (4 - sb_split_depth x) = 3 * ?h" by simp
  have w: "split_weight ?t + 3 * ?h \<le> split_weight (tables s)"
    using assms split_weight_delete_mem d unfolding stored_as_def by metis
  have two: "wp (bindE (insert_child cfg x c i p) (\<lambda>_. insert_child cfg x c j p'))
      (\<lambda>_ s'. split_weight (tables s') < split_weight (tables s)) (\<lambda>_ _. True) s1"
    if "split_weight (tables s1) \<le> split_weight ?t" for c i p j p' s1
    unfolding wp_bindE
    by (rule wp_mono [OF insert_child_weight [OF that]], erule wp_mono [OF insert_child_weight])
      (use w zero_less_power [of "3 :: nat" "nat (3 - sb_split_depth x)"] in linarith)+
  show ?thesis
    unfolding split_batch_def Let_def
    by (auto simp: wp_if wp_ret_fun split: option.splits intro!: two [unfolded wp_bindE])
qed

lemma keeps_weight_purge: "keeps (\<lambda>s. split_weight (tables s) \<le> k) (purge_expired now)"
  unfolding purge_expired_def audit_expired_def
  by (rule keeps_rules | assumption | simp)+

lemma take_out_lighter:
  assumes "stored_as x (tables s)"
  shows "wp (take_out cfg (sb_batch_id x) n now)
    (\<lambda>_ s'. split_weight (tables s') < split_weight (tables s)) (\<lambda>_ _. True) s"
proof -
  have q: "keeps (\<lambda>s. queued_batches (tables s) = q0) (purge_expired now)" for q0
    unfolding purge_expired_def audit_expired_def
    by (rule keeps_rules | assumption | simp)+
  have less: "split_weight (delete_queued (sb_batch_id x) t) < split_weight (tables s)"
    if "queued_batches t = queued_batches (tables s)" for t
  proof -
    from assms that obtain r where "r \<in> set (queued_batches t)" "q_batch_id r = sb_batch_id x"
      by (auto simp: stored_as_def)
    from split_weight_delete_mem [OF this] have
      "split_weight (delete_queued (sb_batch_id x) t) < split_weight t"
      by (metis add_gr_0 less_add_same_cancel1 less_le_trans zero_less_numeral zero_less_power)
    then show ?thesis using that by (simp add: split_weight_def)
  qed
  have room: "wp (make_room cfg n) (\<lambda>_ s'. split_weight (tables s') < split_weight (tables s))
      (\<lambda>_ _. True) s1"
    if "split_weight (tables s1) < split_weight (tables s)" for s1
    by (rule wp_mono [OF keeps_wp [OF keeps_weight_room]]) (use that in auto)
  show ?thesis
    unfolding take_out_def wp_bindE
    by (rule wp_mono [OF keeps_wp [OF q]]) (auto simp: wp_if ensure_quarantine_room_def
      intro!: wp_mono [OF room] less)
qed

lemma quarantine_batch_lighter:
  assumes "stored_as x (tables s)"
  shows "wp (quarantine_batch cfg x code summary)
    (\<lambda>_ s'. split_weight (tables s') < split_weight (tables s)) (\<lambda>_ _. True) s"
proof -
  have t: "wp (take_out cfg (sb_batch_id x) n now)
    (\<lambda>_ s'. split_weight (tables s') < split_weight (tables s)) (\<lambda>_ _. True) s1"
    if "tables s1 = tables s" for s1 n now
    using take_out_lighter [of x s1] assms that by simp
  show ?thesis
    by (simp add: quarantine_batch_def Let_def split: option.splits;
        intro conjI allI impI; rule wp_mono [OF t])
      (auto simp: audit_def wp_if)
qed

lemma quarantine_sample_lighter:
  assumes "stored_as x (tables s)"
  shows "wp (quarantine_sample cfg x reason)
    (\<lambda>_ s'. split_weight (tables s') < split_weight (tables s)) (\<lambda>_ _. True) s"
proof -
  have t: "wp (take_out cfg (sb_batch_id x) n now)
    (\<lambda>_ s'. split_weight (tables s') < split_weight (tables s)) (\<lambda>_ _. True) s1"
    if "tables s1 = tables s" for s1 n now
    using take_out_lighter [of x s1] assms that by simp
  show ?thesis
    by (simp add: quarantine_sample_def wp_if Let_def split: option.splits; intro conjI allI impI;
        rule wp_mono [OF t])
      (auto simp: audit_def wp_if)
qed

text \<open>Property C18. Splitting terminates: every 413 that \<open>dispatch_once\<close> handles without an error makes the
  weight of the queue (3 to the power 4 minus the split depth, summed over its rows) strictly
  smaller, so a server that answers 413 to everything empties the queue after at most that many
  dispatches and no batch is sent for ever.\<close>

theorem split_makes_progress:
  assumes q: "d_queue d = local_queue_api cfg"
    and row: "next_row (w_clock (w_queue w) (w_reads (w_queue w))) (tables (w_queue w)) = Some r"
    and dec: "stored_of cfg r = Inr batch"
    and send: "d_send d (body_of d batch) (w_net w) = (Reply result, net')"
    and too_large: "status_code result = 413"
    and run: "dispatch_once d w = (Inr res, w')"
  shows "split_weight (tables (w_queue w')) < split_weight (tables (w_queue w))"
proof -
  let ?s = "(w_queue w)\<lparr>w_reads := Suc (w_reads (w_queue w))\<rparr>"
  have b: "sb_batch_id batch = q_batch_id r" "sb_split_depth batch = q_split_depth r"
    using dec by (auto simp: stored_of_def split: option.splits)
  have "r \<in> set (queued_batches (tables (w_queue w)))"
    using first_order_by_mem [OF row [unfolded next_row_def]] by simp
  then have st: "stored_as batch (tables ?s)" using b by (auto simp: stored_as_def)
  have "wp (dispatch_once d)
      (\<lambda>_ w'. split_weight (tables (w_queue w')) < split_weight (tables (w_queue w))) (\<lambda>_ _. True) w"
    using too_large
    by (auto simp: dispatch_once_def q local_queue_api_def next_batch_def row load_row_def dec send
        handle_reply_def handle_413_def done_with_def Let_def wp_if
        intro!: wp_mono [OF split_lighter [OF st]] wp_mono [OF quarantine_batch_lighter [OF st]]
          wp_mono [OF quarantine_sample_lighter [OF st]])
  from wp_InrD [OF this run] show ?thesis .
qed

section \<open>The properties at concrete inputs\<close>

definition sample_dispatcher :: "send_result \<Rightarrow> (queue_state, byte, unit) dispatcher" where
  "sample_dispatcher answer = \<lparr>d_queue = local_queue_api (plain_config 8),
     d_send = (\<lambda>_ n. (answer, n)), d_reupload = None, d_digest = (\<lambda>_. []), d_poll_delay = 30\<rparr>"

definition sample_world :: "(queue_state, unit) world" where
  "sample_world = \<lparr>w_queue = sample_state, w_net = (), w_random = (\<lambda>_. 2 ^ 52), w_draws = 0,
     w_diagnostics = []\<rparr>"

definition answered :: "int \<Rightarrow> send_result" where
  "answered code = Reply \<lparr>status_code = code, error_code = [], error_summary = [],
     remote_status = []\<rparr>"

lemmas dispatch_sample_defs = sample_dispatcher_def sample_world_def answered_def sample_defs

definition sample_head :: "byte stored_batch" where
  "sample_head = \<lparr>sb_batch_id = 1, sb_samples = [1, 2], sb_parent_batch_id = None,
     sb_split_depth = 0, sb_attempts = 0, sb_created_at = 0\<rparr>"

lemma sample_next:
  "next_row (w_clock (w_queue sample_world) (w_reads (w_queue sample_world)))
     (tables (w_queue sample_world)) = Some (sample_row 1 [1, 2] True)"
  by (simp add: dispatch_sample_defs next_row_def select_where_def order_by_def first_row_def)

lemma sample_stored: "stored_of (plain_config 8) (sample_row 1 [1, 2] True) = Inr sample_head"
  by (simp add: stored_of_def sample_defs sample_head_def)

lemma sample_split_run:
  "wp (dispatch_once (sample_dispatcher (answered 413))) (\<lambda>r _. outcome r = SPLIT) (\<lambda>_ _. False)
     sample_world"
  using sample_next
  by (simp add: dispatch_once_def handle_reply_def handle_413_def dispatch_sample_defs
      local_queue_api_def next_batch_def load_row_def stored_of_def split_batch_def insert_child_def
      insert_queued_def row_of_def select_where_def first_row_def delete_queued_def delete_where_def
      queue_bytes_def quarantine_bytes_def wp_if wp_ret_fun)

lemma backoff_bounds_witness:
  "backoff_base 3 = 240 \<and> 4 * jitter (backoff_base 3) (2 ^ 53 - 1) \<le> backoff_base 3"
  using backoff_bounds [of 3 "2 ^ 53 - 1"] by auto

lemma dispatch_no_loss_witness:
  "\<exists>r w'. dispatch_once (sample_dispatcher (answered 413)) sample_world = (Inr r, w')
     \<and> outcome r = SPLIT
     \<and> accounted (sample_dispatcher (answered 413)) (\<lambda>s. held_ids (tables s))
          (\<lambda>s. dropped_ids (tables s)) (\<lambda>s. quarantined_ids (tables s)) () r (w_queue w') 1"
proof -
  let ?d = "sample_dispatcher (answered 413)"
  from wp_total [OF sample_split_run] obtain r w' where run: "dispatch_once ?d sample_world = (Inr r, w')"
    and "outcome r = SPLIT" by blast
  moreover have "held_ids (tables (w_queue sample_world)) = {1, 2}"
    by (simp add: held_ids_def dispatch_sample_defs)
  moreover have "w_net sample_world = ()" by simp
  ultimately show ?thesis
    using dispatch_no_loss [OF _ run, of "plain_config 8"] by (simp add: sample_dispatcher_def)
qed

lemma retained_until_settled_witness:
  "\<exists>res w'. dispatch_once (sample_dispatcher (answered 202)) sample_world = (Inr res, w')
     \<and> batch_id res = Some 1"
proof -
  have send: "d_send (sample_dispatcher (answered 202)) x (w_net sample_world) = (answered 202, ())" for x
    by (simp add: sample_dispatcher_def)
  have q: "d_queue (sample_dispatcher (answered 202)) = local_queue_api (plain_config 8)"
    by (simp add: sample_dispatcher_def)
  show ?thesis
    using retained_until_settled [OF q sample_next sample_stored send]
    by (auto simp: settling_def answered_def sample_world_def sample_row_def)
qed

lemma reconcile_settles_witness:
  "\<exists>r w'. reconcile_status (sample_dispatcher NetworkError) 1 ''PURGE_LOCAL'' sample_world = (Inr r, w')
     \<and> tables (w_queue w') = delete_queued 1 (tables (w_queue sample_world))"
proof -
  have q: "d_queue (sample_dispatcher NetworkError) = local_queue_api (plain_config 8)"
    by (simp add: sample_dispatcher_def)
  have ok: "rows_ok (tables (w_queue sample_world))"
    using sample_store_ok by (simp add: tables_ok_def sample_world_def)
  have "py_upper (py_strip ''PURGE_LOCAL'') = ''PURGE_LOCAL''" by code_simp
  with reconcile_settles [OF q ok, of 1 "''PURGE_LOCAL''"] show ?thesis
    by auto
qed

lemma split_makes_progress_witness:
  "\<exists>w'. dispatch_once (sample_dispatcher (answered 413)) sample_world
      = (fst (dispatch_once (sample_dispatcher (answered 413)) sample_world), w')
     \<and> split_weight (tables (w_queue w')) < split_weight (tables (w_queue sample_world))"
proof -
  let ?d = "sample_dispatcher (answered 413)"
  have q: "d_queue ?d = local_queue_api (plain_config 8)" by (simp add: sample_dispatcher_def)
  have send: "d_send ?d x (w_net sample_world) = (Reply \<lparr>status_code = 413, error_code = [],
      error_summary = [], remote_status = []\<rparr>, ())" for x
    by (simp add: sample_dispatcher_def answered_def)
  from wp_total [OF sample_split_run] obtain r w' where
    run: "dispatch_once ?d sample_world = (Inr r, w')" by blast
  from split_makes_progress [OF q sample_next sample_stored send _ run] run show ?thesis by simp
qed

end
