(* ===== verification/Codecs.thy ===== *)
theory Codecs
  imports Prelude
begin

text \<open>
  The text forms the agent and the server exchange, both directions: timestamps and base64, as the
  standard library of Python writes and reads them, with their round trips.
\<close>

section \<open>Timestamps\<close>

text \<open>
  \<open>datetime.strptime(s, "%Y-%m-%dT%H:%M:%SZ")\<close>: four digits for the year, one or two for every
  other field (a day may also be a blank and one digit), the letters in either case, then the
  range checks of \<open>datetime\<close>. The result is in seconds since 1970.
\<close>

definition digit_val :: "char \<Rightarrow> int" where
  "digit_val c = int (ord_of c) - 48"

definition number :: "string \<Rightarrow> int option" where
  "number s = (if s \<noteq> [] \<and> list_all is_digit s
     then Some (foldl (\<lambda>n c. 10 * n + digit_val c) 0 s) else None)"

definition short_number :: "string \<Rightarrow> int option" where
  "short_number s = (if length s \<le> 2 then number s else None)"

definition day_number :: "string \<Rightarrow> int option" where
  "day_number s = (case s of
     [b, d] \<Rightarrow> if b = CHR '' '' then short_number [d] else short_number s
   | _ \<Rightarrow> short_number s)"

text \<open>The text up to a separator (in either case), and what follows it.\<close>

fun cut :: "char \<Rightarrow> string \<Rightarrow> (string \<times> string) option" where
  "cut sep [] = None"
| "cut sep (c # cs) = (if py_upper [c] = [sep] then Some ([], cs)
     else map_option (\<lambda>(a, b). (c # a, b)) (cut sep cs))"

definition leap :: "int \<Rightarrow> bool" where
  "leap y \<longleftrightarrow> y mod 4 = 0 \<and> (y mod 100 \<noteq> 0 \<or> y mod 400 = 0)"

definition days_in_month :: "int \<Rightarrow> int \<Rightarrow> int" where
  "days_in_month y m = (if m = 2 then if leap y then 29 else 28
     else if m \<in> {4, 6, 9, 11} then 30 else 31)"

definition days_before_month :: "int \<Rightarrow> int \<Rightarrow> int" where
  "days_before_month y m = sum_list (map (\<lambda>k. days_in_month y (int k)) [1..<nat m])"

definition days_before_year :: "int \<Rightarrow> int" where
  "days_before_year y = (y - 1) * 365 + (y - 1) div 4 - (y - 1) div 100 + (y - 1) div 400"

definition epoch_of :: "int \<Rightarrow> int \<Rightarrow> int \<Rightarrow> int \<Rightarrow> int \<Rightarrow> int \<Rightarrow> int" where
  "epoch_of y m d hh mm ss =
     (days_before_year y + days_before_month y m + d - 1 - 719162) * 86400 + hh * 3600 + mm * 60 + ss"

definition checked_epoch :: "int \<Rightarrow> int \<Rightarrow> int \<Rightarrow> int \<Rightarrow> int \<Rightarrow> int \<Rightarrow> int option" where
  "checked_epoch y m d hh mm ss =
     (if 1 \<le> y \<and> y \<le> 9999 \<and> 1 \<le> m \<and> m \<le> 12 \<and> 1 \<le> d \<and> d \<le> days_in_month y m
         \<and> 0 \<le> hh \<and> hh \<le> 23 \<and> 0 \<le> mm \<and> mm \<le> 59 \<and> 0 \<le> ss \<and> ss \<le> 59
      then Some (epoch_of y m d hh mm ss) else None)"

definition parse_utc :: "string \<Rightarrow> seconds option" where
  "parse_utc s =
     Option.bind (cut CHR ''-'' s) (\<lambda>(ys, s1).
     Option.bind (cut CHR ''-'' s1) (\<lambda>(ms, s2).
     Option.bind (cut CHR ''T'' s2) (\<lambda>(ds, s3).
     Option.bind (cut CHR '':'' s3) (\<lambda>(hs, s4).
     Option.bind (cut CHR '':'' s4) (\<lambda>(ns, s5).
     Option.bind (cut CHR ''Z'' s5) (\<lambda>(ss, s6).
     Option.bind (if length ys = 4 then number ys else None) (\<lambda>y.
     Option.bind (short_number ms) (\<lambda>m.
     Option.bind (day_number ds) (\<lambda>d.
     Option.bind (short_number hs) (\<lambda>hh.
     Option.bind (short_number ns) (\<lambda>mm.
     Option.bind (short_number ss) (\<lambda>sec.
       if s6 = [] then checked_epoch y m d hh mm sec else None))))))))))))"

section \<open>Base64\<close>

text \<open>
  \<open>base64.b64decode\<close>, that is \<open>binascii.a2b_base64\<close> outside strict mode: foreign characters are
  skipped, enough padding ends the text, and text that ends inside a group of four is an error.
  \<open>urlsafe_b64decode\<close> replaces the two characters of its own alphabet first.
\<close>

definition b64_value :: "char \<Rightarrow> nat option" where
  "b64_value c = (let n = ord_of c in
     if is_upper c then Some (n - 65) else if is_lower c then Some (n - 71)
     else if is_digit c then Some (n + 4)
     else if c = CHR ''+'' then Some 62 else if c = CHR ''/'' then Some 63 else None)"

fun a2b_base64 :: "string \<Rightarrow> nat \<Rightarrow> nat \<Rightarrow> nat \<Rightarrow> bytes \<Rightarrow> bytes option" where
  "a2b_base64 [] quad left pads acc = (if quad = 0 then Some acc else None)"
| "a2b_base64 (c # cs) quad left pads acc =
     (if c = CHR ''='' then
        if quad \<ge> 2 \<and> quad + pads + 1 \<ge> 4 then Some acc
        else a2b_base64 cs quad left (if quad \<ge> 2 then pads + 1 else pads) acc
      else case b64_value c of
        None \<Rightarrow> a2b_base64 cs quad left pads acc
      | Some v \<Rightarrow>
          if quad = 0 then a2b_base64 cs 1 v 0 acc
          else if quad = 1 then a2b_base64 cs 2 (v mod 16) 0 (acc @ [of_nat (left * 4 + v div 16)])
          else if quad = 2 then a2b_base64 cs 3 (v mod 4) 0 (acc @ [of_nat (left * 16 + v div 4)])
          else a2b_base64 cs 0 0 0 (acc @ [of_nat (left * 64 + v)]))"

definition b64decode :: "string \<Rightarrow> bytes option" where
  "b64decode s = a2b_base64 s 0 0 0 []"

definition urlsafe_b64decode :: "string \<Rightarrow> bytes option" where
  "urlsafe_b64decode s =
     b64decode (map (\<lambda>c. if c = CHR ''-'' then CHR ''+'' else if c = CHR ''_'' then CHR ''/'' else c) s)"

section \<open>Writing timestamps\<close>

text \<open>
  \<open>strftime("%Y-%m-%dT%H:%M:%SZ")\<close> of an instant in UTC, for years of four digits: the year and the
  month are found by walking forward from an estimate.
\<close>

definition two_digits :: "int \<Rightarrow> string" where
  "two_digits k = [char_of (48 + nat (k div 10)), char_of (48 + nat (k mod 10))]"

definition four_digits :: "int \<Rightarrow> string" where
  "four_digits k = two_digits (k div 100) @ two_digits (k mod 100)"

lemma div_step:
  fixes y c :: int
  assumes "0 < c"
  shows "y div c = (y - 1) div c + (if y mod c = 0 then 1 else 0)"
proof (cases "y mod c = 0")
  case True
  have "(y - 1) div c = y div c - 1"
  proof (rule int_div_pos_eq)
    show "y - 1 = c * (y div c - 1) + (c - 1)"
      using mult_div_mod_eq [of c y] True by (simp add: algebra_simps)
  qed (use assms in auto)
  with True show ?thesis by simp
next
  case False
  have "(y - 1) div c = y div c"
  proof (rule int_div_pos_eq)
    show "y - 1 = c * (y div c) + (y mod c - 1)" using mult_div_mod_eq [of c y] by simp
    show "0 \<le> y mod c - 1" "y mod c - 1 < c"
      using False pos_mod_sign [OF assms, of y] pos_mod_bound [OF assms, of y] by linarith+
  qed
  with False show ?thesis by simp
qed

lemma days_before_next_year:
  "days_before_year (y + 1) = days_before_year y + 365 + (if leap y then 1 else 0)"
proof -
  have "y mod 100 = 0 \<Longrightarrow> y mod 4 = 0"
    using mod_mod_cancel [of 4 100 y] by simp
  moreover have "y mod 400 = 0 \<Longrightarrow> y mod 100 = 0"
    using mod_mod_cancel [of 100 400 y] by simp
  ultimately have leap: "(if leap y then 1 else 0) = (if y mod 4 = 0 then 1 else 0) - (if y mod 100 = 0 then 1 else 0)
      + (if y mod 400 = 0 then (1 :: int) else 0)"
    by (cases "y mod 4 = 0"; cases "y mod 100 = 0"; cases "y mod 400 = 0") (simp_all add: leap_def)
  have sum: "a = a' + p \<Longrightarrow> b = b' + q \<Longrightarrow> c = c' + r
      \<Longrightarrow> (y + 1 - 1) * 365 + a - b + c = (y - 1) * 365 + a' - b' + c' + 365 + (p - q + r)" for a a' b b' c c' p q r :: int
    by (simp add: algebra_simps)
  show ?thesis
    unfolding leap days_before_year_def add_diff_cancel_right'
    by (rule sum [unfolded add_diff_cancel_right']) (rule div_step, simp)+
qed

function year_from :: "int \<Rightarrow> int \<Rightarrow> int" where
  "year_from y d = (if days_before_year (y + 1) \<le> d then year_from (y + 1) d else y)"
  by pat_completeness auto
termination
  by (relation "measure (\<lambda>(y, d). nat (d - days_before_year y))")
    (auto simp: days_before_next_year split: if_splits)

function month_from :: "int \<Rightarrow> int \<Rightarrow> int \<Rightarrow> int \<times> int" where
  "month_from y m r = (if m < 12 \<and> days_in_month y m \<le> r
     then month_from y (m + 1) (r - days_in_month y m) else (m, r + 1))"
  by pat_completeness auto
termination
  by (relation "measure (\<lambda>(y, m, r). nat (12 - m))") auto

declare year_from.simps [simp del] month_from.simps [simp del]

definition utc_text :: "seconds \<Rightarrow> string" where
  "utc_text s = (let d = s div 86400 + 719162; t = s mod 86400; y = year_from (d div 366 + 1) d;
       (m, day) = month_from y 1 (d - days_before_year y)
     in four_digits y @ CHR ''-'' # two_digits m @ CHR ''-'' # two_digits day @ CHR ''T'' #
        two_digits (t div 3600) @ CHR '':'' # two_digits (t div 60 mod 60) @ CHR '':'' # two_digits (t mod 60) @ ''Z'')"

lemma days_before_mono: "y \<le> y' \<Longrightarrow> days_before_year y \<le> days_before_year y'"
proof (induction y' rule: int_ge_induct)
  case (step k)
  then show ?case by (simp add: days_before_next_year)
qed simp

lemma year_from_bounds:
  "days_before_year y \<le> d \<Longrightarrow> days_before_year (year_from y d) \<le> d \<and> d < days_before_year (year_from y d + 1)
    \<and> y \<le> year_from y d"
  by (induction y d rule: year_from.induct) (subst (1 2 3) year_from.simps, auto)

lemma year_estimate: "0 \<le> d \<Longrightarrow> days_before_year (d div 366 + 1) \<le> d"
  by (simp add: days_before_year_def)

lemma days_before_next_month:
  "1 \<le> m \<Longrightarrow> days_before_month y (m + 1) = days_before_month y m + days_in_month y m"
  by (simp add: days_before_month_def nat_add_distrib Suc_le_eq)

lemma first_month: "days_before_month y 1 = 0"
  by (simp add: days_before_month_def)

lemma days_in_month_pos: "28 \<le> days_in_month y m"
  by (simp add: days_in_month_def)

lemma days_of_year: "days_before_month y 13 = 365 + (if leap y then 1 else 0)"
  by (simp add: days_before_month_def days_in_month_def upt_rec)

lemma month_from_bounds:
  assumes "1 \<le> m" "m \<le> 12" "0 \<le> r" "days_before_month y m + r < days_before_month y 13"
  shows "case month_from y m r of (m', day) \<Rightarrow> 1 \<le> m' \<and> m' \<le> 12 \<and> 1 \<le> day \<and> day \<le> days_in_month y m'
    \<and> days_before_month y m' + day - 1 = days_before_month y m + r"
  using assms
proof (induction y m r rule: month_from.induct)
  case (1 y m r)
  show ?case
  proof (cases "m < 12 \<and> days_in_month y m \<le> r")
    case True
    with 1 have "case month_from y (m + 1) (r - days_in_month y m) of (m', day) \<Rightarrow>
        1 \<le> m' \<and> m' \<le> 12 \<and> 1 \<le> day \<and> day \<le> days_in_month y m'
        \<and> days_before_month y m' + day - 1 = days_before_month y (m + 1) + (r - days_in_month y m)"
      by (intro 1(1)) (auto simp: days_before_next_month)
    with True 1 show ?thesis
      by (simp add: month_from.simps [of y m r] days_before_next_month)
  next
    case False
    have "r < days_in_month y m"
    proof (cases "m = 12")
      case True
      then show ?thesis using 1 days_before_next_month [of 12 y] by simp
    qed (use False 1 in auto)
    with 1 False show ?thesis by (auto simp: month_from.simps [of y m r])
  qed
qed

subsection \<open>Reading them back\<close>

lemma digit_char: "0 \<le> k \<Longrightarrow> k < 10 \<Longrightarrow> is_digit (char_of (48 + nat k)) \<and> digit_val (char_of (48 + nat k)) = k"
  by (simp add: is_digit_def digit_val_def take_bit_eq_mod nat_less_iff)

lemma two_digits_digits: "0 \<le> k \<Longrightarrow> k < 100 \<Longrightarrow> list_all is_digit (two_digits k)"
  by (simp add: two_digits_def digit_char)

lemma number_two: "0 \<le> k \<Longrightarrow> k < 100 \<Longrightarrow> number (two_digits k) = Some k"
  by (simp add: number_def two_digits_def digit_char)

lemma number_four: "0 \<le> k \<Longrightarrow> k < 10000 \<Longrightarrow> number (four_digits k) = Some k"
  by (simp add: number_def four_digits_def two_digits_def digit_char)

lemma short_two [simp]: "0 \<le> k \<Longrightarrow> k < 100 \<Longrightarrow> short_number (two_digits k) = Some k"
  by (simp add: short_number_def number_two) (simp add: two_digits_def)

lemma day_two: "0 \<le> k \<Longrightarrow> k < 100 \<Longrightarrow> day_number (two_digits k) = Some k"
proof -
  assume k: "0 \<le> k" "k < 100"
  have "is_digit (char_of (48 + nat (k div 10)))" using digit_char [of "k div 10"] k by simp
  moreover have "\<not> is_digit (CHR '' '')" by (simp add: is_digit_def)
  ultimately have "two_digits k ! 0 \<noteq> CHR '' ''" unfolding two_digits_def by (metis nth_Cons_0)
  with k show ?thesis using short_two [OF k] by (simp add: day_number_def two_digits_def)
qed

lemma cut_digits:
  "list_all is_digit ds \<Longrightarrow> py_upper [sep] = [sep] \<Longrightarrow> \<not> is_digit sep \<Longrightarrow> cut sep (ds @ sep # rest) = Some (ds, rest)"
  by (induction ds) (auto simp: py_upper_def is_lower_def is_digit_def)

lemma cut_separator:
  assumes "list_all is_digit ds"
  shows "cut CHR ''-'' (ds @ CHR ''-'' # rest) = Some (ds, rest)" "cut CHR ''T'' (ds @ CHR ''T'' # rest) = Some (ds, rest)"
    "cut CHR '':'' (ds @ CHR '':'' # rest) = Some (ds, rest)" "cut CHR ''Z'' (ds @ CHR ''Z'' # rest) = Some (ds, rest)"
  using assms by (auto intro!: cut_digits simp: py_upper_def is_lower_def is_digit_def)

lemma parse_fields:
  assumes "0 \<le> y" "y < 10000" "0 \<le> m" "m < 100" "0 \<le> d" "d < 100" "0 \<le> hh" "hh < 100" "0 \<le> mm" "mm < 100"
    "0 \<le> sec" "sec < 100"
  shows "parse_utc (four_digits y @ CHR ''-'' # two_digits m @ CHR ''-'' # two_digits d @ CHR ''T'' #
      two_digits hh @ CHR '':'' # two_digits mm @ CHR '':'' # two_digits sec @ CHR ''Z'' # [])
    = checked_epoch y m d hh mm sec"
proof -
  have four: "list_all is_digit (four_digits y)" "length (four_digits y) = 4"
    using assms by (simp_all add: four_digits_def two_digits_digits) (simp add: two_digits_def)
  note digits = two_digits_digits [OF assms(3,4)] two_digits_digits [OF assms(5,6)] two_digits_digits [OF assms(7,8)]
    two_digits_digits [OF assms(9,10)] two_digits_digits [OF assms(11,12)]
  note numbers = number_four [OF assms(1,2)] short_two [OF assms(3,4)] day_two [OF assms(5,6)]
    short_two [OF assms(7,8)] short_two [OF assms(9,10)] short_two [OF assms(11,12)]
  show ?thesis
    by (simp only: parse_utc_def cut_separator [OF four(1)] cut_separator [OF digits(1)] cut_separator [OF digits(2)]
        cut_separator [OF digits(3)] cut_separator [OF digits(4)] cut_separator [OF digits(5)]
        Option.bind.simps prod.case four(2) numbers if_True refl)
qed

text \<open>Instants whose year has at most four digits.\<close>

definition four_digit_years :: "seconds \<Rightarrow> bool" where
  "four_digit_years s \<longleftrightarrow> 0 \<le> s div 86400 + 719162 \<and> s div 86400 + 719162 < days_before_year 10000"

theorem parse_utc_text:
  assumes "four_digit_years s"
  shows "parse_utc (utc_text s) = Some s"
proof -
  define d t where "d = s div 86400 + 719162" and "t = s mod 86400"
  define y where "y = year_from (d div 366 + 1) d"
  obtain m day where md: "month_from y 1 (d - days_before_year y) = (m, day)" by fastforce
  have d: "0 \<le> d" "d < days_before_year 10000" using assms by (simp_all add: four_digit_years_def d_def)
  have y: "days_before_year y \<le> d" "d < days_before_year (y + 1)" "1 \<le> y"
    using year_from_bounds [OF year_estimate [OF d(1)]] d(1) by (simp_all add: y_def) (metis add.commute add_le_cancel_left le_add_same_cancel2 order_trans pos_imp_zdiv_nonneg_iff zero_less_numeral)
  have y4: "y \<le> 9999"
    using days_before_mono [of 10000 y] y(1) d(2) by linarith
  have r: "0 \<le> d - days_before_year y" "days_before_month y 1 + (d - days_before_year y) < days_before_month y 13"
    using y by (simp_all add: days_of_year days_before_next_year first_month)
  have month: "1 \<le> m" "m \<le> 12" "1 \<le> day" "day \<le> days_in_month y m"
    "days_before_month y m + day - 1 = d - days_before_year y"
    using month_from_bounds [OF _ _ r] by (simp_all add: md first_month)
  have day: "day < 100" using month(4) by (simp add: days_in_month_def split: if_splits)
  have t: "0 \<le> t" "t < 86400" by (simp_all add: t_def)
  have hms: "0 \<le> t div 3600" "t div 3600 \<le> 23" "0 \<le> t div 60 mod 60" "t div 60 mod 60 \<le> 59"
      "0 \<le> t mod 60" "t mod 60 \<le> 59" "t div 3600 * 3600 + t div 60 mod 60 * 60 + t mod 60 = t"
  proof -
    have "t div 3600 = t div 60 div 60" using zdiv_zmult2_eq [of 60 t 60] by simp
    then show "t div 3600 * 3600 + t div 60 mod 60 * 60 + t mod 60 = t"
      using mult_div_mod_eq [of 60 t] mult_div_mod_eq [of 60 "t div 60"] by linarith
    show "t div 3600 \<le> 23" using zdiv_mono1 [of t 86399 3600] t(2) by simp
    show "t div 60 mod 60 \<le> 59" "t mod 60 \<le> 59"
      using pos_mod_bound [of 60 "t div 60"] pos_mod_bound [of 60 t] by linarith+
  qed (use t in simp_all)
  have written: "utc_text s = four_digits y @ CHR ''-'' # two_digits m @ CHR ''-'' # two_digits day @ CHR ''T'' #
      two_digits (t div 3600) @ CHR '':'' # two_digits (t div 60 mod 60) @ CHR '':'' # two_digits (t mod 60) @ CHR ''Z'' # []"
    by (simp add: utc_text_def Let_def md flip: d_def t_def y_def)
  have "parse_utc (utc_text s) = Some (epoch_of y m day (t div 3600) (t div 60 mod 60) (t mod 60))"
  proof -
    obtain hh mm sec where f: "t div 3600 = hh" "t div 60 mod 60 = mm" "t mod 60 = sec" by blast
    note clock = hms(1-6) [unfolded f]
    have "parse_utc (utc_text s) = checked_epoch y m day hh mm sec" unfolding written f
      by (rule parse_fields) (use y(3) y4 month(1-3) day clock in simp_all)
    also have "\<dots> = Some (epoch_of y m day hh mm sec)"
      using y(3) y4 month(1-4) clock by (simp add: checked_epoch_def)
    finally show ?thesis unfolding f .
  qed
  also have "epoch_of y m day (t div 3600) (t div 60 mod 60) (t mod 60) = s"
  proof -
    have days: "days_before_year y + days_before_month y m + day - 1 - 719162 = s div 86400"
      using month(5) unfolding d_def by (simp only: algebra_simps)
    have "epoch_of y m day (t div 3600) (t div 60 mod 60) (t mod 60)
        = s div 86400 * 86400 + (t div 3600 * 3600 + t div 60 mod 60 * 60 + t mod 60)"
      unfolding epoch_of_def days by (simp only: add.assoc)
    also have "\<dots> = s" unfolding hms(7) unfolding t_def by (rule div_mult_mod_eq)
    finally show ?thesis .
  qed
  finally show ?thesis .
qed

section \<open>Writing base64\<close>

text \<open>\<open>base64.urlsafe_b64encode\<close>, then \<open>rstrip("=")\<close>.\<close>

definition b64_char :: "nat \<Rightarrow> char" where
  "b64_char n = char_of (if n < 26 then n + 65 else if n < 52 then n + 71 else if n < 62 then n - 4
     else if n = 62 then 45 else 95)"

fun urlsafe_b64encode :: "bytes \<Rightarrow> string" where
  "urlsafe_b64encode [] = []"
| "urlsafe_b64encode [a] = [b64_char (unat a div 4), b64_char (unat a mod 4 * 16)] @ ''==''"
| "urlsafe_b64encode [a, b] = [b64_char (unat a div 4), b64_char (unat a mod 4 * 16 + unat b div 16),
     b64_char (unat b mod 16 * 4)] @ ''=''"
| "urlsafe_b64encode (a # b # c # rest) = [b64_char (unat a div 4),
     b64_char (unat a mod 4 * 16 + unat b div 16), b64_char (unat b mod 16 * 4 + unat c div 64),
     b64_char (unat c mod 64)] @ urlsafe_b64encode rest"

definition unpadded :: "string \<Rightarrow> string" where
  "unpadded s = rev (dropWhile (\<lambda>c. c = CHR ''='') (rev s))"

definition std_char :: "char \<Rightarrow> char" where
  "std_char c = (if c = CHR ''-'' then CHR ''+'' else if c = CHR ''_'' then CHR ''/'' else c)"

lemma urlsafe_b64decode_std: "urlsafe_b64decode s = a2b_base64 (map std_char s) 0 0 0 []"
  by (simp add: urlsafe_b64decode_def b64decode_def std_char_def [abs_def])

lemma of_char_b64: "n < 64 \<Longrightarrow> ord_of (b64_char n) = (if n < 26 then n + 65 else if n < 52 then n + 71
    else if n < 62 then n - 4 else if n = 62 then 45 else 95)"
  by (simp add: b64_char_def take_bit_eq_mod)

lemma b64_value_char:
  assumes "n < 64"
  shows "b64_value (std_char (b64_char n)) = Some n" "std_char (b64_char n) \<noteq> CHR ''=''" "b64_char n \<noteq> CHR ''=''"
proof -
  have "b64_value (std_char (b64_char n)) = Some n \<and> std_char (b64_char n) \<noteq> CHR ''='' \<and> b64_char n \<noteq> CHR ''=''"
  proof (cases "n < 62")
    case True
    have ord: "ord_of (b64_char n) = (if n < 26 then n + 65 else if n < 52 then n + 71 else n - 4)"
      using of_char_b64 [OF assms] True by simp
    then have "b64_char n \<noteq> CHR ''-''" "b64_char n \<noteq> CHR ''_''" "b64_char n \<noteq> CHR ''=''"
      using True by (auto split: if_splits)
    with ord True show ?thesis
      by (auto simp: std_char_def b64_value_def Let_def is_upper_def is_lower_def is_digit_def)
  next
    case False
    with assms have "n = 62 \<or> n = 63" by linarith
    moreover have "b64_value (std_char (b64_char k)) = Some k \<and> std_char (b64_char k) \<noteq> CHR ''='' \<and> b64_char k \<noteq> CHR ''=''"
      if "k = 62 \<or> k = 63" for k
    proof -
      have "b64_value (std_char (b64_char 62)) = Some 62 \<and> std_char (b64_char 62) \<noteq> CHR ''='' \<and> b64_char 62 \<noteq> CHR ''=''"
        "b64_value (std_char (b64_char 63)) = Some 63 \<and> std_char (b64_char 63) \<noteq> CHR ''='' \<and> b64_char 63 \<noteq> CHR ''=''"
        by code_simp+
      with that show ?thesis by (elim disjE) (simp_all only: simp_thms)
    qed
    ultimately show ?thesis by blast
  qed
  then show "b64_value (std_char (b64_char n)) = Some n" "std_char (b64_char n) \<noteq> CHR ''=''" "b64_char n \<noteq> CHR ''=''"
    by simp_all
qed

lemma byte_parts:
  fixes a :: byte
  shows "unat a div 4 < 64" "unat a div 16 < 16" "unat a div 64 < 4" "unat a mod 4 < 4" "unat a mod 16 < 16" "unat a mod 64 < 64"
proof -
  have "unat a < 2 ^ LENGTH(8)" by (rule unsigned_less)
  then have "unat a \<le> 255" by simp
  from div_le_mono [OF this, of 4] div_le_mono [OF this, of 16] div_le_mono [OF this, of 64]
  show "unat a div 4 < 64" "unat a div 16 < 16" "unat a div 64 < 4" "unat a mod 4 < 4" "unat a mod 16 < 16" "unat a mod 64 < 64"
    by simp_all
qed

lemma join_parts:
  fixes x y c :: nat
  assumes "y < c"
  shows "(x * c + y) div c = x" "(x * c + y) mod c = y"
  using assms by simp_all

text \<open>Three bytes make four characters, one byte makes two.\<close>

lemma a2b_triple:
  fixes a b c :: byte
  shows "a2b_base64 (map std_char [b64_char (unat a div 4), b64_char (unat a mod 4 * 16 + unat b div 16),
     b64_char (unat b mod 16 * 4 + unat c div 64), b64_char (unat c mod 64)] @ rest) 0 left pads acc
   = a2b_base64 rest 0 0 0 (acc @ [a, b, c])"
proof -
  note parts = byte_parts [of a] byte_parts [of b] byte_parts [of c]
  have small: "unat a div 4 < 64" "unat a mod 4 * 16 + unat b div 16 < 64"
    "unat b mod 16 * 4 + unat c div 64 < 64" "unat c mod 64 < 64"
    using parts by linarith+
  have first: "unat a div 4 * 4 + unat a mod 4 = unat a" "unat b div 16 * 16 + unat b mod 16 = unat b"
    "unat c div 64 * 64 + unat c mod 64 = unat c" by simp_all
  show ?thesis
    using small
    by (simp add: b64_value_char join_parts parts first)
qed

lemma a2b_single:
  fixes a :: byte
  shows "a2b_base64 (map std_char ([b64_char (unat a div 4), b64_char (unat a mod 4 * 16)] @ ''=='')) 0 left pads acc
    = Some (acc @ [a])"
proof -
  have small: "unat a div 4 < 64" "unat a mod 4 * 16 < 64" using byte_parts [of a] by linarith+
  then show ?thesis by (simp add: b64_value_char) (simp add: std_char_def)
qed

lemma b64_whole: "length bs mod 3 = 0 \<Longrightarrow> a2b_base64 (map std_char (urlsafe_b64encode bs @ rest)) 0 left pads acc
    = a2b_base64 (map std_char rest) 0 (if bs = [] then left else 0) (if bs = [] then pads else 0) (acc @ bs)"
proof (induction bs arbitrary: left pads acc rule: urlsafe_b64encode.induct)
  case (4 a b c bs)
  have "a2b_base64 (map std_char (urlsafe_b64encode (a # b # c # bs) @ rest)) 0 left pads acc
      = a2b_base64 (map std_char (urlsafe_b64encode bs @ rest)) 0 0 0 (acc @ [a, b, c])"
    using a2b_triple [of a b c "map std_char (urlsafe_b64encode bs @ rest)"] by simp
  also have "length bs mod 3 = 0" using 4(2) by (simp add: mod_Suc split: if_splits)
  with 4(1) [of 0 0 "acc @ [a, b, c]"] have "a2b_base64 (map std_char (urlsafe_b64encode bs @ rest)) 0 0 0 (acc @ [a, b, c])
      = a2b_base64 (map std_char rest) 0 0 0 (acc @ a # b # c # bs)" by (simp cong: if_cong)
  finally show ?case by simp
qed simp_all

text \<open>
  A signature of Ed25519 has 64 bytes, 21 triples and one byte: two padding characters are stripped
  when it is written, and the reader adds them back.
\<close>

lemma b64_encode_snoc: "length bs mod 3 = 0 \<Longrightarrow> urlsafe_b64encode (bs @ cs) = urlsafe_b64encode bs @ urlsafe_b64encode cs"
proof (induction bs rule: urlsafe_b64encode.induct)
  case (4 a b c bs)
  then show ?case by (simp add: mod_Suc split: if_splits)
qed simp_all

theorem b64_roundtrip:
  assumes "length bs mod 3 = 1"
  shows "urlsafe_b64decode (unpadded (urlsafe_b64encode bs) @ ''=='') = Some bs"
proof -
  from assms have "bs \<noteq> []" by auto
  then obtain cs a where bs: "bs = cs @ [a]" by (metis rev_exhaust)
  have cs: "length cs mod 3 = 0" using assms by (simp add: bs mod_Suc split: if_splits)
  have ends: "urlsafe_b64encode bs = urlsafe_b64encode cs @ [b64_char (unat a div 4), b64_char (unat a mod 4 * 16)] @ ''==''"
    by (simp add: bs b64_encode_snoc [OF cs])
  have "unat a mod 4 * 16 < 64" using byte_parts [of a] by linarith
  then have "unpadded (urlsafe_b64encode bs) @ ''=='' = urlsafe_b64encode bs"
    unfolding ends unpadded_def by (simp add: b64_value_char)
  then show ?thesis
    using b64_whole [OF cs, of "[b64_char (unat a div 4), b64_char (unat a mod 4 * 16)] @ ''==''" 0 0 "[]"] a2b_single [of a]
    by (simp only: urlsafe_b64decode_std ends append_Nil) (simp add: bs)
qed

end
