(* ===== verification/Agent_Actions.thy ===== *)
theory Agent_Actions
  imports Codecs
begin

text \<open>
  The gate for remote actions, \<open>agent/nexus_agent/actions.py\<close>: the signed order, its
  verification, and \<open>SQLiteActionStore\<close>, whose two tables are lists of rows.

  Ed25519, SHA-256 and the JSON codec are parameters (\<open>action_env\<close>); identifiers are 128-bit
  words, text is ASCII, instants are microseconds and timestamps seconds since 1970. A handler
  acts on a world \<open>'w\<close> of its own and may raise. The columns \<open>created_at\<close> and \<open>updated_at\<close>,
  which nothing reads, are left out.
\<close>

section \<open>Orders\<close>

definition ACTION_CATALOG :: "string list" where
  "ACTION_CATALOG =
     [''restart_service'', ''flush_dns'', ''collect_extended_diagnostics'', ''reboot_system'']"

record action_order =
  o_execution_id :: uuid
  o_organization_id :: uuid
  o_device_id :: uuid
  o_nonce :: uuid
  o_action_name :: string
  o_action_version :: int
  o_key_version :: int
  o_issued_at :: string
  o_expires_at :: string
  o_order_digest :: string
  o_signature :: string
  o_parameters :: string

record action_env =
  ed25519_verify :: "bytes \<Rightarrow> bytes \<Rightarrow> bytes \<Rightarrow> bool"
  digest_hex :: "bytes \<Rightarrow> string"
  json_loads :: "string \<Rightarrow> json option"
  json_dumps :: "params \<Rightarrow> string"

datatype action_error = Invalid string | StateChanged

definition signed_lines :: "action_order \<Rightarrow> string list" where
  "signed_lines ord = [''nexus-action:v1'', uuid_str (o_execution_id ord),
     uuid_str (o_organization_id ord), uuid_str (o_device_id ord), o_action_name ord,
     uuid_str (o_nonce ord), int_str (o_key_version ord), o_issued_at ord, o_expires_at ord,
     o_parameters ord]"

definition build_signing_payload :: "action_order \<Rightarrow> bytes" where
  "build_signing_payload ord = encode_utf8 (join_lines (signed_lines ord))"

text \<open>\<open>now\<close> is in microseconds; \<open>None\<close> is a local time without a zone.\<close>

definition verify_order_signature ::
  "action_env \<Rightarrow> action_order \<Rightarrow> (int \<rightharpoonup> bytes) \<Rightarrow> int option \<Rightarrow> int \<Rightarrow> action_error + seconds" where
  "verify_order_signature env ord public_keys now skew =
     (case now of None \<Rightarrow> Inl (Invalid ''naive clock'') | Some effective_now \<Rightarrow>
      (case (parse_utc (o_issued_at ord), parse_utc (o_expires_at ord)) of
         (Some issued_at, Some expires_at) \<Rightarrow>
           if expires_at \<le> issued_at \<or> expires_at - issued_at > 5 * 60
              \<or> issued_at * 1000000 > effective_now + skew * 1000000
              \<or> expires_at * 1000000 < effective_now - skew * 1000000
           then Inl (Invalid ''expired or out of tolerance'')
           else (case public_keys (o_key_version ord) of
               None \<Rightarrow> Inl (Invalid ''unknown key version'')
             | Some public_key \<Rightarrow>
                 if length public_key \<noteq> 32 then Inl (Invalid ''unknown key version'')
                 else (case urlsafe_b64decode (o_signature ord @ ''=='') of
                     None \<Rightarrow> Inl (Invalid ''invalid signature'')
                   | Some signature \<Rightarrow>
                       if ed25519_verify env public_key signature (build_signing_payload ord)
                       then Inr expires_at else Inl (Invalid ''invalid signature'')))
       | _ \<Rightarrow> Inl (Invalid ''invalid timestamp'')))"

definition scalar :: "json \<Rightarrow> bool" where
  "scalar v = (case v of JStr _ \<Rightarrow> True | JBool _ \<Rightarrow> True | JInt _ \<Rightarrow> True | _ \<Rightarrow> False)"

text \<open>The text of a UUID is in lower case, so the second half of the identifier check is void.\<close>

definition validate_order :: "action_env \<Rightarrow> action_order \<Rightarrow> action_error + params" where
  "validate_order env ord =
     (if o_action_name ord \<notin> set ACTION_CATALOG then Inl (Invalid ''action not allowed'')
      else if \<exists>i\<in>set [o_execution_id ord, o_organization_id ord, o_device_id ord, o_nonce ord].
          uuid_version i \<noteq> Some 4 \<or> uuid_str i \<noteq> py_lower (uuid_str i)
      then Inl (Invalid ''invalid identifier'')
      else if o_action_version ord \<noteq> 1 \<or> o_key_version ord < 1
      then Inl (Invalid ''invalid version'')
      else (case json_loads env (o_parameters ord) of
          Some (JObj parameters) \<Rightarrow>
            if \<not> list_all (\<lambda>(_, v). scalar v) parameters then Inl (Invalid ''invalid parameters'')
            else if json_dumps env parameters \<noteq> o_parameters ord
            then Inl (Invalid ''parameters not canonical'')
            else if o_order_digest ord \<noteq> digest_hex env (build_signing_payload ord)
            then Inl (Invalid ''invalid digest'')
            else Inr parameters
        | _ \<Rightarrow> Inl (Invalid ''invalid parameters'')))"

section \<open>The store\<close>

datatype action_status = ACCEPTED | EXECUTING | SUCCEEDED | FAILED | INTERRUPTED | UNKNOWN

record action_row =
  a_order :: action_order
  a_status :: action_status
  a_exit_code :: "int option"
  a_output :: "string option"

record consumed_nonce =
  cn_nonce :: uuid
  cn_expires_at_with_skew :: seconds

text \<open>\<open>as_invoked\<close> records the calls of handlers; no operation reads it.\<close>

record 'w action_store =
  as_nonces :: "consumed_nonce list"
  as_actions :: "action_row list"
  as_world :: 'w
  as_invoked :: "action_order list"

type_synonym 'w handler = "params \<Rightarrow> 'w \<Rightarrow> (string + (int \<times> string)) \<times> 'w"
type_synonym ('w, 'a) aeff = "('w action_store, action_error, 'a) eff"

abbreviation action_id :: "action_row \<Rightarrow> uuid" where
  "action_id r \<equiv> o_execution_id (a_order r)"

abbreviation has_id :: "uuid \<Rightarrow> action_row \<Rightarrow> bool" where
  "has_id i r \<equiv> action_id r = i"

definition new_action :: "action_order \<Rightarrow> action_row" where
  "new_action ord = \<lparr>a_order = ord, a_status = ACCEPTED, a_exit_code = None, a_output = None\<rparr>"

text \<open>
  \<open>accept\<close>: one transaction; the primary keys and the unique nonce of the second table make a
  repeated nonce or identifier an \<open>IntegrityError\<close>, which is answered by False.
\<close>

definition accept :: "action_env \<Rightarrow> action_order \<Rightarrow> seconds \<Rightarrow> ('w, bool) aeff" where
  "accept env ord expires = (case validate_order env ord of
     Inl e \<Rightarrow> raise e
   | Inr _ \<Rightarrow> bindE (reads id) (\<lambda>s.
       if o_nonce ord \<in> cn_nonce ` set (as_nonces s)
          \<or> o_execution_id ord \<in> action_id ` set (as_actions s)
          \<or> o_nonce ord \<in> (\<lambda>r. o_nonce (a_order r)) ` set (as_actions s)
       then ret False
       else bindE (writes (\<lambda>s. s\<lparr>
           as_nonces := as_nonces s @ [\<lparr>cn_nonce = o_nonce ord, cn_expires_at_with_skew = expires\<rparr>],
           as_actions := as_actions s @ [new_action ord]\<rparr>)) (\<lambda>_. ret True)))"

definition verify_and_accept ::
  "action_env \<Rightarrow> action_order \<Rightarrow> (int \<rightharpoonup> bytes) \<Rightarrow> int option \<Rightarrow> ('w, bool) aeff" where
  "verify_and_accept env ord public_keys now =
     (case verify_order_signature env ord public_keys now 60 of
        Inl e \<Rightarrow> raise e
      | Inr expires_at \<Rightarrow> accept env ord (expires_at + 60))"

definition set_status :: "(action_row \<Rightarrow> bool) \<Rightarrow> (action_row \<Rightarrow> action_row) \<Rightarrow> ('w, nat) aeff" where
  "set_status P f = bindE (reads as_actions) (\<lambda>rows.
     bindE (writes (\<lambda>s. s\<lparr>as_actions := update_where P f (as_actions s)\<rparr>)) (\<lambda>_.
       ret (rowcount P rows)))"

definition claim :: "uuid \<Rightarrow> ('w, bool) aeff" where
  "claim i = bindE (set_status (\<lambda>r. has_id i r \<and> a_status r = ACCEPTED)
       (\<lambda>r. r\<lparr>a_status := EXECUTING\<rparr>)) (\<lambda>n. ret (n = 1))"

definition find_action :: "uuid \<Rightarrow> action_row list \<Rightarrow> action_row option" where
  "find_action i rows = first_row (select_where (has_id i) rows)"

definition status :: "uuid \<Rightarrow> ('w, action_status option) aeff" where
  "status i = reads (\<lambda>s. map_option a_status (find_action i (as_actions s)))"

definition load_execution :: "action_env \<Rightarrow> uuid \<Rightarrow> ('w, (string \<times> params) option) aeff" where
  "load_execution env i = bindE (reads (\<lambda>s. find_action i (as_actions s))) (\<lambda>row. case row of
     None \<Rightarrow> ret None
   | Some r \<Rightarrow> (case json_loads env (o_parameters (a_order r)) of
         Some (JObj ps) \<Rightarrow> ret (Some (o_action_name (a_order r), ps))
       | _ \<Rightarrow> raise (Invalid ''stored parameters are not an object'')))"

definition finish :: "uuid \<Rightarrow> action_status \<Rightarrow> int option \<Rightarrow> string \<Rightarrow> ('w, unit) aeff" where
  "finish i st exit_code output =
     (if st \<notin> {SUCCEEDED, FAILED} then raise (Invalid ''invalid terminal state'')
      else bindE (set_status (\<lambda>r. has_id i r \<and> a_status r = EXECUTING)
        (\<lambda>r. r\<lparr>a_status := st, a_exit_code := exit_code, a_output := Some (take 2000 output)\<rparr>)) (\<lambda>n.
          if n \<noteq> 1 then raise StateChanged else ret ()))"

text \<open>
  \<open>execute_once\<close> in the pieces between which the process can die: up to the claim, the call of
  the handler, the recording of its result.
\<close>

definition start_execution ::
  "action_env \<Rightarrow> uuid \<Rightarrow> (string \<rightharpoonup> 'w handler) \<Rightarrow> ('w, ('w handler \<times> params) option) aeff" where
  "start_execution env i handlers = bindE (load_execution env i) (\<lambda>execution. case execution of
     None \<Rightarrow> ret None
   | Some (action_name, parameters) \<Rightarrow>
       (case (if action_name \<in> set ACTION_CATALOG then handlers action_name else None) of
          None \<Rightarrow> raise (Invalid ''action without an authorised handler'')
        | Some handler \<Rightarrow> bindE (claim i) (\<lambda>claimed.
            ret (if claimed then Some (handler, parameters) else None))))"

definition invoke ::
  "uuid \<Rightarrow> 'w handler \<Rightarrow> params \<Rightarrow> ('w, string + (int \<times> string)) aeff" where
  "invoke i handler parameters s = (case handler parameters (as_world s) of
     (r, w) \<Rightarrow> (Inr r, s\<lparr>as_world := w, as_invoked := as_invoked s
       @ map a_order (select_where (has_id i) (as_actions s))\<rparr>))"

definition record_result :: "uuid \<Rightarrow> string + (int \<times> string) \<Rightarrow> ('w, bool) aeff" where
  "record_result i result = (case result of
     Inl exception_name \<Rightarrow> bindE (finish i FAILED None exception_name) (\<lambda>_. ret True)
   | Inr (exit_code, summary) \<Rightarrow>
       bindE (finish i (if exit_code = 0 then SUCCEEDED else FAILED) (Some exit_code) summary)
         (\<lambda>_. ret True))"

definition execute_once :: "action_env \<Rightarrow> uuid \<Rightarrow> (string \<rightharpoonup> 'w handler) \<Rightarrow> ('w, bool) aeff" where
  "execute_once env i handlers = bindE (start_execution env i handlers) (\<lambda>go. case go of
     None \<Rightarrow> ret False
   | Some (handler, parameters) \<Rightarrow>
       bindE (invoke i handler parameters) (\<lambda>result. record_result i result))"

text \<open>\<open>reconcile_after_restart\<close>: two statements, each committed on its own.\<close>

definition mark_unknown :: "('w, nat) aeff" where
  "mark_unknown = set_status (\<lambda>r. a_status r = EXECUTING) (\<lambda>r. r\<lparr>a_status := UNKNOWN\<rparr>)"

definition interrupt_expired :: "seconds \<Rightarrow> ('w, nat) aeff" where
  "interrupt_expired now = bindE (reads as_nonces) (\<lambda>nonces.
     set_status (\<lambda>r. a_status r = ACCEPTED \<and> o_nonce (a_order r)
         \<in> cn_nonce ` {n \<in> set nonces. cn_expires_at_with_skew n \<le> now})
       (\<lambda>r. r\<lparr>a_status := INTERRUPTED\<rparr>))"

definition reconcile_after_restart :: "seconds \<Rightarrow> ('w, unit) aeff" where
  "reconcile_after_restart now = bindE mark_unknown (\<lambda>_. bindE (interrupt_expired now) (\<lambda>_. ret ()))"

lemmas reconcile_defs = reconcile_after_restart_def mark_unknown_def interrupt_expired_def

section \<open>How the store evolves\<close>

lemma wp_set_status [simp]:
  "wp (set_status P f) Q E s =
     Q (rowcount P (as_actions s)) (s\<lparr>as_actions := update_where P f (as_actions s)\<rparr>)"
  by (simp add: set_status_def)

text \<open>
  The steps of the agent process: an order offered to \<open>verify_and_accept\<close>, a complete
  \<open>execute_once\<close>, one that dies after the claim, one that dies inside or right after the handler,
  a restart, one that dies between its two statements, and any change of the world the handlers act on.
\<close>

inductive act_step ::
  "action_env \<Rightarrow> (int \<rightharpoonup> bytes) \<Rightarrow> (string \<rightharpoonup> 'w handler) \<Rightarrow> 'w action_store \<Rightarrow> 'w action_store \<Rightarrow> bool"
  for env keys handlers where
  step_accept: "act_step env keys handlers s (snd (verify_and_accept env ord keys now s))"
| step_execute: "act_step env keys handlers s (snd (execute_once env i handlers s))"
| step_die_claimed: "act_step env keys handlers s (snd (start_execution env i handlers s))"
| step_die_invoked: "start_execution env i handlers s = (Inr (Some (h, ps)), s1) \<Longrightarrow>
    act_step env keys handlers s (snd (invoke i h ps s1))"
| step_restart: "act_step env keys handlers s (snd (reconcile_after_restart now s))"
| step_die_restarting: "act_step env keys handlers s (snd (mark_unknown s))"
| step_world: "act_step env keys handlers s (s\<lparr>as_world := w\<rparr>)"

text \<open>An order is authorised if its signature verified, at some time, and it passed validation.\<close>

definition authorised :: "action_env \<Rightarrow> (int \<rightharpoonup> bytes) \<Rightarrow> action_order \<Rightarrow> bool" where
  "authorised env keys ord \<longleftrightarrow> (\<exists>now t. verify_order_signature env ord keys now 60 = Inr t)
     \<and> (\<exists>ps. validate_order env ord = Inr ps)"

abbreviation row_nonce :: "action_row \<Rightarrow> uuid" where
  "row_nonce r \<equiv> o_nonce (a_order r)"

definition rows_unique :: "'w action_store \<Rightarrow> bool" where
  "rows_unique s \<longleftrightarrow> distinct (map action_id (as_actions s)) \<and> distinct (map row_nonce (as_actions s))
     \<and> row_nonce ` set (as_actions s) \<subseteq> cn_nonce ` set (as_nonces s)"

definition invoked_ok :: "'w action_store \<Rightarrow> bool" where
  "invoked_ok s \<longleftrightarrow> distinct (map o_execution_id (as_invoked s))
     \<and> set (as_invoked s) \<subseteq> a_order ` set (as_actions s)
     \<and> (\<forall>r\<in>set (as_actions s). a_order r \<in> set (as_invoked s) \<longrightarrow> a_status r \<noteq> ACCEPTED)"

definition gate_ok :: "action_env \<Rightarrow> (int \<rightharpoonup> bytes) \<Rightarrow> 'w action_store \<Rightarrow> bool" where
  "gate_ok env keys s \<longleftrightarrow> rows_unique s \<and> invoked_ok s
     \<and> (\<forall>r\<in>set (as_actions s). authorised env keys (a_order r))"

text \<open>A change of status that keeps the order and does not go back to ACCEPTED.\<close>

lemma gate_ok_update:
  assumes ok: "gate_ok env keys s"
    and f: "\<And>r. a_order (f r) = a_order r" "\<And>r. a_status (f r) \<noteq> ACCEPTED"
  shows "gate_ok env keys (s\<lparr>as_actions := update_where P f (as_actions s)\<rparr>)"
proof -
  have ids: "map action_id (update_where P f (as_actions s)) = map action_id (as_actions s)"
    and nonces: "map row_nonce (update_where P f (as_actions s)) = map row_nonce (as_actions s)"
    and ords: "map a_order (update_where P f (as_actions s)) = map a_order (as_actions s)"
    by (simp_all add: map_update_where f)
  from ords have set_ords: "a_order ` set (update_where P f (as_actions s)) = a_order ` set (as_actions s)"
    and set_nonces: "row_nonce ` set (update_where P f (as_actions s)) = row_nonce ` set (as_actions s)"
    using nonces by (metis set_map)+
  have mem: "\<exists>r0\<in>set (as_actions s). a_order r = a_order r0
      \<and> (a_status r = a_status r0 \<or> a_status r \<noteq> ACCEPTED)"
    if "r \<in> set (update_where P f (as_actions s))" for r
    using that by (auto simp: set_update_where f)
  show ?thesis
    using ok mem unfolding gate_ok_def rows_unique_def invoked_ok_def
    by (simp add: ids nonces set_ords set_nonces) metis
qed

lemma keeps_set_status:
  "(\<And>r. a_order (f r) = a_order r) \<Longrightarrow> (\<And>r. a_status (f r) \<noteq> ACCEPTED) \<Longrightarrow>
   keeps (gate_ok env keys) (set_status P f)"
  by (rule keepsI) (simp add: gate_ok_update)

lemma keeps_claim: "keeps (gate_ok env keys) (claim i)"
  unfolding claim_def by (intro keeps_rules keeps_set_status) auto

lemma keeps_finish: "keeps (gate_ok env keys) (finish i st ec output)"
proof (cases "st \<in> {SUCCEEDED, FAILED}")
  case True
  then show ?thesis
    unfolding finish_def by (auto intro!: keeps_rules keeps_set_status)
next
  case False
  then show ?thesis by (simp add: finish_def keeps_raise)
qed

lemma keeps_restart: "keeps (gate_ok env keys) (reconcile_after_restart now)"
  unfolding reconcile_defs by (intro keeps_rules keeps_set_status) auto

lemma keeps_mark_unknown: "keeps (gate_ok env keys) mark_unknown"
  unfolding mark_unknown_def by (intro keeps_set_status) auto

lemma keeps_record: "keeps (gate_ok env keys) (record_result i result)"
  unfolding record_result_def by (rule keeps_rules keeps_finish)+

lemma keeps_load_execution: "keeps P (load_execution env i)"
  unfolding load_execution_def
  by (auto intro!: keeps_rules split: option.splits json.splits)

lemma keeps_start: "keeps (gate_ok env keys) (start_execution env' i handlers)"
  unfolding start_execution_def by (rule keeps_rules keeps_load_execution keeps_claim)+

lemma keeps_verify_and_accept: "keeps (gate_ok env keys) (verify_and_accept env ord keys now)"
proof (rule keepsI)
  fix s :: "'w action_store"
  assume ok: "gate_ok env keys s"
  show "wp (verify_and_accept env ord keys now) (\<lambda>_. gate_ok env keys) (\<lambda>_. gate_ok env keys) s"
  proof (cases "verify_order_signature env ord keys now 60")
    case (Inr t)
    show ?thesis
    proof (cases "validate_order env ord")
      case (Inr ps)
      with \<open>verify_order_signature env ord keys now 60 = Inr t\<close> have "authorised env keys ord"
        by (auto simp: authorised_def)
      with ok Inr \<open>verify_order_signature env ord keys now 60 = Inr t\<close> show ?thesis
        by (auto simp: verify_and_accept_def accept_def wp_if gate_ok_def rows_unique_def
            invoked_ok_def new_action_def)
    qed (use ok Inr in \<open>simp add: verify_and_accept_def accept_def\<close>)
  qed (use ok in \<open>simp add: verify_and_accept_def\<close>)
qed

text \<open>After a successful claim the action is not yet invoked and will not be claimed again.\<close>

definition claimed :: "uuid \<Rightarrow> 'w action_store \<Rightarrow> bool" where
  "claimed i s \<longleftrightarrow> i \<notin> o_execution_id ` set (as_invoked s)
     \<and> (\<forall>r\<in>set (as_actions s). has_id i r \<longrightarrow> a_status r \<noteq> ACCEPTED)"

lemma claim_claims:
  assumes "gate_ok env keys s"
  shows "wp (claim i) (\<lambda>b s'. b \<longrightarrow> claimed i s') (\<lambda>_ _. True) s"
proof -
  have "i \<notin> o_execution_id ` set (as_invoked s)"
    if one: "rowcount (\<lambda>r. has_id i r \<and> a_status r = ACCEPTED) (as_actions s) = 1"
  proof
    assume "i \<in> o_execution_id ` set (as_invoked s)"
    then obtain r0 where r0: "r0 \<in> set (as_actions s)" "a_order r0 \<in> set (as_invoked s)" "has_id i r0"
      using assms by (auto simp: gate_ok_def invoked_ok_def)
    from one obtain r where r: "r \<in> set (as_actions s)" "has_id i r" "a_status r = ACCEPTED"
      using rowcount_pos_iff [of "\<lambda>r. has_id i r \<and> a_status r = ACCEPTED" "as_actions s"] by auto
    have "inj_on action_id (set (as_actions s))"
      using assms by (simp add: gate_ok_def rows_unique_def distinct_map)
    from inj_onD [OF this _ r0(1) r(1)] r0(3) r(2) have "r0 = r" by simp
    with r0 r(3) assms show False by (auto simp: gate_ok_def invoked_ok_def)
  qed
  moreover have "a_status r \<noteq> ACCEPTED"
    if "r \<in> set (update_where (\<lambda>r. has_id i r \<and> a_status r = ACCEPTED)
      (\<lambda>r. r\<lparr>a_status := EXECUTING\<rparr>) (as_actions s))" "has_id i r" for r
  proof -
    from that(1) obtain r0 where "r = (if has_id i r0 \<and> a_status r0 = ACCEPTED
        then r0\<lparr>a_status := EXECUTING\<rparr> else r0)"
      unfolding set_update_where by blast
    with that(2) show ?thesis by (cases "has_id i r0 \<and> a_status r0 = ACCEPTED") simp_all
  qed
  ultimately show ?thesis
    by (simp add: claim_def claimed_def)
qed

lemma invoke_ok:
  assumes ok: "gate_ok env keys s" and c: "claimed i s"
  shows "wp (invoke i h ps) (\<lambda>_. gate_ok env keys) (\<lambda>_. gate_ok env keys) s"
proof -
  obtain r w where hw: "h ps (as_world s) = (r, w)" by fastforce
  define new where "new = map a_order (select_where (has_id i) (as_actions s))"
  have new: "set new \<subseteq> a_order ` set (as_actions s)" "\<forall>ord\<in>set new. o_execution_id ord = i"
    by (auto simp: new_def)
  have "distinct (map o_execution_id new)"
    using ok by (simp add: gate_ok_def rows_unique_def select_where_def distinct_map_filter o_def new_def)
  moreover have "set (map o_execution_id (as_invoked s)) \<inter> set (map o_execution_id new) = {}"
    using new(2) c by (auto simp: claimed_def)
  ultimately have "distinct (map o_execution_id (as_invoked s @ new))"
    using ok by (simp add: gate_ok_def invoked_ok_def)
  moreover have "set (as_invoked s @ new) \<subseteq> a_order ` set (as_actions s)"
    using ok new(1) by (simp add: gate_ok_def invoked_ok_def)
  moreover have "a_status r \<noteq> ACCEPTED"
    if "r \<in> set (as_actions s)" "a_order r \<in> set (as_invoked s @ new)" for r
  proof (cases "a_order r \<in> set new")
    case True
    with new(2) have "has_id i r" by simp
    with c that(1) show ?thesis by (simp add: claimed_def)
  next
    case False
    with that ok show ?thesis by (simp add: gate_ok_def invoked_ok_def)
  qed
  ultimately have "gate_ok env keys (s\<lparr>as_world := w, as_invoked := as_invoked s @ new\<rparr>)"
    using ok unfolding gate_ok_def rows_unique_def invoked_ok_def by simp
  then show ?thesis by (simp add: wp_def invoke_def hw new_def)
qed

lemma wp_load_execution:
  "wp (load_execution env i) (\<lambda>_ s'. s' = s) (\<lambda>_ s'. s' = s) s"
  by (simp add: load_execution_def split: option.splits json.splits)

lemma start_claims:
  assumes "gate_ok env keys s"
  shows "wp (start_execution env' i handlers)
    (\<lambda>go s'. gate_ok env keys s' \<and> (go \<noteq> None \<longrightarrow> claimed i s')) (\<lambda>_. gate_ok env keys) s"
proof -
  have c: "wp (claim i) (\<lambda>b s'. gate_ok env keys s' \<and> (b \<longrightarrow> claimed i s')) (\<lambda>_. gate_ok env keys) s"
    by (rule wp_mono [OF wp_conj [OF keeps_wp [OF keeps_claim assms] claim_claims [OF assms]]]) auto
  show ?thesis
    unfolding start_execution_def wp_bindE
    by (rule wp_mono [OF wp_load_execution])
      (use assms in \<open>auto split: option.splits intro!: wp_mono [OF c]\<close>)
qed

lemma keeps_execute:
  "keeps (gate_ok env keys) (execute_once env' i (handlers :: string \<rightharpoonup> 'w handler))"
proof (rule keepsI)
  fix s :: "'w action_store"
  assume ok: "gate_ok env keys s"
  have body: "wp (bindE (invoke i h ps) (\<lambda>result. record_result i result))
      (\<lambda>_. gate_ok env keys) (\<lambda>_. gate_ok env keys) s1"
    if "gate_ok env keys s1" "claimed i s1" for s1 h ps
    unfolding wp_bindE
    by (rule wp_mono [OF invoke_ok [OF that]]) (auto intro: keeps_wp [OF keeps_record])
  show "wp (execute_once env' i handlers) (\<lambda>_. gate_ok env keys) (\<lambda>_. gate_ok env keys) s"
    unfolding execute_once_def
    by (subst wp_bindE, rule wp_mono [OF start_claims [OF ok]])
      (auto simp del: wp_bindE split: option.splits intro: body)
qed

text \<open>Every step keeps the invariant of the gate.\<close>

lemma act_step_ok: "act_step env keys handlers s s' \<Longrightarrow> gate_ok env keys s \<Longrightarrow> gate_ok env keys s'"
proof (induction rule: act_step.induct)
  case (step_die_invoked i s h ps s1)
  from wp_InrD [OF start_claims [OF step_die_invoked.prems] step_die_invoked.hyps]
  have "gate_ok env keys s1" "claimed i s1" by auto
  from invoke_ok [OF this] show ?case by (rule wp_sndI)
next
  case (step_world s w)
  then show ?case by (simp add: gate_ok_def rows_unique_def invoked_ok_def)
qed (auto intro: keepsD [OF keeps_verify_and_accept] keepsD [OF keeps_execute]
    keepsD [OF keeps_start] keepsD [OF keeps_restart] keepsD [OF keeps_mark_unknown])

definition empty_store :: "'w \<Rightarrow> 'w action_store" where
  "empty_store w = \<lparr>as_nonces = [], as_actions = [], as_world = w, as_invoked = []\<rparr>"

lemma reachable_ok:
  assumes "(act_step env keys handlers)\<^sup>*\<^sup>* s s'" and "gate_ok env keys s"
  shows "gate_ok env keys s'"
  using assms by (induction rule: rtranclp_induct) (auto intro: act_step_ok)

section \<open>Properties\<close>

text \<open>Property C2. At most once, and only authorised orders: in every reachable state of the agent, whatever
  orders the server offers and wherever the process dies, no action and no nonce has had a handler
  invoked twice, and every invocation was for a stored order whose signature verified within its
  time window and whose content passed validation.\<close>

theorem at_most_once:
  assumes "(act_step env keys handlers)\<^sup>*\<^sup>* (empty_store w) s"
  shows "distinct (map o_execution_id (as_invoked s)) \<and> distinct (map o_nonce (as_invoked s))
    \<and> (\<forall>ord\<in>set (as_invoked s). authorised env keys ord)"
proof -
  have "gate_ok env keys (empty_store w)"
    by (simp add: gate_ok_def rows_unique_def invoked_ok_def empty_store_def)
  from reachable_ok [OF assms this] have ok: "gate_ok env keys s" .
  then have sub: "set (as_invoked s) \<subseteq> a_order ` set (as_actions s)"
    and d: "distinct (as_invoked s)"
    by (auto simp: gate_ok_def invoked_ok_def distinct_map)
  have "inj_on row_nonce (set (as_actions s))"
    using ok by (simp add: gate_ok_def rows_unique_def distinct_map)
  then have "inj_on o_nonce (set (as_invoked s))"
    by (intro inj_onI) (use sub in \<open>blast dest: inj_onD\<close>)
  with d have "distinct (map o_nonce (as_invoked s))" by (simp add: distinct_map)
  with ok sub show ?thesis by (auto simp: gate_ok_def invoked_ok_def)
qed

lemma verify_signature_InrD:
  assumes "verify_order_signature env ord keys now skew = Inr t"
  obtains n issued key signature where "now = Some n" "parse_utc (o_issued_at ord) = Some issued"
    "parse_utc (o_expires_at ord) = Some t" "issued < t" "t \<le> issued + 300"
    "issued * 1000000 \<le> n + skew * 1000000" "n \<le> t * 1000000 + skew * 1000000"
    "keys (o_key_version ord) = Some key" "length key = 32"
    "urlsafe_b64decode (o_signature ord @ ''=='') = Some signature"
    "ed25519_verify env key signature (build_signing_payload ord)"
  using assms unfolding verify_order_signature_def
  by (auto split: option.splits if_splits)

lemma validate_order_InrD:
  assumes "validate_order env ord = Inr ps"
  shows "o_action_name ord \<in> set ACTION_CATALOG" "o_action_version ord = 1" "1 \<le> o_key_version ord"
    "uuid_version (o_execution_id ord) = Some 4" "uuid_version (o_nonce ord) = Some 4"
    "json_loads env (o_parameters ord) = Some (JObj ps)" "json_dumps env ps = o_parameters ord"
    "o_order_digest ord = digest_hex env (build_signing_payload ord)"
  using assms unfolding validate_order_def
  by (auto split: option.splits json.splits if_splits)

text \<open>What a call of \<open>verify_and_accept\<close> can do to the store.\<close>

lemma acceptance_cases:
  assumes "verify_and_accept env ord keys now s = (res, s')"
  shows "(res = Inr True \<and> o_nonce ord \<notin> cn_nonce ` set (as_nonces s)
      \<and> o_execution_id ord \<notin> action_id ` set (as_actions s)) \<or> (res \<noteq> Inr True \<and> s' = s)"
  using assms
  by (auto simp: verify_and_accept_def accept_def eff_defs split: if_splits sum.splits)

text \<open>What the gate demands of an order, condition by condition; \<open>t\<close> is its time of expiry.\<close>

definition acceptable :: "action_env \<Rightarrow> (int \<rightharpoonup> bytes) \<Rightarrow> int option \<Rightarrow> action_order \<Rightarrow> seconds \<Rightarrow> bool" where
  "acceptable env keys now ord t \<longleftrightarrow>
     (\<exists>n issued. now = Some n \<and> parse_utc (o_issued_at ord) = Some issued
        \<and> parse_utc (o_expires_at ord) = Some t \<and> issued < t \<and> t \<le> issued + 300
        \<and> issued * 1000000 \<le> n + 60000000 \<and> n - 60000000 \<le> t * 1000000)
   \<and> (\<exists>key signature. keys (o_key_version ord) = Some key \<and> length key = 32
        \<and> urlsafe_b64decode (o_signature ord @ ''=='') = Some signature
        \<and> ed25519_verify env key signature (build_signing_payload ord))
   \<and> o_action_name ord \<in> set ACTION_CATALOG
   \<and> (\<forall>i\<in>{o_execution_id ord, o_organization_id ord, o_device_id ord, o_nonce ord}. uuid_version i = Some 4)
   \<and> o_action_version ord = 1 \<and> 1 \<le> o_key_version ord
   \<and> (\<exists>ps. json_loads env (o_parameters ord) = Some (JObj ps) \<and> (\<forall>(k, v)\<in>set ps. scalar v)
        \<and> json_dumps env ps = o_parameters ord)
   \<and> o_order_digest ord = digest_hex env (build_signing_payload ord)"

definition unused :: "action_order \<Rightarrow> 'w action_store \<Rightarrow> bool" where
  "unused ord s \<longleftrightarrow> o_nonce ord \<notin> cn_nonce ` set (as_nonces s)
     \<and> o_execution_id ord \<notin> action_id ` set (as_actions s) \<and> o_nonce ord \<notin> row_nonce ` set (as_actions s)"

lemma uuid_str_lower: "py_lower (uuid_str w) = uuid_str w"
proof -
  have "\<not> is_upper (hex_digit n)" if "n < 16" for n
    using that by (auto simp: is_upper_def hex_digit_def take_bit_eq_mod)
  then have hex: "list_all (\<lambda>c. \<not> is_upper c) (hex_range w hi lo)" for hi lo
    by (simp add: hex_range_def list_all_iff nibble_lt)
  have "\<not> is_upper (CHR ''-'')" by code_simp
  with hex have "list_all (\<lambda>c. \<not> is_upper c) (uuid_str w)"
    by (simp add: uuid_str_def)
  then show ?thesis unfolding py_lower_def by (intro map_idI) (simp add: list_all_iff)
qed

lemma acceptable_iff:
  "acceptable env keys now ord t \<longleftrightarrow>
     verify_order_signature env ord keys now 60 = Inr t \<and> (\<exists>ps. validate_order env ord = Inr ps)"
proof -
  have "(\<exists>ps. validate_order env ord = Inr ps) \<longleftrightarrow> o_action_name ord \<in> set ACTION_CATALOG
     \<and> (\<forall>i\<in>{o_execution_id ord, o_organization_id ord, o_device_id ord, o_nonce ord}. uuid_version i = Some 4)
     \<and> o_action_version ord = 1 \<and> 1 \<le> o_key_version ord
     \<and> (\<exists>ps. json_loads env (o_parameters ord) = Some (JObj ps) \<and> (\<forall>(k, v)\<in>set ps. scalar v)
          \<and> json_dumps env ps = o_parameters ord)
     \<and> o_order_digest ord = digest_hex env (build_signing_payload ord)"
    unfolding validate_order_def list_all_iff
    by (auto simp: uuid_str_lower split: option.splits json.splits)
  moreover have "verify_order_signature env ord keys now 60 = Inr t \<longleftrightarrow>
     (\<exists>n issued. now = Some n \<and> parse_utc (o_issued_at ord) = Some issued
        \<and> parse_utc (o_expires_at ord) = Some t \<and> issued < t \<and> t \<le> issued + 300
        \<and> issued * 1000000 \<le> n + 60000000 \<and> n - 60000000 \<le> t * 1000000)
   \<and> (\<exists>key signature. keys (o_key_version ord) = Some key \<and> length key = 32
        \<and> urlsafe_b64decode (o_signature ord @ ''=='') = Some signature
        \<and> ed25519_verify env key signature (build_signing_payload ord))"
    unfolding verify_order_signature_def by (auto split: option.splits)
  ultimately show ?thesis unfolding acceptable_def by blast
qed

text \<open>Property C5. What acceptance means, exactly. \<open>verify_and_accept\<close> answers True if and only if the order meets
  every demand of the gate and its nonce and identifier are new: a window of at most 300 seconds that
  contains the present up to a minute, a known 32-byte key with a valid signature over the payload, a
  catalogued action, four version 4 identifiers, the versions of action and key, a canonical object of
  scalars as parameters, and its digest. It answers False if and only if the order meets the demands and
  its nonce or identifier is used. Otherwise it raises. True adds exactly one nonce with its expiry and
  one ACCEPTED row; False and errors leave the store unchanged.\<close>

theorem acceptance:
  assumes "verify_and_accept env ord keys now s = (res, s')"
  shows "(res = Inr True \<longleftrightarrow> (\<exists>t. acceptable env keys now ord t) \<and> unused ord s)
    \<and> (res = Inr False \<longleftrightarrow> (\<exists>t. acceptable env keys now ord t) \<and> \<not> unused ord s)
    \<and> (res = Inr True \<longrightarrow> (\<exists>t. acceptable env keys now ord t \<and> s' = s\<lparr>
          as_nonces := as_nonces s @ [\<lparr>cn_nonce = o_nonce ord, cn_expires_at_with_skew = t + 60\<rparr>],
          as_actions := as_actions s @ [\<lparr>a_order = ord, a_status = ACCEPTED, a_exit_code = None, a_output = None\<rparr>]\<rparr>))
    \<and> (res \<noteq> Inr True \<longrightarrow> s' = s)"
  using assms unfolding acceptable_iff unused_def
  by (auto simp: verify_and_accept_def accept_def eff_defs new_action_def split: sum.splits if_splits)

text \<open>The moves of the status of an action.\<close>

definition status_moves :: "(action_status \<times> action_status) set" where
  "status_moves = {(ACCEPTED, EXECUTING), (ACCEPTED, SUCCEEDED), (ACCEPTED, FAILED),
     (ACCEPTED, INTERRUPTED), (ACCEPTED, UNKNOWN), (EXECUTING, SUCCEEDED), (EXECUTING, FAILED),
     (EXECUTING, UNKNOWN)}"

definition row_evolves :: "action_row \<Rightarrow> action_row \<Rightarrow> bool" where
  "row_evolves r r' \<longleftrightarrow> a_order r' = a_order r
     \<and> (r' = r \<or> (a_status r, a_status r') \<in> status_moves)"

abbreviation rows_evolve :: "action_row list \<Rightarrow> action_row list \<Rightarrow> bool" where
  "rows_evolve \<equiv> table_evolves row_evolves"

lemma row_evolves_refl [simp]: "row_evolves r r"
  by (simp add: row_evolves_def)

lemma row_evolves_trans: "row_evolves r s \<Longrightarrow> row_evolves s t \<Longrightarrow> row_evolves r t"
  by (auto simp: row_evolves_def status_moves_def)

lemma rows_evolve_refl [simp]: "rows_evolve rows rows"
  by (simp add: table_evolves_refl)

lemma rows_evolve_trans: "rows_evolve a b \<Longrightarrow> rows_evolve b c \<Longrightarrow> rows_evolve a c"
  by (rule table_evolves_trans [of row_evolves]) (auto intro: row_evolves_trans)

lemma rows_evolve_update:
  "(\<And>r. P r \<Longrightarrow> row_evolves r (f r)) \<Longrightarrow> rows_evolve rows (update_where P f rows)"
  by (rule table_evolves_update) auto

lemma rows_evolve_append [simp]: "rows_evolve rows (rows @ new)"
  by (simp add: table_evolves_append)

abbreviation evolved_from :: "action_row list \<Rightarrow> 'w action_store \<Rightarrow> bool" where
  "evolved_from rows s \<equiv> rows_evolve rows (as_actions s)"

lemma keeps_evolved_status:
  "(\<And>r. P r \<Longrightarrow> row_evolves r (f r)) \<Longrightarrow> keeps (evolved_from rows) (set_status P f)"
  by (rule keepsI) (auto intro: rows_evolve_trans [OF _ rows_evolve_update])

lemma keeps_evolved_finish: "keeps (evolved_from rows) (finish i st ec output)"
proof (cases "st \<in> {SUCCEEDED, FAILED}")
  case True
  then show ?thesis
    unfolding finish_def
    by (auto intro!: keeps_rules keeps_evolved_status simp: row_evolves_def status_moves_def)
next
  case False
  then show ?thesis by (simp add: finish_def keeps_raise)
qed

lemma keeps_evolved_start: "keeps (evolved_from rows) (start_execution env i handlers)"
  unfolding start_execution_def claim_def
  by (rule keeps_rules keeps_load_execution keeps_evolved_status
      | simp add: row_evolves_def status_moves_def)+

lemma keeps_evolved_invoke: "keeps (evolved_from rows) (invoke i h ps)"
  by (simp add: keeps_def invoke_def split: prod.splits)

lemma keeps_evolved_execute: "keeps (evolved_from rows) (execute_once env i handlers)"
  unfolding execute_once_def record_result_def
  by (rule keeps_rules keeps_evolved_start keeps_evolved_invoke keeps_evolved_finish)+

lemma keeps_evolved_restart: "keeps (evolved_from rows) (reconcile_after_restart now)"
  unfolding reconcile_defs
  by (rule keeps_rules keeps_evolved_status | simp add: row_evolves_def status_moves_def)+

lemma keeps_evolved_unknown: "keeps (evolved_from rows) mark_unknown"
  unfolding mark_unknown_def
  by (rule keeps_rules keeps_evolved_status | simp add: row_evolves_def status_moves_def)+

lemma keeps_evolved_accept: "keeps (evolved_from rows) (verify_and_accept env ord keys now)"
  unfolding verify_and_accept_def accept_def
  by (rule keeps_rules | simp add: rows_evolve_trans [OF _ rows_evolve_append])+

text \<open>Property C20. The life of an action is a path through ACCEPTED, EXECUTING and a final state: along any
  run, rows are only added, no row changes its order, and a row that changes at all moves forward;
  SUCCEEDED, FAILED, INTERRUPTED and UNKNOWN rows keep their state, exit code and output for ever.\<close>

theorem status_moves_forward:
  assumes "(act_step env keys handlers)\<^sup>*\<^sup>* s s'"
  shows "rows_evolve (as_actions s) (as_actions s')"
  using assms
proof (induction rule: rtranclp_induct)
  case base
  show ?case by simp
next
  case (step t u)
  from step.hyps(2) have "rows_evolve (as_actions t) (as_actions u)"
  proof (cases rule: act_step.cases)
    case (step_die_invoked i h ps s1)
    have "evolved_from (as_actions t) s1"
      using wp_InrD [OF keeps_wp [OF keeps_evolved_start] step_die_invoked(2)] by simp
    then show ?thesis
      unfolding step_die_invoked(1) by (rule keepsD [OF keeps_evolved_invoke])
  qed (auto intro: keepsD [OF keeps_evolved_accept] keepsD [OF keeps_evolved_execute]
      keepsD [OF keeps_evolved_start] keepsD [OF keeps_evolved_restart] keepsD [OF keeps_evolved_unknown])
  with step.IH show ?case by (rule rows_evolve_trans)
qed

section \<open>The signed text determines the order\<close>

definition no_newline :: "string \<Rightarrow> bool" where
  "no_newline s \<longleftrightarrow> CHR 10 \<notin> set s"

lemma hex_digit_not: "n < 16 \<Longrightarrow> hex_digit n \<noteq> CHR 10"
  by (auto simp: hex_digit_def dest!: arg_cong [where f = "of_char :: char \<Rightarrow> nat"])

lemma no_newline_uuid: "no_newline (uuid_str w)"
  by (auto simp: no_newline_def uuid_str_def hex_range_def hex_digit_not nibble_lt
     dest!: hex_digit_not [OF nibble_lt, THEN not_sym, THEN notE])

lemma digits_of_digits: "list_all is_digit (digits_of n)"
proof (induction n rule: digits_of.induct)
  case (1 n)
  show ?case
    by (subst digits_of.simps) (use 1 in \<open>auto simp: list_all_iff is_digit_def take_bit_eq_mod\<close>)
qed

definition digits_value :: "string \<Rightarrow> nat" where
  "digits_value s = foldl (\<lambda>n c. 10 * n + (ord_of c - 48)) 0 s"

lemma digits_value: "digits_value (digits_of n) = n"
proof (induction n rule: digits_of.induct)
  case (1 n)
  show ?case
    by (subst digits_of.simps) (use 1 in \<open>auto simp: digits_value_def take_bit_eq_mod\<close>)
qed

lemma int_str_inj: "0 \<le> i \<Longrightarrow> 0 \<le> j \<Longrightarrow> int_str i = int_str j \<Longrightarrow> i = j"
  using digits_value by (auto simp: int_str_def split: if_splits) (metis digits_value nat_eq_iff2)

lemma digits_no_newline: "list_all is_digit s \<Longrightarrow> no_newline s"
  by (auto simp: no_newline_def list_all_iff is_digit_def dest: bspec)

lemma no_newline_int: "no_newline (int_str i)"
  using digits_no_newline [OF digits_of_digits] by (auto simp: int_str_def no_newline_def)

lemma cut_SomeD:
  "cut sep s = Some (a, b) \<Longrightarrow> \<exists>c. s = a @ c # b \<and> py_upper [c] = [sep]"
  by (induction s arbitrary: a) (auto split: if_splits)

lemma cut_no_newline:
  assumes "cut sep s = Some (a, b)" "no_newline a" "no_newline b" "sep \<noteq> CHR 10"
  shows "no_newline s"
proof -
  obtain c where "s = a @ c # b" "py_upper [c] = [sep]" using cut_SomeD [OF assms(1)] by blast
  moreover have "py_upper [CHR 10] = [CHR 10]" by code_simp
  ultimately show ?thesis using assms by (auto simp: no_newline_def)
qed

lemma number_no_newline: "number s = Some n \<Longrightarrow> no_newline s" "short_number s = Some n \<Longrightarrow> no_newline s"
  by (auto simp: number_def short_number_def digits_no_newline split: if_splits)

lemma day_number_no_newline: "day_number s = Some n \<Longrightarrow> no_newline s"
  unfolding day_number_def
  by (auto simp: no_newline_def split: list.splits if_splits dest!: number_no_newline)

lemma parse_utc_no_newline:
  assumes "parse_utc s = Some t"
  shows "no_newline s"
proof -
  from assms obtain ys s1 ms s2 ds s3 hs s4 ns s5 ss y m d hh mm sec where
    c: "cut CHR ''-'' s = Some (ys, s1)" "cut CHR ''-'' s1 = Some (ms, s2)"
      "cut CHR ''T'' s2 = Some (ds, s3)" "cut CHR '':'' s3 = Some (hs, s4)"
      "cut CHR '':'' s4 = Some (ns, s5)" "cut CHR ''Z'' s5 = Some (ss, [])"
    and n: "number ys = Some y" "short_number ms = Some m" "day_number ds = Some d"
      "short_number hs = Some hh" "short_number ns = Some mm" "short_number ss = Some sec"
    unfolding parse_utc_def by (auto simp: bind_eq_Some_conv split: if_splits)
  note f = number_no_newline(1) [OF n(1)] number_no_newline(2) [OF n(2)] day_number_no_newline [OF n(3)]
    number_no_newline(2) [OF n(4)] number_no_newline(2) [OF n(5)] number_no_newline(2) [OF n(6)]
  have "no_newline s5" by (rule cut_no_newline [OF c(6) f(6)]) (simp_all add: no_newline_def)
  note cut_no_newline [OF c(5) f(5) this, simplified]
  note cut_no_newline [OF c(4) f(4) this, simplified]
  note cut_no_newline [OF c(3) f(3) this, simplified]
  note cut_no_newline [OF c(2) f(2) this, simplified]
  from cut_no_newline [OF c(1) f(1) this] show ?thesis by simp
qed

lemma join_lines_eqD:
  assumes "join_lines (a # as) = join_lines (b # bs)" and "no_newline a" "no_newline b"
    and "as \<noteq> []" "bs \<noteq> []"
  shows "a = b \<and> join_lines as = join_lines bs"
proof -
  from assms(4,5) obtain a1 as1 b1 bs1 where e: "as = a1 # as1" "bs = b1 # bs1"
    by (cases as; cases bs) auto
  with assms(1) have eq: "a @ CHR 10 # join_lines as = b @ CHR 10 # join_lines bs" by simp
  have "takeWhile ((\<noteq>) (CHR 10)) (a @ CHR 10 # x) = a" "dropWhile ((\<noteq>) (CHR 10)) (a @ CHR 10 # x) = CHR 10 # x"
    if "no_newline a" for a x
    using that by (auto simp: no_newline_def takeWhile_append dropWhile_append)
  from this(1) [OF assms(2)] this(1) [OF assms(3)] this(2) [OF assms(2)] this(2) [OF assms(3)] eq
  show ?thesis by (metis list.inject)
qed

lemma join_lines_inj:
  assumes "length as = length bs" and "as \<noteq> []"
    and "list_all no_newline (butlast as)" "list_all no_newline (butlast bs)"
    and "join_lines as = join_lines bs"
  shows "as = bs"
  using assms
proof (induction as bs rule: list_induct2)
  case (Cons a as b bs)
  show ?case
  proof (cases "as = []")
    case True
    with Cons show ?thesis by simp
  next
    case False
    with Cons.hyps have ne: "bs \<noteq> []" by auto
    with False Cons.prems have "a = b \<and> join_lines as = join_lines bs"
      by (intro join_lines_eqD) auto
    with Cons False ne show ?thesis by auto
  qed
qed simp

lemma encode_utf8_inj: "encode_utf8 s = encode_utf8 t \<Longrightarrow> s = t"
proof -
  have "inj (\<lambda>c :: char. of_nat (ord_of c) :: byte)"
  proof (rule injI)
    fix c d :: char
    assume "(of_nat (ord_of c) :: byte) = of_nat (ord_of d)"
    then have "unat (of_nat (ord_of c) :: byte) = unat (of_nat (ord_of d) :: byte)" by simp
    then show "c = d" by (simp add: unat_of_nat)
  qed
  then show "encode_utf8 s = encode_utf8 t \<Longrightarrow> s = t"
    by (simp add: encode_utf8_def inj_map_eq_map)
qed

lemma catalog_no_newline: "a \<in> set ACTION_CATALOG \<Longrightarrow> no_newline a"
  by (auto simp: ACTION_CATALOG_def no_newline_def)

text \<open>Property C6. The signature covers the whole order: two authorised orders with the same signing payload
  agree in every field (identifiers, organisation, device, nonce, action, versions, window,
  parameters and digest) except the signature itself. The text of the payload is unambiguous, no
  field can be shifted into another.\<close>

theorem signature_binds_order:
  assumes a: "authorised env keys a" and b: "authorised env keys b"
    and eq: "build_signing_payload a = build_signing_payload b"
  shows "a\<lparr>o_signature := sig\<rparr> = b\<lparr>o_signature := sig\<rparr>"
proof -
  have lines: "no_newline (o_action_name x) \<and> no_newline (o_issued_at x) \<and> no_newline (o_expires_at x)
      \<and> o_action_version x = 1 \<and> 1 \<le> o_key_version x
      \<and> o_order_digest x = digest_hex env (build_signing_payload x)"
    if "authorised env keys x" for x
    using that unfolding authorised_def
    by (elim conjE exE verify_signature_InrD)
      (simp add: validate_order_InrD catalog_no_newline parse_utc_no_newline)
  note la = lines [OF a] and lb = lines [OF b]
  have "join_lines (signed_lines a) = join_lines (signed_lines b)"
    using eq by (auto simp: build_signing_payload_def dest: encode_utf8_inj)
  moreover have "list_all no_newline (butlast (signed_lines x))" if "authorised env keys x" for x
    using lines [OF that] by (simp add: signed_lines_def no_newline_uuid no_newline_int)
      (simp add: no_newline_def)
  ultimately have sl: "signed_lines a = signed_lines b"
    using a b by (intro join_lines_inj) (auto simp: signed_lines_def)
  then have "o_key_version a = o_key_version b"
    using la lb by (intro int_str_inj) (auto simp: signed_lines_def)
  with sl la lb eq show ?thesis
    by (cases a; cases b) (auto simp: signed_lines_def dest: uuid_str_inj int_str_inj)
qed

section \<open>Execution and restart\<close>

text \<open>An action that is not ACCEPTED is not started.\<close>

lemma start_only_accepted:
  assumes "find_action i (as_actions s) = Some r" and "a_status r \<noteq> ACCEPTED"
    and "distinct (map action_id (as_actions s))"
  shows "wp (start_execution env i handlers) (\<lambda>go s'. go = None \<and> s' = s) (\<lambda>_ s'. s' = s) s"
proof -
  have r: "r \<in> set (as_actions s)" "has_id i r"
    using first_row_SomeD [OF assms(1) [unfolded find_action_def]] by auto
  have none: "\<not> (has_id i x \<and> a_status x = ACCEPTED)" if "x \<in> set (as_actions s)" for x
    using assms(3) r that assms(2) by (auto simp: distinct_map inj_on_def)
  then have "rowcount (\<lambda>x. has_id i x \<and> a_status x = ACCEPTED) (as_actions s) = 0"
    by (simp add: rowcount_def filter_empty_conv)
  moreover have "update_where (\<lambda>x. has_id i x \<and> a_status x = ACCEPTED)
      (\<lambda>r. r\<lparr>a_status := EXECUTING\<rparr>) (as_actions s) = as_actions s"
    by (rule update_where_id) (rule none)
  ultimately show ?thesis
    unfolding start_execution_def wp_bindE
    by (intro wp_mono [OF wp_load_execution]) (auto simp: claim_def split: option.splits)
qed

text \<open>A restart never resumes a half-done action: after \<open>reconcile_after_restart\<close> no action is
  EXECUTING, those that were are UNKNOWN, an ACCEPTED one whose nonce has expired is INTERRUPTED,
  and calling \<open>execute_once\<close> for any of them neither invokes a handler nor changes the store.\<close>

theorem restart_never_resumes:
  assumes ok: "gate_ok env keys s" and run: "reconcile_after_restart now s = (res, s')"
  shows "res = Inr () \<and> as_invoked s' = as_invoked s
    \<and> (\<forall>r\<in>set (as_actions s'). a_status r \<noteq> EXECUTING)
    \<and> (\<forall>r\<in>set (as_actions s). a_status r = EXECUTING \<longrightarrow> r\<lparr>a_status := UNKNOWN\<rparr> \<in> set (as_actions s'))
    \<and> (\<forall>r\<in>set (as_actions s). a_status r = ACCEPTED \<and>
        row_nonce r \<in> cn_nonce ` {n \<in> set (as_nonces s). cn_expires_at_with_skew n \<le> now}
        \<longrightarrow> r\<lparr>a_status := INTERRUPTED\<rparr> \<in> set (as_actions s'))
    \<and> (\<forall>i r handlers. find_action i (as_actions s') = Some r \<and> a_status r \<noteq> ACCEPTED
        \<longrightarrow> snd (execute_once env' i handlers s') = s' \<and> fst (execute_once env' i handlers s') \<noteq> Inr True)"
proof -
  have ok': "gate_ok env keys s'"
    using keepsD [OF keeps_restart ok, of now] run by simp
  have once: "snd (execute_once env' i handlers s') = s' \<and> fst (execute_once env' i handlers s') \<noteq> Inr True"
    if "find_action i (as_actions s') = Some r" "a_status r \<noteq> ACCEPTED" for i r handlers
  proof -
    have "distinct (map action_id (as_actions s'))"
      using ok' by (simp add: gate_ok_def rows_unique_def)
    from start_only_accepted [OF that this]
    have "wp (execute_once env' i handlers) (\<lambda>b t. t = s' \<and> b = False) (\<lambda>_ t. t = s') s'"
      unfolding execute_once_def wp_bindE by (rule wp_mono) auto
    then show ?thesis by (auto simp: wp_def split: prod.splits sum.splits)
  qed
  from run have "res = Inr ()" "as_invoked s' = as_invoked s" and rows:
    "as_actions s' = update_where (\<lambda>r. a_status r = ACCEPTED \<and> row_nonce r
        \<in> cn_nonce ` {n \<in> set (as_nonces s). cn_expires_at_with_skew n \<le> now})
        (\<lambda>r. r\<lparr>a_status := INTERRUPTED\<rparr>)
      (update_where (\<lambda>r. a_status r = EXECUTING) (\<lambda>r. r\<lparr>a_status := UNKNOWN\<rparr>) (as_actions s))"
    by (auto simp: reconcile_defs set_status_def eff_defs)
  with once show ?thesis
    by (auto simp: set_update_where image_iff split: if_splits)
qed

lemma only_row:
  assumes "distinct (map action_id rows)" and "r \<in> set rows" and "x \<in> set rows"
  shows "action_id x = action_id r \<longleftrightarrow> x = r"
  using assms by (auto simp: distinct_map inj_on_def)

lemma rowcount_only:
  assumes "distinct (map action_id rows)" and "r \<in> set rows" and "P r"
  shows "rowcount (\<lambda>x. has_id (action_id r) x \<and> P x) rows = 1"
proof -
  have "filter (\<lambda>x. has_id (action_id r) x \<and> P x) rows = filter (has_id (action_id r)) rows"
    using only_row [OF assms(1,2)] assms(3) by (intro filter_cong) auto
  then show ?thesis using rowcount_key [OF assms(1,2)] by (simp add: rowcount_def)
qed

lemma select_only:
  assumes "distinct (map action_id rows)" and "r \<in> set rows"
  shows "select_where (has_id (action_id r)) rows = [r]"
proof -
  have "length (select_where (has_id (action_id r)) rows) = 1"
    using rowcount_key [OF assms] by (simp add: rowcount_def select_where_def)
  then obtain x where x: "select_where (has_id (action_id r)) rows = [x]"
    by (auto simp: length_Suc_conv)
  then have "x \<in> set (select_where (has_id (action_id r)) rows)" by simp
  then have "x = r" using only_row [OF assms] by auto
  with x show ?thesis by simp
qed

lemma update_only_twice:
  assumes "distinct (map action_id rows)" and "r \<in> set rows" and "Q r"
    and f: "\<And>x. a_order (f x) = a_order x" and "P (f r)"
  shows "update_where (\<lambda>x. has_id (action_id r) x \<and> P x) g
      (update_where (\<lambda>x. has_id (action_id r) x \<and> Q x) f rows)
    = update_where (\<lambda>x. x = r) (\<lambda>x. g (f x)) rows"
  unfolding update_where_def map_map o_def
  using only_row [OF assms(1,2)] assms(3,5) by (intro map_cong refl) (auto simp: f)

text \<open>The row that \<open>execute_once\<close> leaves for a result of the handler.\<close>

fun executed :: "string + (int \<times> string) \<Rightarrow> action_row \<Rightarrow> action_row" where
  "executed (Inl exception_name) r =
     r\<lparr>a_status := FAILED, a_exit_code := None, a_output := Some (take 2000 exception_name)\<rparr>"
| "executed (Inr (exit_code, summary)) r =
     r\<lparr>a_status := (if exit_code = 0 then SUCCEEDED else FAILED), a_exit_code := Some exit_code,
       a_output := Some (take 2000 summary)\<rparr>"

lemma executed_fun:
  "executed (Inl e) = (\<lambda>r. r\<lparr>a_status := FAILED, a_exit_code := None, a_output := Some (take 2000 e)\<rparr>)"
  "executed (Inr (c, m)) = (\<lambda>r. r\<lparr>a_status := (if c = 0 then SUCCEEDED else FAILED),
     a_exit_code := Some c, a_output := Some (take 2000 m)\<rparr>)"
  by (rule ext, simp)+

text \<open>A complete execution of an ACCEPTED action calls its handler exactly once with the stored
  parameters and records the outcome in its row, and in no other: SUCCEEDED for exit code 0, FAILED
  for any other exit code and for an exception (with its name as output), the output cut at 2000
  characters.\<close>

theorem execute_once_records:
  assumes ok: "gate_ok env keys s" and row: "find_action i (as_actions s) = Some r"
    and acc: "a_status r = ACCEPTED" and ps: "json_loads env (o_parameters (a_order r)) = Some (JObj ps)"
    and h: "handlers (o_action_name (a_order r)) = Some h" "h ps (as_world s) = (result, w)"
  shows "\<exists>s'. execute_once env i handlers s = (Inr True, s')
    \<and> as_world s' = w \<and> as_invoked s' = as_invoked s @ [a_order r]
    \<and> as_nonces s' = as_nonces s
    \<and> as_actions s' = update_where (\<lambda>x. x = r) (executed result) (as_actions s)"
proof -
  have r: "r \<in> set (as_actions s)" "action_id r = i"
    using first_row_SomeD [OF row [unfolded find_action_def]] by auto
  have d: "distinct (map action_id (as_actions s))"
    using ok by (simp add: gate_ok_def rows_unique_def)
  have cat: "o_action_name (a_order r) \<in> set ACTION_CATALOG"
    using ok r validate_order_InrD(1) unfolding gate_ok_def authorised_def by blast
  let ?claim = "\<lambda>x. x\<lparr>a_status := EXECUTING\<rparr>"
  let ?rows = "update_where (\<lambda>x. has_id i x \<and> a_status x = ACCEPTED) ?claim (as_actions s)"
  have ids: "map action_id ?rows = map action_id (as_actions s)" by (simp add: map_update_where)
  have mem: "?claim r \<in> set ?rows"
    using r acc by (auto simp: set_update_where)
  have one: "rowcount (\<lambda>x. has_id i x \<and> a_status x = ACCEPTED) (as_actions s) = 1"
    using rowcount_only [OF d r(1), of "\<lambda>x. a_status x = ACCEPTED"] r(2) acc by simp
  have d': "distinct (map action_id ?rows)" using d ids by simp
  have two: "rowcount (\<lambda>x. has_id i x \<and> a_status x = EXECUTING) ?rows = 1"
    using rowcount_only [OF d' mem, of "\<lambda>x. a_status x = EXECUTING"] r(2) by simp
  have sel: "select_where (has_id i) ?rows = [?claim r]"
    using select_only [OF d' mem] r(2) by simp
  have upd: "update_where (\<lambda>x. has_id i x \<and> a_status x = EXECUTING) g ?rows
      = update_where (\<lambda>x. x = r) (\<lambda>x. g (?claim x)) (as_actions s)" for g
    using update_only_twice [OF d r(1), of "\<lambda>x. a_status x = ACCEPTED" ?claim
      "\<lambda>x. a_status x = EXECUTING" g] r(2) acc by simp
  have "wp (execute_once env i handlers) (\<lambda>b s'. b = True \<and> as_world s' = w
    \<and> as_invoked s' = as_invoked s @ [a_order r] \<and> as_nonces s' = as_nonces s
    \<and> as_actions s' = update_where (\<lambda>x. x = r) (executed result) (as_actions s)) (\<lambda>_ _. False) s"
  proof (cases result)
    case (Inl e)
    then show ?thesis
      using one two [simplified] upd [of "executed (Inl e)"]
      by (simp add: execute_once_def start_execution_def load_execution_def row ps cat h claim_def
          record_result_def finish_def wp_def [of "invoke _ _ _"] invoke_def sel executed_fun)
  next
    case (Inr p)
    obtain c m where p: "p = (c, m)" by fastforce
    show ?thesis
      using one two [simplified] upd [of "executed (Inr (c, m))"]
      by (simp add: execute_once_def start_execution_def load_execution_def row ps cat h claim_def
          record_result_def finish_def wp_def [of "invoke _ _ _"] invoke_def sel Inr p executed_fun)
  qed
  from wp_total [OF this] show ?thesis by auto
qed

section \<open>The properties at concrete inputs\<close>

text \<open>An instance of the parameters, one order with two spellings of its signature, one handler.\<close>

definition sample_env :: action_env where
  "sample_env = \<lparr>ed25519_verify = (\<lambda>key sig msg. length sig = 3), digest_hex = (\<lambda>_. ''d''),
     json_loads = (\<lambda>s. if s = ''{}'' then Some (JObj []) else None), json_dumps = (\<lambda>_. ''{}'')\<rparr>"

definition sample_keys :: "int \<rightharpoonup> bytes" where
  "sample_keys k = (if k = 1 then Some (replicate 32 0) else None)"

definition sample_order :: "string \<Rightarrow> action_order" where
  "sample_order sig = \<lparr>o_execution_id = 0x40008000000000000001,
     o_organization_id = 0x40008000000000000002, o_device_id = 0x40008000000000000003,
     o_nonce = 0x40008000000000000004, o_action_name = ''flush_dns'', o_action_version = 1,
     o_key_version = 1, o_issued_at = ''2024-01-01T00:00:00Z'',
     o_expires_at = ''2024-01-01T00:05:00Z'', o_order_digest = ''d'', o_signature = sig,
     o_parameters = ''{}''\<rparr>"

definition sample_handlers :: "string \<rightharpoonup> nat handler" where
  "sample_handlers name = (if name = ''flush_dns'' then Some (\<lambda>_ n. (Inr (0, ''ok''), n + 1)) else None)"

definition sample_now :: "int option" where
  "sample_now = Some 1704067200000000"

lemma sample_times:
  "parse_utc ''2024-01-01T00:00:00Z'' = Some 1704067200"
  "parse_utc ''2024-01-01T00:05:00Z'' = Some 1704067500"
  by code_simp+

lemma sample_signatures:
  "urlsafe_b64decode ''AAAA=='' = Some [0, 0, 0]" "urlsafe_b64decode ''BBBB=='' = Some [4, 16, 65]"
  by code_simp+

lemma sample_versions:
  "uuid_version 0x40008000000000000001 = Some 4" "uuid_version 0x40008000000000000002 = Some 4"
  "uuid_version 0x40008000000000000003 = Some 4" "uuid_version 0x40008000000000000004 = Some 4"
  by (simp_all add: uuid_version_def nibble_def)

lemma sample_verified:
  "verify_order_signature sample_env (sample_order ''AAAA'') sample_keys sample_now 60 = Inr 1704067500"
  "verify_order_signature sample_env (sample_order ''BBBB'') sample_keys sample_now 60 = Inr 1704067500"
  by (simp_all add: verify_order_signature_def sample_env_def sample_order_def sample_keys_def
      sample_now_def sample_times sample_signatures)

lemma sample_valid: "validate_order sample_env (sample_order ''AAAA'') = Inr []"
    "validate_order sample_env (sample_order ''BBBB'') = Inr []"
  by (simp_all add: validate_order_def sample_env_def sample_order_def sample_versions uuid_str_lower
      ACTION_CATALOG_def)

definition accepted_store :: "nat action_store" where
  "accepted_store = snd (verify_and_accept sample_env (sample_order ''AAAA'') sample_keys sample_now
     (empty_store 0))"

lemma accepted_store_eq: "accepted_store = \<lparr>
    as_nonces = [\<lparr>cn_nonce = 0x40008000000000000004, cn_expires_at_with_skew = 1704067560\<rparr>],
    as_actions = [new_action (sample_order ''AAAA'')], as_world = 0, as_invoked = []\<rparr>"
  by (simp add: accepted_store_def verify_and_accept_def sample_verified accept_def sample_valid
      empty_store_def eff_defs) (simp add: sample_order_def)

lemma sample_run: "(act_step sample_env sample_keys sample_handlers)\<^sup>*\<^sup>* (empty_store 0) accepted_store"
  unfolding accepted_store_def by (intro r_into_rtranclp step_accept)

lemma sample_gate_ok: "gate_ok sample_env sample_keys accepted_store"
  by (rule reachable_ok [OF sample_run])
    (simp add: gate_ok_def rows_unique_def invoked_ok_def empty_store_def)

lemma at_most_once_witness:
  "distinct (map o_execution_id (as_invoked
     (snd (execute_once sample_env 0x40008000000000000001 sample_handlers accepted_store))))"
  using at_most_once [OF rtranclp.rtrancl_into_rtrancl [OF sample_run step_execute]] by blast

lemma acceptance_witness:
  "verify_and_accept sample_env (sample_order ''AAAA'') sample_keys sample_now (empty_store (0 :: nat))
     = (Inr True, accepted_store)
   \<and> (\<exists>t. acceptable sample_env sample_keys sample_now (sample_order ''AAAA'') t)
   \<and> unused (sample_order ''AAAA'') (empty_store (0 :: nat))"
proof -
  have run: "verify_and_accept sample_env (sample_order ''AAAA'') sample_keys sample_now
      (empty_store (0 :: nat)) = (Inr True, accepted_store)"
    unfolding accepted_store_def
    by (simp add: verify_and_accept_def sample_verified accept_def sample_valid
      empty_store_def eff_defs)
  from acceptance [OF run] run show ?thesis by simp
qed

lemma status_moves_forward_witness:
  "rows_evolve [] (as_actions accepted_store)"
  using status_moves_forward [OF sample_run] by (simp add: empty_store_def)

lemma signature_binds_order_witness:
  "(sample_order ''AAAA'')\<lparr>o_signature := []\<rparr> = (sample_order ''BBBB'')\<lparr>o_signature := []\<rparr>"
proof (rule signature_binds_order)
  show "authorised sample_env sample_keys (sample_order ''AAAA'')"
    "authorised sample_env sample_keys (sample_order ''BBBB'')"
    unfolding authorised_def using sample_verified sample_valid by blast+
  show "build_signing_payload (sample_order ''AAAA'') = build_signing_payload (sample_order ''BBBB'')"
    by (simp add: build_signing_payload_def signed_lines_def sample_order_def)
qed

lemma restart_never_resumes_witness:
  "list_all (\<lambda>r. a_status r \<noteq> EXECUTING) (as_actions (snd (reconcile_after_restart 0 accepted_store)))"
  using restart_never_resumes [OF sample_gate_ok prod.collapse [symmetric]] unfolding list_all_iff by blast

lemma execute_once_records_witness:
  "\<exists>s'. execute_once sample_env 0x40008000000000000001 sample_handlers accepted_store = (Inr True, s')
     \<and> as_world s' = 1"
proof -
  have row: "find_action 0x40008000000000000001 (as_actions accepted_store)
      = Some (new_action (sample_order ''AAAA''))"
    by (simp add: accepted_store_eq find_action_def select_where_def new_action_def sample_order_def
        first_row_def)
  have loads: "json_loads sample_env (o_parameters (a_order (new_action (sample_order ''AAAA''))))
      = Some (JObj [])"
    by (simp add: sample_env_def new_action_def sample_order_def)
  have h: "sample_handlers (o_action_name (a_order (new_action (sample_order ''AAAA''))))
      = Some (\<lambda>_ n. (Inr (0, ''ok''), n + 1))"
    by (simp add: sample_handlers_def new_action_def sample_order_def)
  show ?thesis
    using execute_once_records [where handlers = sample_handlers, OF sample_gate_ok row _ loads h refl]
    by (auto simp: new_action_def accepted_store_eq)
qed

end
