(* ===== verification/Agent_Runtime.thy ===== *)
theory Agent_Runtime
  imports Agent_Dispatch Agent_Actions "HOL-Library.AList"
begin

text \<open>
  The agent process, \<open>agent/run_agent.py\<close>: reading its identity and keys, the answers of the
  metric endpoint, the action handlers, the polling of actions and one turn of the main loop.

  \<open>urlopen\<close>, \<open>subprocess.run\<close> and the sampling of the machine are functions on the worlds they act
  on; the text Python gives for a JSON value that is not a string, and \<open>int\<close> of a float, are
  parameters (\<open>runtime_env\<close>). Options of the command line are taken as parsed.
\<close>

section \<open>Numbers and identifiers from text\<close>

text \<open>\<open>int(text, base)\<close>: blanks around, a sign, for base 16 a prefix, single underscores between digits.\<close>

definition digit_in :: "nat \<Rightarrow> char \<Rightarrow> nat option" where
  "digit_in base c =
     (let n = ord_of c;
          v = (if is_digit c then Some (n - 48) else if is_lower c then Some (n - 87)
               else if is_upper c then Some (n - 55) else None)
      in case v of Some d \<Rightarrow> if d < base then Some d else None | None \<Rightarrow> None)"

fun digits_from :: "nat \<Rightarrow> nat \<Rightarrow> string \<Rightarrow> nat option" where
  "digits_from base acc [] = None"
| "digits_from base acc (c # cs) = (case digit_in base c of
     None \<Rightarrow> None
   | Some d \<Rightarrow> (case cs of
        [] \<Rightarrow> Some (acc * base + d)
      | u # cs' \<Rightarrow> if u = CHR ''_'' then digits_from base (acc * base + d) cs'
          else digits_from base (acc * base + d) cs))"

definition skip_prefix :: "string \<Rightarrow> string" where
  "skip_prefix s = (case s of
     z # x # rest \<Rightarrow> if z = CHR ''0'' \<and> x \<in> {CHR ''x'', CHR ''X''}
       then (case rest of u # r \<Rightarrow> if u = CHR ''_'' then r else rest | [] \<Rightarrow> rest) else s
   | _ \<Rightarrow> s)"

definition py_int :: "nat \<Rightarrow> string \<Rightarrow> int option" where
  "py_int base text =
     (let s = py_strip text;
          (sign, body) = (case s of
             c # cs \<Rightarrow> if c = CHR ''-'' then (- 1, cs) else if c = CHR ''+'' then (1, cs) else (1, s)
           | [] \<Rightarrow> (1, []))
      in map_option (\<lambda>n. sign * int n)
           (digits_from base 0 (if base = 16 then skip_prefix body else body)))"

fun drop_text :: "string \<Rightarrow> string \<Rightarrow> string" where
  "drop_text pat [] = []"
| "drop_text pat (c # cs) =
     (if pat \<noteq> [] \<and> prefix pat (c # cs) then drop_text pat (drop (length pat - 1) cs)
      else c # drop_text pat cs)"

definition strip_braces :: "string \<Rightarrow> string" where
  "strip_braces s = (let b = (\<lambda>c. c \<in> {CHR ''{'', CHR ''}''})
     in rev (dropWhile b (rev (dropWhile b s))))"

text \<open>\<open>UUID(text)\<close>; a negative number is out of its range.\<close>

definition uuid_of :: "string \<Rightarrow> uuid option" where
  "uuid_of text =
     (let hex = drop_text ''-'' (strip_braces (drop_text ''uuid:'' (drop_text ''urn:'' text)))
      in if length hex \<noteq> 32 then None
         else case py_int 16 hex of
           Some n \<Rightarrow> if n < 0 then None else Some (of_int n)
         | None \<Rightarrow> None)"

section \<open>Identity and keys\<close>

record runtime_env =
  r_actions :: action_env
  py_text :: "json \<Rightarrow> string"
  int_of_float :: "string \<Rightarrow> int option"

definition py_str :: "runtime_env \<Rightarrow> json \<Rightarrow> string" where
  "py_str env v = (case v of JStr s \<Rightarrow> s | _ \<Rightarrow> py_text env v)"

fun truthy :: "json \<Rightarrow> bool" where
  "truthy JNull = False"
| "truthy (JBool b) = b"
| "truthy (JInt i) = (i \<noteq> 0)"
| "truthy (JFloat f) = True"
| "truthy (JStr s) = (s \<noteq> [])"
| "truthy (JArr xs) = (xs \<noteq> [])"
| "truthy (JObj xs) = (xs \<noteq> [])"

definition field :: "string \<Rightarrow> params \<Rightarrow> json option" where
  "field k obj = map_of (rev obj) k"

datatype config_error = ConfigError string

text \<open>A float zero as device identifier would be the only false float; \<open>0.0\<close> is no UUID either.\<close>

definition resolve_identity ::
  "runtime_env \<Rightarrow> params \<Rightarrow> (string \<rightharpoonup> string) \<Rightarrow> config_error + (string \<times> string)" where
  "resolve_identity env config environment =
     (let raw = (case environment ''NEXUS_AGENT_DEVICE_ID'' of
            Some s \<Rightarrow> if s \<noteq> [] then Some (JStr s) else field ''device_id'' config
          | None \<Rightarrow> field ''device_id'' config);
          device_id = (case raw of Some v \<Rightarrow> if truthy v then py_strip (py_str env v) else [] | None \<Rightarrow> []);
          token = py_strip (case environment ''NEXUS_AGENT_TOKEN'' of Some t \<Rightarrow> t | None \<Rightarrow> [])
      in if device_id = [] \<or> token = [] then Inl (ConfigError ''device identity missing'')
         else case uuid_of device_id of
           None \<Rightarrow> Inl (ConfigError ''device ID must be a UUID'')
         | Some identifier \<Rightarrow>
             if uuid_version identifier \<noteq> Some 4 then Inl (ConfigError ''device ID must be a UUIDv4'')
             else if length token > 512 \<or> list_ex py_space token
             then Inl (ConfigError ''device token has invalid format'')
             else Inr (uuid_str identifier, token))"

type_synonym keys = "(int \<times> bytes) list"

text \<open>One entry: skipped unless the version is a number and the value text that decodes.\<close>

definition put_key :: "keys \<Rightarrow> string \<times> json \<Rightarrow> keys" where
  "put_key ks entry = (case (py_int 10 (fst entry), snd entry) of
     (Some version, JStr val) \<Rightarrow>
       (case b64decode (py_strip val) of
          Some key \<Rightarrow> AList.update version key ks | None \<Rightarrow> ks)
   | _ \<Rightarrow> ks)"

definition put_keys :: "keys \<Rightarrow> json option \<Rightarrow> keys" where
  "put_keys ks raw = (case raw of Some (JObj entries) \<Rightarrow> foldl put_key ks entries | _ \<Rightarrow> ks)"

definition parse_public_keys ::
  "runtime_env \<Rightarrow> json option \<Rightarrow> (string \<rightharpoonup> string) \<Rightarrow> keys" where
  "parse_public_keys env raw environment =
     (let r1 = put_keys [] raw;
          r2 = (case environment ''NEXUS_AGENT_PUBLIC_KEYS'' of
             Some text \<Rightarrow> if text = [] then r1 else put_keys r1 (json_loads (r_actions env) text)
           | None \<Rightarrow> r1)
      in case environment ''NEXUS_ACTION_PUBLIC_KEY'' of
           Some text \<Rightarrow> if text = [] \<or> map_of r2 1 \<noteq> None then r2
             else (case b64decode (py_strip text) of Some key \<Rightarrow> AList.update 1 key r2 | None \<Rightarrow> r2)
         | None \<Rightarrow> r2)"

section \<open>The metric endpoint\<close>

text \<open>
  What \<open>urlopen\<close> did: a response, an \<open>HTTPError\<close> with its body, no connection (\<open>OSError\<close>), or
  another exception, which \<open>send\<close> does not catch. The body is the JSON object in it, the empty one
  if there is none.
\<close>

datatype http_exchange = Response int params | HttpError int params | NoConnection | Broken

definition str_field :: "runtime_env \<Rightarrow> string \<Rightarrow> params \<Rightarrow> string" where
  "str_field env k obj = (case field k obj of Some v \<Rightarrow> py_str env v | None \<Rightarrow> [])"

definition metric_result :: "runtime_env \<Rightarrow> http_exchange \<Rightarrow> send_result" where
  "metric_result env x = (case x of
     Response code body \<Rightarrow> Reply \<lparr>status_code = code, error_code = [], error_summary = [],
       remote_status = str_field env ''status'' body\<rparr>
   | HttpError code body \<Rightarrow> Reply \<lparr>status_code = code, error_code = str_field env ''code'' body,
       error_summary = ''server rejected telemetry batch'', remote_status = []\<rparr>
   | NoConnection \<Rightarrow> Reply \<lparr>status_code = 0, error_code = [],
       error_summary = ''telemetry endpoint unavailable'', remote_status = []\<rparr>
   | Broken \<Rightarrow> SenderRaises)"

definition metric_sender ::
  "runtime_env \<Rightarrow> ('s body \<Rightarrow> 'n \<Rightarrow> http_exchange \<times> 'n) \<Rightarrow> 's body \<Rightarrow> 'n \<Rightarrow> send_result \<times> 'n" where
  "metric_sender env urlopen body net =
     (case urlopen body net of (x, net') \<Rightarrow> (metric_result env x, net'))"

section \<open>Action handlers\<close>

text \<open>\<open>subprocess.run\<close> on a world: the finished process, or the name of the exception it raised.\<close>

record completed =
  returncode :: int
  stdout :: string
  stderr :: string

type_synonym 'w subprocess = "string list \<Rightarrow> nat \<Rightarrow> 'w \<Rightarrow> (string + completed) \<times> 'w"

definition output_of :: "completed \<Rightarrow> string" where
  "output_of c = take 500 (py_strip (if stdout c \<noteq> [] then stdout c else stderr c))"

definition service_name_ok :: "string \<Rightarrow> bool" where
  "service_name_ok name \<longleftrightarrow> name \<noteq> [] \<and>
     \<not> list_ex (\<lambda>c. c \<in> set '';|&$`'' \<or> c = CHR 13 \<or> c = CHR 10) name"

definition handle_restart_service :: "runtime_env \<Rightarrow> bool \<Rightarrow> 'w subprocess \<Rightarrow> 'w handler" where
  "handle_restart_service env windows run parameters w =
     (let service_name = py_strip (case field ''service_name'' parameters of
          Some v \<Rightarrow> py_str env v | None \<Rightarrow> [])
      in if \<not> service_name_ok service_name then (Inr (1, ''Invalid service name''), w)
         else if windows then
           (case run [''net'', ''stop'', service_name] 15 w of
              (Inl e, w1) \<Rightarrow> (Inl e, w1)
            | (Inr _, w1) \<Rightarrow>
                (case run [''net'', ''start'', service_name] 15 w1 of
                   (Inl e, w2) \<Rightarrow> (Inl e, w2)
                 | (Inr res2, w2) \<Rightarrow>
                     (Inr (if returncode res2 = 0 then 0 else returncode res2, output_of res2), w2)))
         else
           (case run [''systemctl'', ''restart'', service_name] 15 w of
              (Inl e, w1) \<Rightarrow> (Inl e, w1)
            | (Inr res, w1) \<Rightarrow> (Inr (returncode res, output_of res), w1)))"

definition handle_flush_dns :: "bool \<Rightarrow> 'w subprocess \<Rightarrow> 'w handler" where
  "handle_flush_dns windows run parameters w =
     (case run (if windows then [''ipconfig'', ''/flushdns''] else [''resolvectl'', ''flush-caches'']) 10 w of
        (Inl e, w1) \<Rightarrow> (Inl e, w1)
      | (Inr res, w1) \<Rightarrow> (Inr (returncode res, output_of res), w1))"

text \<open>A boolean counts as an integer, as in Python.\<close>

definition reboot_delay :: "params \<Rightarrow> int" where
  "reboot_delay parameters = max 0 (min (case field ''delay_seconds'' parameters of
     Some (JInt d) \<Rightarrow> d | Some (JBool b) \<Rightarrow> (if b then 1 else 0) | _ \<Rightarrow> 30) 3600)"

definition handle_reboot_system :: "bool \<Rightarrow> 'w subprocess \<Rightarrow> 'w handler" where
  "handle_reboot_system windows run parameters w =
     (let delay = reboot_delay parameters in
      if windows then
        (case run [''shutdown'', ''/r'', ''/t'', int_str delay] 10 w of
           (Inl e, w1) \<Rightarrow> (Inl e, w1)
         | (Inr res, w1) \<Rightarrow>
             (Inr (returncode res, ''System reboot scheduled in '' @ int_str delay @ ''s''), w1))
      else
        let mins = max 1 (delay div 60) in
        (case run [''shutdown'', ''-r'', ''+'' @ int_str mins] 10 w of
           (Inl e, w1) \<Rightarrow> (Inl e, w1)
         | (Inr res, w1) \<Rightarrow>
             (Inr (returncode res, ''System reboot scheduled in '' @ int_str mins @ ''m''), w1)))"

text \<open>The diagnostics handler reads the probes (\<open>collect\<close>, a parameter) and cuts their JSON.\<close>

definition handle_collect_extended_diagnostics ::
  "('w \<Rightarrow> (string + string) \<times> 'w) \<Rightarrow> 'w handler" where
  "handle_collect_extended_diagnostics collect parameters w =
     (case collect w of
        (Inl e, w1) \<Rightarrow> (Inl e, w1) | (Inr text, w1) \<Rightarrow> (Inr (0, take 1000 text), w1))"

definition make_action_handlers ::
  "runtime_env \<Rightarrow> bool \<Rightarrow> 'w subprocess \<Rightarrow> ('w \<Rightarrow> (string + string) \<times> 'w) \<Rightarrow> string \<rightharpoonup> 'w handler" where
  "make_action_handlers env windows run collect =
     [''restart_service'' \<mapsto> handle_restart_service env windows run,
      ''flush_dns'' \<mapsto> handle_flush_dns windows run,
      ''collect_extended_diagnostics'' \<mapsto> handle_collect_extended_diagnostics collect,
      ''reboot_system'' \<mapsto> handle_reboot_system windows run]"

section \<open>Polling actions\<close>

text \<open>
  One item of the list the server returned. Each conversion may raise; \<open>poll_and_execute_actions\<close>
  then reports the error and goes on with the next item.
\<close>

definition text_or_none :: "runtime_env \<Rightarrow> string \<Rightarrow> params \<Rightarrow> string" where
  "text_or_none env k item = py_str env (case field k item of Some v \<Rightarrow> v | None \<Rightarrow> JNull)"

definition version_field :: "runtime_env \<Rightarrow> string \<Rightarrow> params \<Rightarrow> int option" where
  "version_field env k item = (case field k item of
     None \<Rightarrow> Some 1
   | Some (JInt i) \<Rightarrow> Some i
   | Some (JBool b) \<Rightarrow> Some (if b then 1 else 0)
   | Some (JFloat f) \<Rightarrow> int_of_float env f
   | Some (JStr s) \<Rightarrow> py_int 10 s
   | _ \<Rightarrow> None)"

definition order_of_item :: "runtime_env \<Rightarrow> string \<Rightarrow> params \<Rightarrow> action_order option" where
  "order_of_item env device item =
     Option.bind (uuid_of (text_or_none env ''id'' item)) (\<lambda>i.
     Option.bind (uuid_of (text_or_none env ''organization_id'' item)) (\<lambda>organization.
     Option.bind (uuid_of device) (\<lambda>dev.
     Option.bind (uuid_of (text_or_none env ''nonce'' item)) (\<lambda>nonce.
     Option.bind (version_field env ''action_version'' item) (\<lambda>version.
     Option.bind (version_field env ''key_version'' item) (\<lambda>key_version.
       Some \<lparr>o_execution_id = i, o_organization_id = organization, o_device_id = dev,
         o_nonce = nonce, o_action_name = text_or_none env ''action_name'' item,
         o_action_version = version, o_key_version = key_version,
         o_issued_at = text_or_none env ''issued_at'' item,
         o_expires_at = text_or_none env ''expires_at'' item,
         o_order_digest = text_or_none env ''order_digest'' item,
         o_signature = text_or_none env ''signature'' item,
         o_parameters = text_or_none env ''parameters_canonical'' item\<rparr>))))))"

text \<open>What the agent tells the server; both calls swallow every exception.\<close>

datatype action_message =
    Acknowledge_Action string
  | Report_Result string action_status "int option" string

record 'w action_agent =
  g_store :: "'w action_store"
  g_messages :: "action_message list"
  g_executed :: nat
  g_errors :: nat

definition on_store :: "('w, 'a) aeff \<Rightarrow> ('w action_agent, action_error, 'a) eff" where
  "on_store m g = (case m (g_store g) of (r, s) \<Rightarrow> (r, g\<lparr>g_store := s\<rparr>))"

definition tell :: "action_message \<Rightarrow> ('w action_agent, action_error, unit) eff" where
  "tell m = writes (\<lambda>g. g\<lparr>g_messages := g_messages g @ [m]\<rparr>)"

definition handle_item ::
  "runtime_env \<Rightarrow> string \<Rightarrow> (int \<rightharpoonup> bytes) \<Rightarrow> int \<Rightarrow> (string \<rightharpoonup> 'w handler) \<Rightarrow> params
   \<Rightarrow> ('w action_agent, action_error, unit) eff" where
  "handle_item env device keys now handlers item =
     (let action_id_str = text_or_none env ''id'' item in
      case order_of_item env device item of
        None \<Rightarrow> raise (Invalid ''item'')
      | Some ord \<Rightarrow>
          bindE (on_store (verify_and_accept (r_actions env) ord keys (Some now))) (\<lambda>accepted.
          if \<not> accepted then ret ()
          else
            bindE (tell (Acknowledge_Action action_id_str)) (\<lambda>_.
            bindE (on_store (execute_once (r_actions env) (o_execution_id ord) handlers)) (\<lambda>executed.
            if \<not> executed then ret ()
            else
              bindE (on_store (status (o_execution_id ord))) (\<lambda>st.
              bindE (on_store (reads (\<lambda>s. first_row (select_where
                (\<lambda>r. uuid_str (o_execution_id (a_order r)) = action_id_str) (as_actions s))))) (\<lambda>row.
              bindE (tell (Report_Result action_id_str (case st of Some x \<Rightarrow> x | None \<Rightarrow> SUCCEEDED)
                (case row of Some r \<Rightarrow> a_exit_code r | None \<Rightarrow> None)
                (take 2000 (case row of Some r \<Rightarrow> (case a_output r of Some t \<Rightarrow> t | None \<Rightarrow> []) | None \<Rightarrow> [])))) (\<lambda>_.
                writes (\<lambda>g. g\<lparr>g_executed := Suc (g_executed g)\<rparr>)))))))
     )"

definition poll_and_execute_actions ::
  "runtime_env \<Rightarrow> string \<Rightarrow> keys \<Rightarrow> int \<Rightarrow> (string \<rightharpoonup> 'w handler) \<Rightarrow> params list
   \<Rightarrow> ('w action_agent, action_error, unit) eff" where
  "poll_and_execute_actions env device keys now handlers items =
     (if keys = [] then ret ()
      else eachE (\<lambda>item. catchE (handle_item env device (map_of keys) now handlers item)
        (\<lambda>_. writes (\<lambda>g. g\<lparr>g_errors := Suc (g_errors g)\<rparr>))) items)"

section \<open>The main loop\<close>

text \<open>
  The state of the process, and what one turn of the loop takes from outside: the samples, the
  clock (microseconds), whether the inventory upload raises, and the items of the action list.
\<close>

record ('n, 'w) process =
  p_world :: "(queue_state, 'n) world"
  p_agent :: "'w action_agent"
  p_last_inventory :: int
  p_outcomes :: "outcome list"

record 's turn_input =
  t_samples :: "'s list"
  t_clock :: int
  t_inventory_fails :: bool
  t_items :: "params list"
  t_now :: int

record ('s, 'n, 'w) agent_config =
  c_queue :: "'s queue_config"
  c_dispatcher :: "(queue_state, 's, 'n) dispatcher"
  c_env :: runtime_env
  c_device :: string
  c_keys :: keys
  c_handlers :: "string \<rightharpoonup> 'w handler"
  c_inventory_interval :: int

datatype process_error = DispatchFailed dispatch_error | ActionsFailed action_error | InventoryFailed

type_synonym ('n, 'w, 'a) peff = "(('n, 'w) process, process_error, 'a) eff"

definition on_world :: "((queue_state, 'n) world, dispatch_error, 'a) eff \<Rightarrow> ('n, 'w, 'a) peff" where
  "on_world m p = (case m (p_world p) of
     (Inl e, w) \<Rightarrow> (Inl (DispatchFailed e), p\<lparr>p_world := w\<rparr>)
   | (Inr a, w) \<Rightarrow> (Inr a, p\<lparr>p_world := w\<rparr>))"

definition on_agent :: "('w action_agent, action_error, 'a) eff \<Rightarrow> ('n, 'w, 'a) peff" where
  "on_agent m p = (case m (p_agent p) of
     (Inl e, g) \<Rightarrow> (Inl (ActionsFailed e), p\<lparr>p_agent := g\<rparr>)
   | (Inr a, g) \<Rightarrow> (Inr a, p\<lparr>p_agent := g\<rparr>))"

definition collect_and_enqueue :: "'s queue_config \<Rightarrow> 's list \<Rightarrow> ('n, 'w, unit) peff" where
  "collect_and_enqueue cfg samples =
     catchE (bindE (on_world (on_queue (enqueue cfg samples None None 0 False))) (\<lambda>_. ret ()))
       (\<lambda>e. case e of DispatchFailed (QueueFailed (QueueCapacityExceeded _)) \<Rightarrow> ret () | _ \<Rightarrow> raise e)"

definition main_turn :: "('s, 'n, 'w) agent_config \<Rightarrow> 's turn_input \<Rightarrow> ('n, 'w, unit) peff" where
  "main_turn c i =
     bindE (collect_and_enqueue (c_queue c) (t_samples i)) (\<lambda>_.
     bindE (on_world (dispatch_once (c_dispatcher c))) (\<lambda>result.
     bindE (writes (\<lambda>p. p\<lparr>p_outcomes := p_outcomes p @ [outcome result]\<rparr>)) (\<lambda>_.
     bindE (reads p_last_inventory) (\<lambda>last.
     bindE (if t_clock i - last \<ge> c_inventory_interval c
            then if t_inventory_fails i then raise InventoryFailed
              else writes (\<lambda>p. p\<lparr>p_last_inventory := t_clock i\<rparr>)
            else ret ()) (\<lambda>_.
       on_agent (poll_and_execute_actions (c_env c) (c_device c) (c_keys c) (t_now i)
         (c_handlers c) (t_items i)))))))"

text \<open>The loop over a sequence of turns; an exception that leaves a turn ends the process.\<close>

fun main_loop :: "('s, 'n, 'w) agent_config \<Rightarrow> 's turn_input list \<Rightarrow> ('n, 'w, unit) peff" where
  "main_loop c [] = ret ()"
| "main_loop c (i # is) = bindE (main_turn c i) (\<lambda>_. main_loop c is)"

section \<open>Identifiers and their text\<close>

lemma drop_text_absent: "p \<notin> set s \<Longrightarrow> drop_text (p # ps) s = s"
  by (induction s) (auto simp: prefix_def)

lemma drop_text_char: "drop_text [p] s = filter (\<lambda>c. c \<noteq> p) s"
  by (induction s) (auto simp: prefix_def)

lemma hex_range_append: "lo \<le> mid \<Longrightarrow> mid \<le> hi \<Longrightarrow>
  hex_range w hi mid @ hex_range w mid lo = hex_range w hi lo"
  unfolding hex_range_def
  by (metis le_Suc_ex map_append rev_append upt_add_eq_append)

definition hex_char :: "char \<Rightarrow> bool" where
  "hex_char c \<longleftrightarrow> (48 \<le> ord_of c \<and> ord_of c \<le> 57) \<or> (97 \<le> ord_of c \<and> ord_of c \<le> 102)"

lemma hex_char_digit: "n < 16 \<Longrightarrow> hex_char (hex_digit n) \<and> digit_in 16 (hex_digit n) = Some n"
  by (auto simp: hex_char_def hex_digit_def digit_in_def Let_def is_digit_def is_lower_def take_bit_eq_mod)

lemma hex_range_chars: "c \<in> set (hex_range w hi lo) \<Longrightarrow> hex_char c"
  by (auto simp: hex_range_def hex_char_digit nibble_lt)

lemma uuid_str_chars: "c \<in> set (uuid_str w) \<Longrightarrow> hex_char c \<or> c = CHR ''-''"
  by (auto simp: uuid_str_def dest: hex_range_chars)

lemma not_hex_char: "c \<in> set ''ux{}-+_X'' \<Longrightarrow> \<not> hex_char c"
  by (auto simp: hex_char_def)

lemma strip_braces_none: "set s \<inter> {CHR ''{'', CHR ''}''} = {} \<Longrightarrow> strip_braces s = s"
proof -
  assume none: "set s \<inter> {CHR ''{'', CHR ''}''} = {}"
  have "dropWhile (\<lambda>c. c \<in> {CHR ''{'', CHR ''}''}) t = t" if "set t \<subseteq> set s" for t
    using that none by (cases t) auto
  from this [of s] this [of "rev s"] show ?thesis by (simp add: strip_braces_def Let_def)
qed

lemma py_strip_hex: "list_all hex_char s \<Longrightarrow> py_strip s = s"
proof -
  assume hex: "list_all hex_char s"
  have "\<not> py_space c" if "hex_char c" for c
    using that by (auto simp: hex_char_def py_space_def)
  then have "dropWhile py_space t = t" if "set t \<subseteq> set s" for t
    using that hex by (cases t) (auto simp: list_all_iff)
  from this [of s] this [of "rev s"] show ?thesis by (simp add: py_strip_def)
qed

lemma py_strip_uuid: "py_strip (uuid_str w) = uuid_str w"
proof -
  have "\<not> py_space c" if "c \<in> set (uuid_str w)" for c
    using uuid_str_chars [OF that] by (auto simp: hex_char_def py_space_def)
  then have "dropWhile py_space t = t" if "set t \<subseteq> set (uuid_str w)" for t
    using that by (cases t) auto
  from this [of "uuid_str w"] this [of "rev (uuid_str w)"] show ?thesis by (simp add: py_strip_def)
qed

lemma digits_from_hex:
  "ns \<noteq> [] \<Longrightarrow> list_all (\<lambda>n. n < 16) ns \<Longrightarrow>
   digits_from 16 acc (map hex_digit ns) = Some (foldl (\<lambda>a n. a * 16 + n) acc ns)"
proof (induction ns arbitrary: acc)
  case (Cons n ns)
  have d: "digit_in 16 (hex_digit n) = Some n" using Cons.prems by (simp add: hex_char_digit)
  show ?case
  proof (cases ns)
    case Nil
    then show ?thesis by (simp add: d)
  next
    case (Cons m ms)
    have "hex_digit m \<noteq> CHR ''_''"
      using Cons Cons.prems hex_char_digit [of m] not_hex_char [of "CHR ''_''"] by auto
    with Cons d Cons.IH [of "acc * 16 + n"] \<open>list_all (\<lambda>n. n < 16) (n # ns)\<close> show ?thesis by simp
  qed
qed simp

lemma unat_uuid: "unat (w :: uuid) < 2 ^ 128"
proof -
  have "unat w < 2 ^ LENGTH(128)" by (rule unsigned_less)
  then show ?thesis by simp
qed

lemma nibble_div: "nibble w k = unat w div 16 ^ k mod 16"
proof -
  have "(2 :: nat) ^ (4 * k) = 16 ^ k" by (simp add: power_mult)
  moreover have "unat w mod 340282366920938463463374607431768211456 = unat w"
    using unat_uuid [of w] by simp
  ultimately show ?thesis
    by (simp add: nibble_def unsigned_take_bit_eq unsigned_drop_bit_eq take_bit_eq_mod [where 'a = nat]
        drop_bit_eq_div [where 'a = nat])
qed

lemma fold_nibbles:
  "foldl (\<lambda>a n. a * 16 + n) acc (map (nibble w) (rev [0..<n])) = acc * 16 ^ n + unat w mod 16 ^ n"
proof (induction n arbitrary: acc)
  case (Suc n)
  have "unat w mod (16 ^ n * 16) = 16 ^ n * (unat w div 16 ^ n mod 16) + unat w mod 16 ^ n"
    by (rule mod_mult2_eq)
  with Suc.IH [of "acc * 16 + nibble w n"] show ?case by (simp add: nibble_div algebra_simps)
qed simp

lemma uuid_of_uuid_str: "uuid_of (uuid_str w) = Some w"
proof -
  let ?h = "hex_range w 32 0"
  have chars: "CHR ''u'' \<notin> set (uuid_str w)" "set (uuid_str w) \<inter> {CHR ''{'', CHR ''}''} = {}"
    using uuid_str_chars [of "CHR ''u''" w] uuid_str_chars [of "CHR ''{''" w]
      uuid_str_chars [of "CHR ''}''" w] by (auto simp: hex_char_def)
  have keep: "filter (\<lambda>c. c \<noteq> CHR ''-'') (hex_range w hi lo) = hex_range w hi lo" for hi lo
    using hex_range_chars [of "CHR ''-''"] by (intro filter_True) (auto simp: hex_char_def)
  have "drop_text ''-'' (strip_braces (drop_text ''uuid:'' (drop_text ''urn:'' (uuid_str w))))
      = filter (\<lambda>c. c \<noteq> CHR ''-'') (uuid_str w)"
    using chars by (simp add: drop_text_absent drop_text_char strip_braces_none)
  also have "\<dots> = ?h"
    by (simp add: uuid_str_def keep hex_range_append)
  finally have hex: "drop_text ''-'' (strip_braces (drop_text ''uuid:'' (drop_text ''urn:'' (uuid_str w)))) = ?h" .
  have h: "?h = map hex_digit (map (nibble w) (rev [0..<32]))" by (simp add: hex_range_def)
  have all: "list_all hex_char ?h" using hex_range_chars by (auto simp: list_all_iff)
  obtain c d rest where cd: "?h = c # d # rest" by (simp add: hex_range_def upt_rec)
  have cd': "hex_char c" "hex_char d" using all cd by auto
  then have ne: "c \<noteq> CHR ''-''" "c \<noteq> CHR ''+''" "d \<noteq> CHR ''x''" "d \<noteq> CHR ''X''"
    using not_hex_char by auto
  have "digits_from 16 0 ?h = Some (foldl (\<lambda>a n. a * 16 + n) 0 (map (nibble w) (rev [0..<32])))"
    unfolding h by (rule digits_from_hex) (auto simp: list_all_iff nibble_lt)
  also have "\<dots> = Some (unat w mod 16 ^ 32)" by (simp only: fold_nibbles mult_zero_left add_0)
  also have "unat w mod 16 ^ 32 = unat w"
    using unat_uuid [of w] by (intro mod_less) simp
  finally have digits: "digits_from 16 0 ?h = Some (unat w)" .
  have "skip_prefix ?h = ?h" using ne by (simp add: cd skip_prefix_def)
  then have "py_int 16 ?h = Some (int (unat w))"
    using ne digits py_strip_hex [OF all] by (simp add: py_int_def Let_def) (simp add: cd)
  then show ?thesis using hex by (simp add: uuid_of_def Let_def)
qed

section \<open>Facts about the parts of a turn\<close>

lemma wp_on_world [simp]:
  "wp (on_world m) Q E p = wp m (\<lambda>a w. Q a (p\<lparr>p_world := w\<rparr>))
     (\<lambda>e w. E (DispatchFailed e) (p\<lparr>p_world := w\<rparr>)) (p_world p)"
  by (simp add: wp_def on_world_def split: prod.splits sum.splits)

lemma wp_on_agent [simp]:
  "wp (on_agent m) Q E p = wp m (\<lambda>a g. Q a (p\<lparr>p_agent := g\<rparr>))
     (\<lambda>e g. E (ActionsFailed e) (p\<lparr>p_agent := g\<rparr>)) (p_agent p)"
  by (simp add: wp_def on_agent_def split: prod.splits sum.splits)

lemma wp_on_store [simp]:
  "wp (on_store m) Q E g = wp m (\<lambda>a s. Q a (g\<lparr>g_store := s\<rparr>))
     (\<lambda>e s. E e (g\<lparr>g_store := s\<rparr>)) (g_store g)"
  by (simp add: wp_def on_store_def split: prod.splits sum.splits)

lemma wp_tell [simp]: "wp (tell m) Q E g = Q () (g\<lparr>g_messages := g_messages g @ [m]\<rparr>)"
  by (simp add: tell_def)

text \<open>Everything the polling does to the store is a sequence of steps of the gate.\<close>

abbreviation gate_steps ::
  "action_env \<Rightarrow> (int \<rightharpoonup> bytes) \<Rightarrow> (string \<rightharpoonup> 'w handler) \<Rightarrow> 'w action_store \<Rightarrow> 'w action_store \<Rightarrow> bool" where
  "gate_steps env keys handlers \<equiv> (act_step env keys handlers)\<^sup>*\<^sup>*"

lemma wp_of_step: "R (snd (m s)) \<Longrightarrow> wp m (\<lambda>_ s'. R s') (\<lambda>_ s'. R s') s"
  by (simp add: wp_snd)

lemma handle_item_steps:
  assumes "gate_steps (r_actions env) keys handlers s0 (g_store g)"
  shows "wp (handle_item env device keys now handlers item)
    (\<lambda>_ g'. gate_steps (r_actions env) keys handlers s0 (g_store g'))
    (\<lambda>_ g'. gate_steps (r_actions env) keys handlers s0 (g_store g')) g"
proof -
  let ?R = "gate_steps (r_actions env) keys handlers s0"
  have acc: "wp (verify_and_accept (r_actions env) ord keys (Some now)) (\<lambda>_. ?R) (\<lambda>_. ?R) (g_store g)" for ord
    using assms by (intro wp_of_step) (rule rtranclp.rtrancl_into_rtrancl, auto intro: step_accept)
  have exe: "wp (execute_once (r_actions env) i handlers) (\<lambda>_. ?R) (\<lambda>_. ?R) s" if "?R s" for i s
    using that by (intro wp_of_step) (rule rtranclp.rtrancl_into_rtrancl, auto intro: step_execute)
  show ?thesis
    using assms unfolding handle_item_def Let_def
    by (auto simp: wp_if status_def split: option.splits intro!: wp_mono [OF acc] wp_mono [OF exe])
qed

lemma poll_steps:
  assumes "gate_steps (r_actions env) (map_of keys) handlers s0 (g_store g)"
  shows "wp (poll_and_execute_actions env device keys now handlers items)
    (\<lambda>_ g'. gate_steps (r_actions env) (map_of keys) handlers s0 (g_store g')) (\<lambda>_ _. False) g"
proof -
  let ?f = "\<lambda>item. catchE (handle_item env device (map_of keys) now handlers item)
        (\<lambda>_. writes (\<lambda>g. g\<lparr>g_errors := Suc (g_errors g)\<rparr>))"
  have "wp (eachE ?f items) (\<lambda>_ g'. gate_steps (r_actions env) (map_of keys) handlers s0 (g_store g'))
      (\<lambda>_ _. False :: bool) g"
    using assms
  proof (induction items arbitrary: g)
    case Nil
    then show ?case by simp
  next
    case (Cons a items)
    show ?case
      by (simp, rule wp_mono [OF handle_item_steps [OF Cons.prems]]) (auto intro: Cons.IH)
  qed
  with assms show ?thesis
    by (cases "keys = []") (auto simp: poll_and_execute_actions_def)
qed

section \<open>Properties\<close>

text \<open>Property C21. Polling refines the gate: whatever list of items the server returns,
  \<open>poll_and_execute_actions\<close> never raises, and what it does to the action store is a sequence of
  steps of the gate, so the guarantees of the gate (at most once, only authorised orders, statuses
  that only move forward) hold for the agent that polls.\<close>

theorem polling_refines_gate:
  "\<exists>g'. poll_and_execute_actions env device keys now handlers items g = (Inr (), g')
     \<and> gate_steps (r_actions env) (map_of keys) handlers (g_store g) (g_store g')"
  using wp_total [OF poll_steps [OF rtranclp.rtrancl_refl]] by fastforce

text \<open>A repeated order is dropped in silence: if the nonce or the identifier of an item is
  already in the store, the item runs nothing, changes nothing in the store, and the server gets
  neither an acknowledgement nor a result. This also holds for an order that was accepted but never
  started because the process died, which therefore stays ACCEPTED.\<close>

theorem replay_is_silent:
  assumes "order_of_item env device item = Some ord"
    and "o_nonce ord \<in> cn_nonce ` set (as_nonces (g_store g))
      \<or> o_execution_id ord \<in> action_id ` set (as_actions (g_store g))"
  shows "g_store (snd (handle_item env device keys now handlers item g)) = g_store g
    \<and> g_messages (snd (handle_item env device keys now handlers item g)) = g_messages g
    \<and> g_executed (snd (handle_item env device keys now handlers item g)) = g_executed g"
proof -
  obtain res s' where run: "verify_and_accept (r_actions env) ord keys (Some now) (g_store g) = (res, s')"
    by fastforce
  have "s' = g_store g \<and> res \<noteq> Inr True"
    using acceptance_cases [OF run] assms(2) by auto
  then show ?thesis
    by (auto simp: handle_item_def Let_def assms(1) bindE_def on_store_def run ret_def
        split: sum.splits bool.splits)
qed

definition allowed_command :: "string list \<Rightarrow> bool" where
  "allowed_command argv \<longleftrightarrow>
     argv \<in> {[''ipconfig'', ''/flushdns''], [''resolvectl'', ''flush-caches'']}
     \<or> (\<exists>name. service_name_ok name
         \<and> argv \<in> {[''net'', ''stop'', name], [''net'', ''start'', name], [''systemctl'', ''restart'', name]})
     \<or> (\<exists>n. 0 \<le> n \<and> n \<le> 3600 \<and> argv = [''shutdown'', ''/r'', ''/t'', int_str n])
     \<or> (\<exists>m. 1 \<le> m \<and> m \<le> 60 \<and> argv = [''shutdown'', ''-r'', ''+'' @ int_str m])"

text \<open>Property C4. Remote actions can only run the commands of the catalogue: two operating systems that
  behave alike on the allowed commands (flushing DNS, restarting a service whose name is one
  argument without shell characters, a reboot delayed by 0 to 3600 seconds) cannot be told apart by
  any handler, whatever parameters the order carries.\<close>

theorem only_catalogued_commands:
  assumes "\<And>argv t w. allowed_command argv \<Longrightarrow> run argv t w = run' argv t w"
  shows "make_action_handlers env windows run collect = make_action_handlers env windows run' collect"
proof -
  have delay: "0 \<le> reboot_delay ps \<and> reboot_delay ps \<le> 3600" for ps
    by (simp add: reboot_delay_def)
  have mins: "1 \<le> max 1 (reboot_delay ps div 60) \<and> max 1 (reboot_delay ps div 60) \<le> 60" for ps
  proof -
    have "reboot_delay ps div 60 \<le> 3600 div 60"
      using delay [of ps] by (intro zdiv_mono1) auto
    then show ?thesis by simp
  qed
  have "handle_restart_service env windows run = handle_restart_service env windows run'"
    by (intro ext) (auto simp: handle_restart_service_def Let_def assms allowed_command_def
        split: prod.splits sum.splits)
  moreover have "handle_flush_dns windows run = handle_flush_dns windows run'"
    by (intro ext) (simp add: handle_flush_dns_def assms allowed_command_def)
  moreover have at_once: "run [''shutdown'', ''/r'', ''/t'', int_str (reboot_delay ps)] 10
      = run' [''shutdown'', ''/r'', ''/t'', int_str (reboot_delay ps)] 10" for ps
    using delay [of ps] by (intro ext assms) (auto simp: allowed_command_def)
  moreover have other: "run [''shutdown'', ''-r'', ''+'' @ int_str (max 1 (reboot_delay ps div 60))] 10
      = run' [''shutdown'', ''-r'', ''+'' @ int_str (max 1 (reboot_delay ps div 60))] 10" for ps
    using mins [of ps] by (intro ext assms) (unfold allowed_command_def, blast)
  moreover from at_once other have "handle_reboot_system windows run = handle_reboot_system windows run'"
    by (intro ext) (simp add: handle_reboot_system_def Let_def)
  ultimately show ?thesis by (simp add: make_action_handlers_def)
qed

text \<open>The identity is canonical: if \<open>resolve_identity\<close> succeeds, the device identifier is the text of
  a version 4 UUID that reads back as the same UUID (so it can be put in the endpoint paths and in
  every order), and the token is not empty, has at most 512 characters and no blank in it.\<close>

theorem identity_canonical:
  assumes "resolve_identity env config environment = Inr (device_id, token)"
  shows "\<exists>u. device_id = uuid_str u \<and> uuid_of device_id = Some u \<and> uuid_version u = Some 4
    \<and> token \<noteq> [] \<and> length token \<le> 512 \<and> list_all (\<lambda>c. \<not> py_space c) token"
  using assms uuid_of_uuid_str unfolding resolve_identity_def Let_def
  by (auto simp: list_ex_iff list_all_iff split: option.splits if_splits)

section \<open>What one outcome leads to, turn after turn\<close>

fun dispatches :: "('q, 's, 'n) dispatcher \<Rightarrow> nat \<Rightarrow> ('q, 'n, dispatch_result list) deff" where
  "dispatches d 0 = ret []"
| "dispatches d (Suc n) = bindE (dispatch_once d) (\<lambda>r. bindE (dispatches d n) (\<lambda>rs. ret (r # rs)))"

definition accepts_only :: "('q, 's, 'n) dispatcher \<Rightarrow> bool" where
  "accepts_only d \<longleftrightarrow> (\<forall>b net. \<exists>r net'. d_send d b net = (Reply r, net') \<and> status_code r = 202)"

lemma dispatch_accepted:
  assumes q: "d_queue d = local_queue_api cfg" and acc: "accepts_only d"
    and row: "next_row (w_clock (w_queue w) (w_reads (w_queue w))) (tables (w_queue w)) = Some r"
    and dec: "decode cfg (q_payload r) = Some xs"
  shows "\<exists>w'. dispatch_once d w = (Inr \<lparr>outcome = outcome.ACCEPTED, batch_id = Some (q_batch_id r),
      child_batch_ids = []\<rparr>, w')
    \<and> w_queue w' = (w_queue w)\<lparr>w_reads := w_reads (w_queue w) + 2,
        tables := defer_row (q_batch_id r)
          (w_clock (w_queue w) (Suc (w_reads (w_queue w))) + poll_delay d) (tables (w_queue w))\<rparr>"
proof -
  have p: "1 \<le> poll_delay d" by (simp add: poll_delay_def)
  obtain batch where batch: "stored_of cfg r = Inr batch" "sb_batch_id batch = q_batch_id r"
    using dec by (simp add: stored_of_def)
  obtain res net' where send: "d_send d (body_of d batch) (w_net w) = (Reply res, net')"
      "status_code res = 202"
    using acc unfolding accepts_only_def by blast
  have "wp (dispatch_once d) (\<lambda>res w'. res = \<lparr>outcome = outcome.ACCEPTED,
        batch_id = Some (q_batch_id r), child_batch_ids = []\<rparr>
      \<and> w_queue w' = (w_queue w)\<lparr>w_reads := w_reads (w_queue w) + 2,
        tables := defer_row (q_batch_id r)
          (w_clock (w_queue w) (Suc (w_reads (w_queue w))) + poll_delay d) (tables (w_queue w))\<rparr>)
      (\<lambda>_ _. False) w"
    using p by (simp add: dispatch_once_def q local_queue_api_def next_batch_def row load_row_def
      batch send handle_reply_def Let_def defer_batch_def wp_if done_with_def)
  from wp_total [OF this] show ?thesis by blast
qed

definition oldest_is :: "queued_row \<Rightarrow> seconds \<Rightarrow> queue_tables \<Rightarrow> bool" where
  "oldest_is r now t \<longleftrightarrow> r \<in> set (queued_batches t) \<and> q_next_attempt_at r \<le> now
     \<and> (\<forall>x\<in>set (queued_batches t). x = r \<or> (q_created_at r < q_created_at x \<and> q_batch_id x \<noteq> q_batch_id r))"

lemma oldest_is_next: "oldest_is r now t \<Longrightarrow> next_row now t = Some r"
proof -
  assume o: "oldest_is r now t"
  let ?due = "select_where (\<lambda>r. q_next_attempt_at r \<le> now) (queued_batches t)"
  have r: "r \<in> set ?due" using o by (simp add: oldest_is_def)
  have "set (order_by q_created_at ?due) \<noteq> {}" unfolding set_order_by using r by auto
  then have "order_by q_created_at ?due \<noteq> []" by (simp del: set_order_by)
  then obtain x where x: "next_row now t = Some x" unfolding next_row_def by fastforce
  note x' = x [unfolded next_row_def]
  have "q_created_at x \<le> q_created_at r" by (rule first_order_by_least [OF x' r])
  moreover have "x \<in> set (queued_batches t)" using first_order_by_mem [OF x'] by simp
  ultimately show ?thesis using o x by (auto simp: oldest_is_def)
qed

lemma oldest_after_defer:
  assumes "oldest_is r now t" and "at \<le> now'"
  shows "oldest_is (r\<lparr>q_attempts := q_attempts r + 1, q_next_attempt_at := at\<rparr>) now'
    (defer_row (q_batch_id r) at t)"
  using assms by (auto simp: oldest_is_def defer_row_def set_update_where)

lemma dispatch_accepts_all:
  assumes q: "d_queue d = local_queue_api cfg" and acc: "accepts_only d"
  shows "wp (dispatch_once d) (\<lambda>r w'. outcome r \<in> {outcome.ACCEPTED, EMPTY}
      \<and> map q_batch_id (queued_batches (tables (w_queue w'))) = map q_batch_id (queued_batches (tables (w_queue w))))
    (\<lambda>_ w'. map q_batch_id (queued_batches (tables (w_queue w')))
      = map q_batch_id (queued_batches (tables (w_queue w)))) w"
proof -
  obtain reply net' where send: "\<And>b net. d_send d b net = (Reply (reply b net), net' b net)"
      "\<And>b net. status_code (reply b net) = 202"
    using acc unfolding accepts_only_def by metis
  show ?thesis
    by (auto simp: dispatch_once_def q local_queue_api_def next_batch_def load_row_def send handle_reply_def
        Let_def defer_batch_def wp_if done_with_def defer_row_def map_update_where split: option.splits sum.splits)
qed

lemma dispatches_accept_all:
  assumes q: "d_queue d = local_queue_api cfg" and acc: "accepts_only d"
  shows "wp (dispatches d n) (\<lambda>rs w'. (\<forall>r\<in>set rs. outcome r \<in> {outcome.ACCEPTED, EMPTY})
      \<and> map q_batch_id (queued_batches (tables (w_queue w'))) = map q_batch_id (queued_batches (tables (w_queue w))))
    (\<lambda>_ w'. map q_batch_id (queued_batches (tables (w_queue w')))
      = map q_batch_id (queued_batches (tables (w_queue w)))) w"
proof (induction n arbitrary: w)
  case (Suc n)
  show ?case
    unfolding dispatches.simps wp_bindE
    by (rule wp_mono [OF dispatch_accepts_all [OF q acc]]) (auto intro: wp_mono [OF Suc.IH])
qed simp

text \<open>
  A dispatch reads the clock twice: when it selects a batch and when it defers it. Turns are apart if
  each dispatch selects no sooner than the poll delay after the one before deferred; nothing is said
  of the time one dispatch takes.
\<close>

definition turns_apart :: "('q, 's, 'n) dispatcher \<Rightarrow> (queue_state, 'n) world \<Rightarrow> bool" where
  "turns_apart d w \<longleftrightarrow> (\<forall>j. w_clock (w_queue w) (w_reads (w_queue w) + 2 * j + 1) + poll_delay d
     \<le> w_clock (w_queue w) (w_reads (w_queue w) + 2 * j + 2))"

lemma turns_apart_next:
  assumes "turns_apart d w" and "w_clock (w_queue w') = w_clock (w_queue w)"
    and "w_reads (w_queue w') = w_reads (w_queue w) + 2"
  shows "turns_apart d w'"
  unfolding turns_apart_def
proof
  fix j
  show "w_clock (w_queue w') (w_reads (w_queue w') + 2 * j + 1) + poll_delay d
      \<le> w_clock (w_queue w') (w_reads (w_queue w') + 2 * j + 2)"
    using assms(1) [unfolded turns_apart_def, rule_format, of "Suc j"] assms(2,3) by simp
qed

lemma dispatches_same_batch:
  assumes q: "d_queue d = local_queue_api cfg" and acc: "accepts_only d"
    and "oldest_is r (w_clock (w_queue w) (w_reads (w_queue w))) (tables (w_queue w))"
    and "decode cfg (q_payload r) \<noteq> None" and "turns_apart d w"
  shows "fst (dispatches d n w) = Inr (replicate n \<lparr>outcome = outcome.ACCEPTED,
      batch_id = Some (q_batch_id r), child_batch_ids = []\<rparr>)"
  using assms(3-)
proof (induction n arbitrary: w r)
  case (Suc n)
  obtain xs where xs: "decode cfg (q_payload r) = Some xs" using Suc.prems(2) by blast
  let ?at = "w_clock (w_queue w) (Suc (w_reads (w_queue w))) + poll_delay d"
  obtain w1 where one: "dispatch_once d w = (Inr \<lparr>outcome = outcome.ACCEPTED,
      batch_id = Some (q_batch_id r), child_batch_ids = []\<rparr>, w1)"
    and w1: "w_queue w1 = (w_queue w)\<lparr>w_reads := w_reads (w_queue w) + 2,
        tables := defer_row (q_batch_id r) ?at (tables (w_queue w))\<rparr>"
    using dispatch_accepted [OF q acc oldest_is_next [OF Suc.prems(1)] xs] by blast
  let ?r = "r\<lparr>q_attempts := q_attempts r + 1, q_next_attempt_at := ?at\<rparr>"
  have "?at \<le> w_clock (w_queue w) (w_reads (w_queue w) + 2)"
    using Suc.prems(3) [unfolded turns_apart_def, rule_format, of 0] by simp
  from oldest_after_defer [OF Suc.prems(1) this]
  have "oldest_is ?r (w_clock (w_queue w1) (w_reads (w_queue w1))) (tables (w_queue w1))"
    by (simp add: w1)
  moreover have "decode cfg (q_payload ?r) \<noteq> None" using xs by simp
  moreover have "turns_apart d w1" by (rule turns_apart_next [OF Suc.prems(3)]) (simp_all add: w1)
  ultimately have "fst (dispatches d n w1) = Inr (replicate n \<lparr>outcome = outcome.ACCEPTED,
      batch_id = Some (q_batch_id ?r), child_batch_ids = []\<rparr>)"
    by (rule Suc.IH)
  then show ?case by (auto simp: bindE_def one ret_def split: prod.splits sum.splits)
qed (simp add: ret_def)

text \<open>Property C8. A receipt settles nothing: against a server that answers every batch with 202 (which is what the
  ingestion endpoint does, as it stores batches before it processes them), whatever the clock shows, no
  number of dispatches takes a batch out of the queue, and none reports anything but a deferral or an
  empty queue. If the oldest batch can be decoded and each dispatch selects no sooner than the poll
  delay after the one before deferred, as with the default interval of the loop, all of them send
  that one batch.\<close>

theorem head_of_line:
  assumes "d_queue d = local_queue_api cfg" and "accepts_only d"
  shows "map q_batch_id (queued_batches (tables (w_queue (snd (dispatches d n w)))))
      = map q_batch_id (queued_batches (tables (w_queue w)))
    \<and> (\<forall>rs. fst (dispatches d n w) = Inr rs \<longrightarrow> (\<forall>r\<in>set rs. outcome r \<in> {outcome.ACCEPTED, EMPTY}))
    \<and> (\<forall>r. oldest_is r (w_clock (w_queue w) (w_reads (w_queue w))) (tables (w_queue w))
         \<and> decode cfg (q_payload r) \<noteq> None \<and> turns_apart d w
       \<longrightarrow> fst (dispatches d n w) = Inr (replicate n \<lparr>outcome = outcome.ACCEPTED,
             batch_id = Some (q_batch_id r), child_batch_ids = []\<rparr>))"
proof (intro conjI)
  show "map q_batch_id (queued_batches (tables (w_queue (snd (dispatches d n w)))))
      = map q_batch_id (queued_batches (tables (w_queue w)))"
    by (rule wp_sndI [OF wp_mono [OF dispatches_accept_all [OF assms]]]) auto
  show "\<forall>rs. fst (dispatches d n w) = Inr rs \<longrightarrow> (\<forall>r\<in>set rs. outcome r \<in> {outcome.ACCEPTED, EMPTY})"
    using dispatches_accept_all [OF assms, of n w] by (auto simp: wp_def split: prod.splits sum.splits)
qed (auto intro: dispatches_same_batch [OF assms])

text \<open>Without payload protection (the default off Windows) a batch the server rejects for good
  stops the agent: \<open>dispatch_once\<close> ends in \<open>PayloadProtectionUnavailable\<close>, which the main loop does
  not catch, the tables are unchanged, and so the same batch is next again after a restart.\<close>

theorem unprotected_rejection_stops_agent:
  assumes q: "d_queue d = local_queue_api cfg" and prot: "protect cfg = (\<lambda>_. None)"
    and row: "next_row (w_clock (w_queue w) (w_reads (w_queue w))) (tables (w_queue w)) = Some r"
    and dec: "stored_of cfg r = Inr batch" and enc: "encode cfg (sb_samples batch) \<noteq> None"
    and send: "d_send d (body_of d batch) (w_net w) = (Reply result, net')"
    and code: "status_code result = 422 \<or> (400 \<le> status_code result \<and> status_code result < 500
      \<and> status_code result \<notin> {413, 429})"
  shows "\<exists>w'. dispatch_once d w = (Inl (QueueFailed PayloadProtectionUnavailable), w')
    \<and> tables (w_queue w') = tables (w_queue w)"
proof -
  have "wp (dispatch_once d) (\<lambda>_ _. False) (\<lambda>e w'. e = QueueFailed PayloadProtectionUnavailable
      \<and> tables (w_queue w') = tables (w_queue w)) w"
    using enc code
    by (auto simp: dispatch_once_def q local_queue_api_def next_batch_def row load_row_def dec send
        handle_reply_def Let_def quarantine_batch_def prot split: option.splits)
  then show ?thesis by (auto simp: wp_def split: prod.splits sum.splits)
qed

section \<open>The invariant of the process\<close>

definition process_ok :: "('s, 'n, 'w) agent_config \<Rightarrow> ('n, 'w) process \<Rightarrow> bool" where
  "process_ok c p \<longleftrightarrow> store_ok (c_queue c) (w_queue (p_world p))
     \<and> gate_ok (r_actions (c_env c)) (map_of (c_keys c)) (g_store (p_agent p))"

lemma keeps_on_queue:
  "keeps P m \<Longrightarrow> keeps (\<lambda>w. P (w_queue w)) (on_queue m)"
  by (rule keepsI) (auto intro: wp_mono [OF keeps_wp])

lemma keeps_dispatch:
  assumes "d_queue d = local_queue_api cfg"
  shows "keeps (\<lambda>w. store_ok cfg (w_queue w)) (dispatch_once d)"
proof -
  have net: "keeps (\<lambda>w. store_ok cfg (w_queue w)) (on_net f)" for f
    by (rule keepsI) (simp split: prod.splits)
  have dr: "keeps (\<lambda>w. store_ok cfg (w_queue w)) draw" by (rule keepsI) simp
  have diag: "keeps (\<lambda>w. store_ok cfg (w_queue w)) (diagnose x)" for x by (rule keepsI) simp
  have sr: "keeps P (case x of Reply r \<Rightarrow> f r | NetworkError \<Rightarrow> g | SenderRaises \<Rightarrow> h)"
    if "\<And>r. keeps P (f r)" "keeps P g" "keeps P h" for P f g h x
    using that by (cases x) auto
  show ?thesis
    unfolding dispatch_once_def handle_reply_def handle_413_def defer_backoff_def done_with_def assms
      Let_def local_queue_api_def queue_api.simps
    by (rule keeps_bindE keeps_on_queue [OF keeps_next_batch] keeps_option keeps_ret net sr keeps_raise
        dr diag keeps_if keeps_prod keeps_on_queue [OF keeps_acknowledge]
        keeps_on_queue [OF keeps_defer] keeps_on_queue [OF keeps_split]
        keeps_on_queue [OF keeps_quarantine_batch] keeps_on_queue [OF keeps_quarantine_sample])+
qed

lemma keeps_collect:
  "keeps (process_ok c) (collect_and_enqueue (c_queue c) samples)"
proof -
  have "keeps (process_ok c) (on_world (on_queue (enqueue (c_queue c) samples None None 0 False)))"
    by (rule keepsI) (auto simp: process_ok_def intro: wp_mono [OF keeps_wp [OF keeps_enqueue]])
  then show ?thesis
    unfolding collect_and_enqueue_def
    by (intro keeps_rules) (auto intro!: keeps_rules split: process_error.splits dispatch_error.splits
        queue_error.splits)
qed

lemma keeps_main_turn:
  assumes "d_queue (c_dispatcher c) = local_queue_api (c_queue c)"
  shows "keeps (process_ok c) (main_turn c i)"
proof -
  have disp: "keeps (process_ok c) (on_world (dispatch_once (c_dispatcher c)))"
    by (rule keepsI) (auto simp: process_ok_def intro: wp_mono [OF keeps_wp [OF keeps_dispatch [OF assms]]])
  have poll: "keeps (process_ok c) (on_agent (poll_and_execute_actions (c_env c) (c_device c) (c_keys c)
      (t_now i) (c_handlers c) (t_items i)))"
    by (rule keepsI) (auto simp: process_ok_def
        intro!: wp_mono [OF poll_steps [OF rtranclp.rtrancl_refl]] intro: reachable_ok)
  show ?thesis
    unfolding main_turn_def
    by (intro keeps_rules keeps_collect disp poll) (auto simp: process_ok_def)
qed

text \<open>The two stores stay sound over any run of the main loop: from a well-formed queue and action
  store, after any number of turns with any answers from the server and whatever exception ends the
  process, the queue keeps its keys, sizes and quotas and the action store keeps its gate (unique
  orders, at most one invocation each, every stored order authorised).\<close>

theorem main_loop_invariant:
  assumes "d_queue (c_dispatcher c) = local_queue_api (c_queue c)" and "process_ok c p"
  shows "process_ok c (snd (main_loop c is p))"
proof -
  have "keeps (process_ok c) (main_loop c is)"
    by (induction "is") (auto intro: keeps_rules keeps_main_turn [OF assms(1)])
  from keepsD [OF this assms(2)] show ?thesis .
qed

section \<open>The properties at concrete inputs\<close>

definition sample_runtime :: runtime_env where
  "sample_runtime = \<lparr>r_actions = sample_env, py_text = (\<lambda>_. []), int_of_float = (\<lambda>_. None)\<rparr>"

definition sample_run_world :: "string list \<Rightarrow> nat \<Rightarrow> nat \<Rightarrow> (string + completed) \<times> nat" where
  "sample_run_world argv t w = (Inr \<lparr>returncode = 0, stdout = ''done'', stderr = []\<rparr>, w + length argv)"

definition other_run_world :: "string list \<Rightarrow> nat \<Rightarrow> nat \<Rightarrow> (string + completed) \<times> nat" where
  "other_run_world argv t w = (if allowed_command argv then sample_run_world argv t w else (Inl ''refused'', w))"

lemma only_catalogued_commands_witness:
  "make_action_handlers sample_runtime True sample_run_world (\<lambda>w. (Inr [], w))
   = make_action_handlers sample_runtime True other_run_world (\<lambda>w. (Inr [], w))"
  by (rule only_catalogued_commands) (simp add: other_run_world_def)

definition sample_item :: params where
  "sample_item = [(''id'', JStr (uuid_str 0x40008000000000000001)),
     (''organization_id'', JStr (uuid_str 0x40008000000000000002)),
     (''nonce'', JStr (uuid_str 0x40008000000000000004)), (''action_name'', JStr ''flush_dns''),
     (''issued_at'', JStr ''2024-01-01T00:00:00Z''), (''expires_at'', JStr ''2024-01-01T00:05:00Z''),
     (''order_digest'', JStr ''d''), (''signature'', JStr ''AAAA''), (''parameters_canonical'', JStr ''{}'')]"

definition sample_agent :: "nat action_agent" where
  "sample_agent = \<lparr>g_store = accepted_store, g_messages = [], g_executed = 0, g_errors = 0\<rparr>"

lemma sample_item_order:
  "order_of_item sample_runtime (uuid_str 0x40008000000000000003) sample_item
   = Some (sample_order ''AAAA'')"
  by (simp add: order_of_item_def text_or_none_def version_field_def field_def sample_item_def py_str_def
      uuid_of_uuid_str sample_order_def)

lemma replay_is_silent_witness:
  "g_messages (snd (handle_item sample_runtime (uuid_str 0x40008000000000000003) sample_keys
     1704067200000000 sample_handlers sample_item sample_agent)) = []"
proof -
  have "o_nonce (sample_order ''AAAA'') \<in> cn_nonce ` set (as_nonces (g_store sample_agent))
      \<or> o_execution_id (sample_order ''AAAA'') \<in> action_id ` set (as_actions (g_store sample_agent))"
    by (simp add: sample_agent_def accepted_store_eq sample_order_def)
  from replay_is_silent [OF sample_item_order this] show ?thesis by (simp add: sample_agent_def)
qed

definition waiting_row :: "uuid \<Rightarrow> seconds \<Rightarrow> queued_row" where
  "waiting_row b created = (sample_row b [1, 2] False)\<lparr>q_created_at := created\<rparr>"

definition waiting_world :: "(queue_state, unit) world" where
  "waiting_world = sample_world\<lparr>w_queue := \<lparr>tables = \<lparr>queued_batches = [waiting_row 1 10, waiting_row 2 20],
     batch_quarantine = [], sample_quarantine = [], local_audit = []\<rparr>,
     w_clock = (\<lambda>k. 30 * int (Suc k div 2)), w_reads = 1, w_uuid = word_of_nat, w_ids = 50\<rparr>\<rparr>"

lemmas waiting_defs = waiting_row_def waiting_world_def sample_row_def

lemma head_of_line_witness:
  "fst (dispatches (sample_dispatcher (answered 202)) 5 waiting_world)
     = Inr (replicate 5 \<lparr>outcome = outcome.ACCEPTED, batch_id = Some 1, child_batch_ids = []\<rparr>)
   \<and> map q_batch_id (queued_batches (tables (w_queue
       (snd (dispatches (sample_dispatcher (answered 202)) 5 waiting_world))))) = [1, 2]"
proof -
  have q: "d_queue (sample_dispatcher (answered 202)) = local_queue_api (plain_config 8)"
    and p: "poll_delay (sample_dispatcher (answered 202)) = 30"
    by (simp_all add: sample_dispatcher_def poll_delay_def)
  have acc: "accepts_only (sample_dispatcher (answered 202))"
    by (simp add: accepts_only_def sample_dispatcher_def answered_def)
  have old: "oldest_is (waiting_row 1 10) (w_clock (w_queue waiting_world) (w_reads (w_queue waiting_world)))
      (tables (w_queue waiting_world))"
    by (simp add: oldest_is_def waiting_defs)
  have dec: "decode (plain_config 8) (q_payload (waiting_row 1 10)) \<noteq> None"
    by (simp add: plain_config_def)
  have apart: "turns_apart (sample_dispatcher (answered 202)) waiting_world"
    by (simp add: turns_apart_def p waiting_world_def)
  have "map q_batch_id (queued_batches (tables (w_queue waiting_world))) = [1, 2]"
    and "q_batch_id (waiting_row 1 10) = 1"
    by (simp_all add: waiting_defs)
  with head_of_line [OF q acc, of 5 waiting_world] old dec apart show ?thesis by fastforce
qed

definition unprotected :: "byte queue_config" where
  "unprotected = (plain_config 8)\<lparr>protect := (\<lambda>_. None)\<rparr>"

lemma unprotected_rejection_stops_agent_witness:
  "\<exists>w'. dispatch_once ((sample_dispatcher (answered 422))\<lparr>d_queue := local_queue_api unprotected\<rparr>)
      sample_world = (Inl (QueueFailed PayloadProtectionUnavailable), w')
    \<and> tables (w_queue w') = tables (w_queue sample_world)"
proof (rule unprotected_rejection_stops_agent [OF _ _ sample_next])
  show "stored_of unprotected (sample_row 1 [1, 2] True) = Inr sample_head"
    by (simp add: stored_of_def sample_defs sample_head_def unprotected_def)
  show "d_send ((sample_dispatcher (answered 422))\<lparr>d_queue := local_queue_api unprotected\<rparr>)
      (body_of ((sample_dispatcher (answered 422))\<lparr>d_queue := local_queue_api unprotected\<rparr>) sample_head)
      (w_net sample_world) = (Reply \<lparr>status_code = 422, error_code = [], error_summary = [],
        remote_status = []\<rparr>, ())"
    by (simp add: sample_dispatcher_def answered_def)
qed (simp_all add: unprotected_def plain_config_def)

definition sample_config :: "(byte, unit, nat) agent_config" where
  "sample_config = \<lparr>c_queue = plain_config 8, c_dispatcher = sample_dispatcher (answered 202),
     c_env = sample_runtime, c_device = ''00000000-0000-4000-8000-000000000003'',
     c_keys = [(1, replicate 32 0)], c_handlers = sample_handlers, c_inventory_interval = 300\<rparr>"

definition sample_process :: "(unit, nat) process" where
  "sample_process = \<lparr>p_world = sample_world,
     p_agent = \<lparr>g_store = empty_store 0, g_messages = [], g_executed = 0, g_errors = 0\<rparr>,
     p_last_inventory = 0, p_outcomes = []\<rparr>"

definition sample_turn :: "byte turn_input" where
  "sample_turn = \<lparr>t_samples = [9], t_clock = 1704067200000000, t_inventory_fails = False,
     t_items = [sample_item], t_now = 1704067200000000\<rparr>"

lemma main_loop_invariant_witness:
  "process_ok sample_config (snd (main_loop sample_config [sample_turn, sample_turn] sample_process))"
proof (rule main_loop_invariant)
  show "process_ok sample_config sample_process"
    by (simp add: process_ok_def sample_config_def sample_process_def sample_world_def sample_defs
        tables_ok_def rows_ok_def within_quota_def queue_bytes_def quarantine_bytes_def row_ok_def
        gate_ok_def rows_unique_def invoked_ok_def empty_store_def)
qed (simp add: sample_config_def sample_dispatcher_def)

lemma identity_canonical_witness:
  "list_all (\<lambda>c. \<not> py_space c) ''token''"
proof -
  have "resolve_identity sample_runtime [] [''NEXUS_AGENT_DEVICE_ID'' \<mapsto> uuid_str 0x40008000000000000003,
      ''NEXUS_AGENT_TOKEN'' \<mapsto> '' token '']
    = Inr (uuid_str 0x40008000000000000003, ''token'')"
  proof -
    have "py_strip '' token '' = ''token''" by code_simp
    moreover have "py_strip (uuid_str w) = uuid_str w" for w by (rule py_strip_uuid)
    moreover have "uuid_str w \<noteq> []" for w by (simp add: uuid_str_def)
    ultimately show ?thesis
      by (simp add: resolve_identity_def py_str_def uuid_of_uuid_str sample_versions py_space_def)
  qed
  from identity_canonical [OF this] show ?thesis by blast
qed

end
