(* ===== verification/Metric_Store.thy ===== *)
theory Metric_Store
  imports Prelude
begin

text \<open>
  The tables of the metric subsystem, migration
  \<open>backend/migrations/versions/20260824_0013_metrics_alerts.py\<close>, with their constraints, the
  schemas of \<open>backend/app/metrics/schemas.py\<close> and the records of \<open>backend/app/metrics/service.py\<close>.

  A payload is a list of JSON values of type \<open>'j\<close>. What pydantic makes of one value, the canonical
  JSON of a sample, SHA-256 over the canonical text, \<open>uuid5\<close> and \<open>pg_column_size\<close> (of a payload and of labels) are parameters
  (\<open>metric_env\<close>). Instants are microseconds, \<open>Numeric(14, 4)\<close> values ten-thousandths.
\<close>

section \<open>Rows\<close>

datatype batch_status =
  RECEIVED | PROCESSING | PROCESSED | DLQ | AWAITING_REUPLOAD | DLQ_EXHAUSTED

record 'j batch_row =
  mb_org :: uuid
  mb_device :: uuid
  mb_id :: uuid
  mb_status :: batch_status
  mb_sample_count :: nat
  mb_retry :: int
  mb_reprocess :: int
  mb_digest :: string
  mb_error_code :: "string option"
  mb_error_summary :: "string option"
  mb_payload :: "'j list option"
  mb_received_at :: int
  mb_processed_at :: "int option"

record sample_input =
  si_name :: string
  si_value :: int
  si_recorded_at :: int
  si_labels :: "(string \<times> string) list"

record sample_row =
  ms_org :: uuid
  ms_id :: uuid
  ms_device :: uuid
  ms_name :: string
  ms_value :: int
  ms_labels :: "(string \<times> string) list"
  ms_recorded_at :: int

datatype comparison_operator = GT | GTE | LT | LTE | EQ
datatype alert_severity = INFO | WARNING | CRITICAL
datatype alert_status = OPEN | ACKNOWLEDGED | RESOLVED | SUPPRESSED

record rule_row =
  ar_org :: uuid
  ar_id :: uuid
  ar_name :: string
  ar_metric :: string
  ar_operator :: comparison_operator
  ar_threshold :: int
  ar_duration :: int
  ar_severity :: alert_severity
  ar_enabled :: bool
  ar_created_at :: int

record alert_row =
  al_org :: uuid
  al_id :: uuid
  al_rule :: "uuid option"
  al_device :: uuid
  al_severity :: alert_severity
  al_status :: alert_status
  al_message :: string
  al_triggered_at :: int
  al_resolved_at :: "int option"

record audit_row =
  au_id :: uuid
  au_org :: uuid
  au_actor :: "uuid option"
  au_actor_type :: string
  au_ip :: "string option"
  au_user_agent :: "string option"
  au_action :: string
  au_resource :: uuid
  au_status :: string
  au_details :: "(string \<times> string) list"
  au_created_at :: int

record device_row =
  dv_org :: uuid
  dv_id :: uuid
  dv_active :: bool
  dv_last_seen :: "int option"
  dv_updated_at :: int

record assignment_row =
  as_org :: uuid
  as_device :: uuid
  as_user :: uuid

record 'j metric_db =
  batches :: "'j batch_row list"
  samples :: "sample_row list"
  rules :: "rule_row list"
  alerts :: "alert_row list"
  audits :: "audit_row list"
  devices :: "device_row list"
  assignments :: "assignment_row list"

record 'j metric_env =
  parse_sample :: "'j \<Rightarrow> sample_input option"
  canonical_json :: "sample_input \<Rightarrow> 'j"
  digest_of :: "'j list \<Rightarrow> string"
  uuid5 :: "uuid \<Rightarrow> string \<Rightarrow> uuid"
  column_size :: "'j list \<Rightarrow> nat"
  label_size :: "(string \<times> string) list \<Rightarrow> nat"

datatype metric_error =
    BatchIdentityCollision | BatchNotFound | BatchStateRejected | BatchDecisionConflict
  | DatabaseError | MetricAccessRejected | BatchDigestMismatch | MetricsUnavailable

type_synonym ('j, 'a) meff = "('j metric_db, metric_error, 'a) eff"

section \<open>Patterns\<close>

definition lower_hex :: "char \<Rightarrow> bool" where
  "lower_hex c \<longleftrightarrow> is_digit c \<or> (97 \<le> ord_of c \<and> ord_of c \<le> 102)"

definition digest_shape :: "string \<Rightarrow> bool" where
  "digest_shape s \<longleftrightarrow> length s = 64 \<and> list_all lower_hex s"

definition name_char :: "char \<Rightarrow> bool" where
  "name_char c \<longleftrightarrow> is_lower c \<or> is_digit c \<or> c \<in> {CHR ''_'', CHR ''.'', CHR ''-''}"

definition metric_name_shape :: "string \<Rightarrow> bool" where
  "metric_name_shape s = (case s of [] \<Rightarrow> False
     | c # cs \<Rightarrow> is_lower c \<and> length cs \<le> 99 \<and> list_all name_char cs)"

definition label_name_shape :: "string \<Rightarrow> bool" where
  "label_name_shape s = (case s of [] \<Rightarrow> False
     | c # cs \<Rightarrow> (is_lower c \<or> is_upper c) \<and> length cs \<le> 63
        \<and> list_all (\<lambda>d. name_char d \<or> is_upper d) cs)"

definition error_code_shape :: "string \<Rightarrow> bool" where
  "error_code_shape s = (case s of [] \<Rightarrow> False
     | c # cs \<Rightarrow> is_upper c \<and> length cs \<le> 49
        \<and> list_all (\<lambda>d. is_upper d \<or> is_digit d \<or> d = CHR ''_'') cs)"

fun digit_str :: "nat \<Rightarrow> string" where
  "digit_str n = (if n < 10 then [char_of (48 + n)]
     else digit_str (n div 10) @ [char_of (48 + n mod 10)])"

declare digit_str.simps [simp del]

section \<open>Schemas\<close>

definition MAX_BATCH_SAMPLES :: nat where "MAX_BATCH_SAMPLES = 2000"
definition MAX_LABELS :: nat where "MAX_LABELS = 16"

text \<open>
  \<open>MetricSampleInput\<close>: at most 14 digits, 4 of them decimals. The check of the time zone is part of
  \<open>parse_sample\<close>, which yields an instant.
\<close>

definition sample_input_ok :: "sample_input \<Rightarrow> bool" where
  "sample_input_ok s \<longleftrightarrow> metric_name_shape (si_name s) \<and> \<bar>si_value s\<bar> < 10 ^ 14
     \<and> length (si_labels s) \<le> MAX_LABELS
     \<and> list_all (\<lambda>(k, v). label_name_shape k \<and> length v \<le> 128) (si_labels s)"

definition model_validate :: "'j metric_env \<Rightarrow> 'j \<Rightarrow> sample_input option" where
  "model_validate env j = (case parse_sample env j of
     Some s \<Rightarrow> if sample_input_ok s then Some s else None | None \<Rightarrow> None)"

fun validate_all :: "'j metric_env \<Rightarrow> 'j list \<Rightarrow> sample_input list option" where
  "validate_all env [] = Some []"
| "validate_all env (j # js) = (case (model_validate env j, validate_all env js) of
     (Some s, Some ss) \<Rightarrow> Some (s # ss) | _ \<Rightarrow> None)"

record batch_input =
  bi_batch_id :: uuid
  bi_digest :: string
  bi_samples :: "sample_input list"

definition batch_input_ok :: "batch_input \<Rightarrow> bool" where
  "batch_input_ok b \<longleftrightarrow> digest_shape (bi_digest b) \<and> list_all sample_input_ok (bi_samples b)
     \<and> 1 \<le> length (bi_samples b) \<and> length (bi_samples b) \<le> MAX_BATCH_SAMPLES"

definition canonical_samples :: "'j metric_env \<Rightarrow> sample_input list \<Rightarrow> 'j list" where
  "canonical_samples env ss = map (canonical_json env) ss"

definition computed_digest :: "'j metric_env \<Rightarrow> sample_input list \<Rightarrow> string" where
  "computed_digest env ss = digest_of env (canonical_samples env ss)"

text \<open>\<open>" ".join(value.split())\<close> and its bounds.\<close>

fun py_split :: "string \<Rightarrow> string \<Rightarrow> string list" where
  "py_split word [] = (if word = [] then [] else [word])"
| "py_split word (c # cs) =
     (if py_space c then (if word = [] then py_split [] cs else word # py_split [] cs)
      else py_split (word @ [c]) cs)"

fun join_blank :: "string list \<Rightarrow> string" where
  "join_blank [] = []"
| "join_blank [w] = w"
| "join_blank (w # v # ws) = w @ '' '' @ join_blank (v # ws)"

definition normalize_reason :: "string \<Rightarrow> string option" where
  "normalize_reason value =
     (let normalized = join_blank (py_split [] value)
      in if 10 \<le> length value \<and> length value \<le> 255
            \<and> 10 \<le> length normalized \<and> length normalized \<le> 255
         then Some normalized else None)"

section \<open>Constraints\<close>

definition batch_checks :: "'j metric_env \<Rightarrow> 'j batch_row \<Rightarrow> bool" where
  "batch_checks env r \<longleftrightarrow> 1 \<le> mb_sample_count r \<and> mb_sample_count r \<le> 2000
     \<and> 0 \<le> mb_retry r \<and> mb_retry r \<le> 3 \<and> 0 \<le> mb_reprocess r \<and> mb_reprocess r \<le> 3
     \<and> digest_shape (mb_digest r)
     \<and> (case mb_error_code r of None \<Rightarrow> True | Some c \<Rightarrow> error_code_shape c)
     \<and> (case mb_error_summary r of None \<Rightarrow> True | Some m \<Rightarrow> length m \<le> 255)
     \<and> (case mb_payload r of None \<Rightarrow> True | Some p \<Rightarrow> column_size env p \<le> 524288)"

definition sample_checks :: "'j metric_env \<Rightarrow> sample_row \<Rightarrow> bool" where
  "sample_checks env r \<longleftrightarrow> metric_name_shape (ms_name r) \<and> \<bar>ms_value r\<bar> < 10 ^ 14
     \<and> label_size env (ms_labels r) \<le> 8192"

definition alert_checks :: "alert_row \<Rightarrow> bool" where
  "alert_checks a \<longleftrightarrow> 1 \<le> length (btrim (al_message a)) \<and> length (al_message a) \<le> 500
     \<and> (al_status a = RESOLVED \<longleftrightarrow> al_resolved_at a \<noteq> None)"

definition active_alert :: "alert_row \<Rightarrow> bool" where
  "active_alert a \<longleftrightarrow> al_status a \<in> {OPEN, ACKNOWLEDGED, SUPPRESSED}"

text \<open>The partial unique index \<open>uq_alerts_active_rule_device\<close>.\<close>

definition same_active :: "alert_row \<Rightarrow> alert_row \<Rightarrow> bool" where
  "same_active a b \<longleftrightarrow> al_org a = al_org b \<and> al_rule a = al_rule b \<and> al_device a = al_device b
     \<and> al_rule a \<noteq> None \<and> active_alert a \<and> active_alert b"

definition rule_checks :: "rule_row \<Rightarrow> bool" where
  "rule_checks r \<longleftrightarrow> 1 \<le> length (btrim (ar_name r)) \<and> length (ar_name r) \<le> 150
     \<and> metric_name_shape (ar_metric r) \<and> 0 \<le> ar_duration r \<and> ar_duration r \<le> 86400"

definition device_exists :: "uuid \<Rightarrow> uuid \<Rightarrow> 'j metric_db \<Rightarrow> bool" where
  "device_exists org dev db \<longleftrightarrow> (org, dev) \<in> (\<lambda>d. (dv_org d, dv_id d)) ` set (devices db)"

definition batch_key :: "'j batch_row \<Rightarrow> uuid \<times> uuid \<times> uuid" where
  "batch_key r = (mb_org r, mb_device r, mb_id r)"

definition sample_key :: "sample_row \<Rightarrow> uuid \<times> uuid \<times> int" where
  "sample_key r = (ms_org r, ms_id r, ms_recorded_at r)"

text \<open>
  The insert of an alert without \<open>ON CONFLICT\<close>: checks, primary key, the unique index, and the
  foreign keys to the rule and the device.
\<close>

definition insert_alert :: "alert_row \<Rightarrow> ('j, unit) meff" where
  "insert_alert a = bindE (reads id) (\<lambda>db.
     if \<not> alert_checks a \<or> (\<exists>b\<in>set (alerts db). (al_org b = al_org a \<and> al_id b = al_id a) \<or> same_active a b)
        \<or> \<not> device_exists (al_org a) (al_device a) db
        \<or> (case al_rule a of None \<Rightarrow> False
           | Some r \<Rightarrow> (al_org a, r) \<notin> (\<lambda>x. (ar_org x, ar_id x)) ` set (rules db))
     then raise DatabaseError
     else writes (\<lambda>db. db\<lparr>alerts := alerts db @ [a]\<rparr>))"

text \<open>\<open>_append_audit\<close>; the primary key of \<open>audit_logs\<close> is its identifier.\<close>

record audit_context =
  ac_ip :: "string option"
  ac_user_agent :: "string option"

definition clean_user_agent :: "string option \<Rightarrow> string option" where
  "clean_user_agent ua = (let s = take 255 (py_strip (case ua of Some u \<Rightarrow> u | None \<Rightarrow> []))
     in if s = [] then None else Some s)"

definition append_audit ::
  "uuid \<Rightarrow> uuid \<Rightarrow> uuid option \<Rightarrow> string \<Rightarrow> string \<Rightarrow> uuid \<Rightarrow> string \<Rightarrow> (string \<times> string) list
   \<Rightarrow> audit_context option \<Rightarrow> int \<Rightarrow> ('j, unit) meff" where
  "append_audit i org actor actor_type action resource st details ctx now = bindE (reads audits) (\<lambda>rows.
     if i \<in> au_id ` set rows then raise DatabaseError
     else writes (\<lambda>db. db\<lparr>audits := audits db @ [\<lparr>au_id = i, au_org = org, au_actor = actor,
       au_actor_type = actor_type, au_ip = Option.bind ctx ac_ip,
       au_user_agent = (case ctx of Some c \<Rightarrow> clean_user_agent (ac_user_agent c) | None \<Rightarrow> None),
       au_action = action, au_resource = resource, au_status = st, au_details = details,
       au_created_at = now\<rparr>]\<rparr>))"

end
