(* ===== verification/Metric_Batches.thy ===== *)
theory Metric_Batches
  imports Metric_Store
begin

text \<open>
  The life of a metric batch on the server: \<open>PostgresMetricRepository\<close> in
  \<open>backend/app/metrics/postgres.py\<close> and the checks \<open>MetricsApplication\<close> adds in
  \<open>backend/app/metrics/service.py\<close>.

  Every repository method is one transaction on the tables (\<open>txn\<close>), but for
  \<open>process_next_batch\<close>, which claims a batch in one and stores its samples in another; the process
  may die between them (\<open>claim_next\<close> alone). Identifiers from \<open>uuid4\<close> and the transaction time are
  arguments. Rows locked by another worker (\<open>SKIP LOCKED\<close>) are an argument too.
\<close>

section \<open>Reading\<close>

definition batch_at :: "uuid \<Rightarrow> uuid \<Rightarrow> uuid \<Rightarrow> 'j batch_row \<Rightarrow> bool" where
  "batch_at org dev b r \<longleftrightarrow> mb_org r = org \<and> mb_device r = dev \<and> mb_id r = b"

definition find_batch :: "uuid \<Rightarrow> uuid \<Rightarrow> uuid \<Rightarrow> 'j metric_db \<Rightarrow> 'j batch_row option" where
  "find_batch org dev b db = first_row (select_where (batch_at org dev b) (batches db))"

definition detail :: "string \<Rightarrow> audit_row \<Rightarrow> string option" where
  "detail k a = map_of (au_details a) k"

definition latest_decision :: "uuid \<Rightarrow> uuid \<Rightarrow> 'j metric_db \<Rightarrow> string option" where
  "latest_decision org b db =
     Option.bind (first_row (order_by (\<lambda>a. - au_created_at a)
       (select_where (\<lambda>a. au_org a = org \<and> au_resource a = b
          \<and> au_action a = ''METRIC_BATCH.DECISION'') (audits db)))) (detail ''action'')"

record status_record =
  sr_id :: uuid
  sr_status :: batch_status
  sr_retry :: int
  sr_reprocess :: int
  sr_error_code :: "string option"
  sr_decision :: "string option"

definition status_of_row :: "'j batch_row \<Rightarrow> string option \<Rightarrow> status_record" where
  "status_of_row r decision = \<lparr>sr_id = mb_id r, sr_status = mb_status r, sr_retry = mb_retry r,
     sr_reprocess = mb_reprocess r, sr_error_code = mb_error_code r, sr_decision = decision\<rparr>"

record receipt =
  rc_id :: uuid
  rc_status :: batch_status
  rc_duplicate :: bool

definition get_batch_status :: "uuid \<Rightarrow> uuid \<Rightarrow> uuid \<Rightarrow> ('j, status_record) meff" where
  "get_batch_status org dev b = bindE (reads id) (\<lambda>db. case find_batch org dev b db of
     None \<Rightarrow> raise BatchNotFound
   | Some r \<Rightarrow> ret (status_of_row r (latest_decision org b db)))"

definition get_batch_statuses :: "uuid \<Rightarrow> uuid \<Rightarrow> uuid list \<Rightarrow> ('j, status_record list) meff" where
  "get_batch_statuses org dev bs = reads (\<lambda>db.
     map (\<lambda>r. status_of_row r (latest_decision org (mb_id r) db))
       (select_where (\<lambda>r. mb_org r = org \<and> mb_device r = dev \<and> mb_id r \<in> set bs) (batches db)))"

record diagnostics =
  dg_id :: uuid
  dg_status :: batch_status
  dg_retry :: int
  dg_reprocess :: int
  dg_digest :: string
  dg_error_code :: "string option"
  dg_error_summary :: "string option"
  dg_received_at :: int
  dg_processed_at :: "int option"

definition export_diagnostics :: "uuid \<Rightarrow> uuid \<Rightarrow> uuid \<Rightarrow> ('j, diagnostics) meff" where
  "export_diagnostics org dev b = bindE (reads (find_batch org dev b)) (\<lambda>row. case row of
     None \<Rightarrow> raise BatchNotFound
   | Some r \<Rightarrow> ret \<lparr>dg_id = mb_id r, dg_status = mb_status r, dg_retry = mb_retry r,
       dg_reprocess = mb_reprocess r, dg_digest = mb_digest r, dg_error_code = mb_error_code r,
       dg_error_summary = mb_error_summary r, dg_received_at = mb_received_at r,
       dg_processed_at = mb_processed_at r\<rparr>)"

section \<open>Ingestion\<close>

definition new_batch ::
  "uuid \<Rightarrow> uuid \<Rightarrow> uuid \<Rightarrow> string \<Rightarrow> 'j list \<Rightarrow> int \<Rightarrow> 'j batch_row" where
  "new_batch org dev b digest payload now = \<lparr>mb_org = org, mb_device = dev, mb_id = b,
     mb_status = RECEIVED, mb_sample_count = length payload, mb_retry = 0, mb_reprocess = 0,
     mb_digest = digest, mb_error_code = None, mb_error_summary = None, mb_payload = Some payload,
     mb_received_at = now, mb_processed_at = None\<rparr>"

definition touch_device :: "uuid \<Rightarrow> uuid \<Rightarrow> int \<Rightarrow> 'j metric_db \<Rightarrow> 'j metric_db" where
  "touch_device org dev now db = db\<lparr>devices := update_where
     (\<lambda>d. dv_org d = org \<and> dv_id d = dev \<and> dv_active d)
     (\<lambda>d. d\<lparr>dv_last_seen := Some now, dv_updated_at := max (dv_updated_at d) now\<rparr>) (devices db)\<rparr>"

definition ingest_batch ::
  "'j metric_env \<Rightarrow> uuid \<Rightarrow> uuid \<Rightarrow> uuid \<Rightarrow> string \<Rightarrow> 'j list \<Rightarrow> int \<Rightarrow> ('j, receipt) meff" where
  "ingest_batch env org dev b digest payload now = txn (bindE (reads id) (\<lambda>db.
     let row = new_batch org dev b digest payload now in
     if \<not> batch_checks env row then raise DatabaseError
     else case find_batch org dev b db of
       Some existing \<Rightarrow>
         if mb_digest existing \<noteq> digest then raise BatchIdentityCollision
         else ret \<lparr>rc_id = mb_id existing, rc_status = mb_status existing, rc_duplicate = True\<rparr>
     | None \<Rightarrow>
         if \<not> device_exists org dev db then raise DatabaseError
         else bindE (writes (\<lambda>db. touch_device org dev now (db\<lparr>batches := batches db @ [row]\<rparr>)))
           (\<lambda>_. ret \<lparr>rc_id = b, rc_status = RECEIVED, rc_duplicate = False\<rparr>)))"

section \<open>Retry, re-upload, decision\<close>

definition update_batch ::
  "uuid \<Rightarrow> uuid \<Rightarrow> uuid \<Rightarrow> ('j batch_row \<Rightarrow> 'j batch_row) \<Rightarrow> 'j metric_db \<Rightarrow> 'j metric_db" where
  "update_batch org dev b f db = db\<lparr>batches := update_where (batch_at org dev b) f (batches db)\<rparr>"

definition write_batch ::
  "'j metric_env \<Rightarrow> 'j batch_row \<Rightarrow> ('j batch_row \<Rightarrow> 'j batch_row) \<Rightarrow> ('j, unit) meff" where
  "write_batch env r f = (if batch_checks env (f r)
     then writes (update_batch (mb_org r) (mb_device r) (mb_id r) f) else raise DatabaseError)"

definition authorize_retry ::
  "'j metric_env \<Rightarrow> uuid \<Rightarrow> uuid \<Rightarrow> uuid \<Rightarrow> uuid \<Rightarrow> string \<Rightarrow> audit_context \<Rightarrow> uuid \<Rightarrow> int
   \<Rightarrow> ('j, status_record) meff" where
  "authorize_retry env org dev b actor reason ctx audit_id now = txn (bindE (reads (find_batch org dev b))
     (\<lambda>row. case row of
        None \<Rightarrow> raise BatchNotFound
      | Some r \<Rightarrow>
          if mb_status r = AWAITING_REUPLOAD then ret (status_of_row r None)
          else if mb_status r \<noteq> DLQ \<or> mb_reprocess r \<ge> 3 then raise BatchStateRejected
          else
            let f = (\<lambda>r. r\<lparr>mb_status := AWAITING_REUPLOAD, mb_retry := 0,
              mb_reprocess := mb_reprocess r + 1\<rparr>) in
            bindE (write_batch env r f) (\<lambda>_.
            bindE (append_audit audit_id org (Some actor) ''USER'' ''METRIC_BATCH.RETRY'' b ''SUCCESS''
              [(''reason'', reason)] (Some ctx) now) (\<lambda>_. ret (status_of_row (f r) None)))))"

text \<open>A collision is recorded and committed; the exception is raised after the transaction.\<close>

definition reupload_batch ::
  "'j metric_env \<Rightarrow> uuid \<Rightarrow> uuid \<Rightarrow> uuid \<Rightarrow> string \<Rightarrow> 'j list \<Rightarrow> uuid \<Rightarrow> int \<Rightarrow> ('j, receipt) meff" where
  "reupload_batch env org dev b digest payload audit_id now =
     bindE (txn (bindE (reads (find_batch org dev b)) (\<lambda>row. case row of
        None \<Rightarrow> raise BatchNotFound
      | Some r \<Rightarrow>
          if mb_digest r \<noteq> digest then
            bindE (append_audit audit_id org (Some dev) ''AGENT'' ''METRIC_BATCH.REUPLOAD_COLLISION'' b
              ''DENIED'' [(''error_code'', ''COLLISION_BATCH_DIGEST_MISMATCH'')] None now) (\<lambda>_. ret True)
          else if mb_status r \<noteq> AWAITING_REUPLOAD then raise BatchStateRejected
          else bindE (write_batch env r (\<lambda>r. r\<lparr>mb_status := RECEIVED, mb_retry := 0,
              mb_sample_count := length payload, mb_payload := Some payload,
              mb_error_code := None, mb_error_summary := None\<rparr>)) (\<lambda>_. ret False)))) (\<lambda>collision.
     if collision then raise BatchIdentityCollision
     else ret \<lparr>rc_id = b, rc_status = RECEIVED, rc_duplicate = False\<rparr>)"

definition decide_exhausted_batch ::
  "uuid \<Rightarrow> uuid \<Rightarrow> uuid \<Rightarrow> uuid \<Rightarrow> string \<Rightarrow> string \<Rightarrow> audit_context \<Rightarrow> uuid \<Rightarrow> int
   \<Rightarrow> ('j, status_record) meff" where
  "decide_exhausted_batch org dev b actor action reason ctx audit_id now = txn (bindE (reads id) (\<lambda>db.
     case find_batch org dev b db of
       None \<Rightarrow> raise BatchNotFound
     | Some r \<Rightarrow>
         if mb_status r \<noteq> DLQ_EXHAUSTED then raise BatchStateRejected
         else let previous = latest_decision org b db in
           if previous = Some action then ret (status_of_row r previous)
           else if previous = Some ''PURGE_LOCAL'' \<and> action = ''RETAIN'' then raise BatchDecisionConflict
           else bindE (append_audit audit_id org (Some actor) ''USER'' ''METRIC_BATCH.DECISION'' b
               ''SUCCESS'' [(''action'', action), (''reason'', reason)] (Some ctx) now)
             (\<lambda>_. ret (status_of_row r (Some action)))))"

section \<open>Processing\<close>

definition sanitize_processing_failure :: "string \<Rightarrow> string \<times> string" where
  "sanitize_processing_failure code =
     (if code = ''INVALID_PAYLOAD'' then (code, ''Metric payload failed validation'')
      else if code = ''STORAGE_ERROR'' then (code, ''Metric storage failed'')
      else (''PROCESSING_ERROR'', ''Metric processing failed''))"

definition next_failure_state :: "int \<Rightarrow> int \<Rightarrow> int \<times> batch_status" where
  "next_failure_state retry_count reprocess_count =
     (let next_retry = min (retry_count + 1) 3
      in if next_retry < 3 then (next_retry, RECEIVED)
         else if reprocess_count \<ge> 3 then (next_retry, DLQ_EXHAUSTED)
         else (next_retry, DLQ))"

definition exhausted_alert :: "'j metric_env \<Rightarrow> uuid \<Rightarrow> uuid \<Rightarrow> uuid \<Rightarrow> int \<Rightarrow> alert_row" where
  "exhausted_alert env org dev b now = \<lparr>al_org = org, al_id = uuid5 env b ''dlq-exhausted'',
     al_rule = None, al_device = dev, al_severity = CRITICAL, al_status = OPEN,
     al_message = ''Metric batch exhausted all reprocessing attempts'',
     al_triggered_at = now, al_resolved_at = None\<rparr>"

text \<open>\<open>INSERT ... ON CONFLICT (organization_id, id) DO NOTHING\<close>.\<close>

definition insert_alert_once :: "alert_row \<Rightarrow> ('j, unit) meff" where
  "insert_alert_once a = bindE (reads alerts) (\<lambda>rows.
     if \<exists>b\<in>set rows. al_org b = al_org a \<and> al_id b = al_id a then ret () else insert_alert a)"

definition record_processing_failure ::
  "'j metric_env \<Rightarrow> uuid \<Rightarrow> uuid \<Rightarrow> uuid \<Rightarrow> string \<Rightarrow> uuid \<Rightarrow> int \<Rightarrow> ('j, batch_status) meff" where
  "record_processing_failure env org dev b code audit_id now =
     (let (error_code, error_summary) = sanitize_processing_failure code in
      txn (bindE (reads (find_batch org dev b)) (\<lambda>row. case row of
        None \<Rightarrow> raise BatchNotFound
      | Some r \<Rightarrow>
          if mb_status r \<noteq> PROCESSING then raise BatchStateRejected
          else let (next_retry, st) = next_failure_state (mb_retry r) (mb_reprocess r) in
            bindE (write_batch env r (\<lambda>r. r\<lparr>mb_status := st, mb_retry := next_retry,
              mb_error_code := Some error_code, mb_error_summary := Some error_summary,
              mb_payload := (if st \<in> {DLQ, DLQ_EXHAUSTED} then None else mb_payload r)\<rparr>)) (\<lambda>_.
            bindE (if st = DLQ_EXHAUSTED then
                bindE (insert_alert_once (exhausted_alert env org dev b now)) (\<lambda>_.
                  append_audit audit_id org None ''SYSTEM'' ''METRIC_BATCH.DLQ_EXHAUSTED'' b ''FAILURE''
                    [(''error_code'', error_code)] None now)
              else ret ()) (\<lambda>_. ret st)))))"

text \<open>The first transaction: the oldest received batch of the organisation that nobody has locked.\<close>

definition next_received :: "uuid \<Rightarrow> (uuid \<times> uuid \<Rightarrow> bool) \<Rightarrow> 'j metric_db \<Rightarrow> 'j batch_row option" where
  "next_received org locked db = first_row (order_by mb_received_at (order_by (unat \<circ> mb_id)
     (select_where (\<lambda>r. mb_org r = org \<and> mb_status r = RECEIVED \<and> \<not> locked (mb_device r, mb_id r))
       (batches db))))"

definition claim_next ::
  "uuid \<Rightarrow> (uuid \<times> uuid \<Rightarrow> bool) \<Rightarrow> ('j, 'j batch_row option) meff" where
  "claim_next org locked = bindE (reads (next_received org locked)) (\<lambda>row. case row of
     None \<Rightarrow> ret None
   | Some r \<Rightarrow> bindE (writes (update_batch org (mb_device r) (mb_id r) (\<lambda>x.
       if mb_status x = RECEIVED then x\<lparr>mb_status := PROCESSING\<rparr> else x))) (\<lambda>_. ret (Some r)))"

definition sample_rows ::
  "'j metric_env \<Rightarrow> uuid \<Rightarrow> uuid \<Rightarrow> uuid \<Rightarrow> sample_input list \<Rightarrow> sample_row list" where
  "sample_rows env org dev b ss = map (\<lambda>(i, s). \<lparr>ms_org = org, ms_id = uuid5 env b (digit_str i),
     ms_device = dev, ms_name = si_name s, ms_value = si_value s, ms_labels = si_labels s,
     ms_recorded_at = si_recorded_at s\<rparr>) (enumerate 0 ss)"

definition insert_sample :: "sample_row \<Rightarrow> 'j metric_db \<Rightarrow> 'j metric_db" where
  "insert_sample x db = (if sample_key x \<in> sample_key ` set (samples db) then db
     else db\<lparr>samples := samples db @ [x]\<rparr>)"

text \<open>The second transaction; \<open>storage_fails\<close> stands for an exception of the storage.\<close>

definition store_samples ::
  "'j metric_env \<Rightarrow> uuid \<Rightarrow> uuid \<Rightarrow> uuid \<Rightarrow> sample_input list \<Rightarrow> bool \<Rightarrow> int \<Rightarrow> ('j, unit) meff" where
  "store_samples env org dev b ss storage_fails now = txn (bindE (reads (find_batch org dev b))
     (\<lambda>row. case row of
        None \<Rightarrow> raise BatchNotFound
      | Some r \<Rightarrow>
          if mb_status r \<noteq> PROCESSING then raise BatchStateRejected
          else bindE (reads id) (\<lambda>db.
            if storage_fails \<or> \<not> list_all (sample_checks env) (sample_rows env org dev b ss)
               \<or> \<not> device_exists org dev db
            then raise DatabaseError
            else bindE (writes (\<lambda>db. foldl (\<lambda>db x. insert_sample x db) db (sample_rows env org dev b ss)))
              (\<lambda>_. writes (update_batch org dev b (\<lambda>x. if mb_status x = PROCESSING
                then x\<lparr>mb_status := PROCESSED, mb_payload := None, mb_error_code := None,
                  mb_error_summary := None, mb_processed_at := Some now\<rparr> else x))))))"

definition payload_samples :: "'j metric_env \<Rightarrow> 'j batch_row \<Rightarrow> sample_input list option" where
  "payload_samples env r = (case mb_payload r of
     None \<Rightarrow> None | Some raw \<Rightarrow> if raw = [] then None else validate_all env raw)"

definition finish_batch ::
  "'j metric_env \<Rightarrow> 'j batch_row \<Rightarrow> bool \<Rightarrow> uuid \<Rightarrow> int \<Rightarrow> ('j, receipt) meff" where
  "finish_batch env r storage_fails audit_id now =
     (let org = mb_org r; dev = mb_device r; b = mb_id r;
          failed = (\<lambda>code. bindE (record_processing_failure env org dev b code audit_id now)
            (\<lambda>st. ret \<lparr>rc_id = b, rc_status = st, rc_duplicate = False\<rparr>))
      in case payload_samples env r of
           None \<Rightarrow> failed ''INVALID_PAYLOAD''
         | Some ss \<Rightarrow>
             catchE (bindE (store_samples env org dev b ss storage_fails now)
                 (\<lambda>_. ret \<lparr>rc_id = b, rc_status = PROCESSED, rc_duplicate = False\<rparr>))
               (\<lambda>e. if e \<in> {BatchNotFound, BatchStateRejected} then raise e else failed ''STORAGE_ERROR''))"

definition process_next_batch ::
  "'j metric_env \<Rightarrow> uuid \<Rightarrow> (uuid \<times> uuid \<Rightarrow> bool) \<Rightarrow> bool \<Rightarrow> uuid \<Rightarrow> int \<Rightarrow> ('j, receipt option) meff" where
  "process_next_batch env org locked storage_fails audit_id now =
     bindE (claim_next org locked) (\<lambda>claimed. case claimed of
       None \<Rightarrow> ret None
     | Some r \<Rightarrow> bindE (finish_batch env r storage_fails audit_id now) (\<lambda>x. ret (Some x)))"

section \<open>The application layer\<close>

text \<open>
  \<open>MetricsApplication\<close>: the checks before the repository is called, and the exceptions that pass;
  any other becomes \<open>MetricsUnavailable\<close>.
\<close>

definition surface :: "metric_error set \<Rightarrow> ('j, 'a) meff \<Rightarrow> ('j, 'a) meff" where
  "surface known m = catchE m (\<lambda>e. raise (if e \<in> known then e else MetricsUnavailable))"

record agent_identity =
  id_org :: uuid
  id_device :: uuid
  id_token :: uuid

definition app_ingest_batch ::
  "'j metric_env \<Rightarrow> agent_identity \<Rightarrow> uuid \<Rightarrow> batch_input \<Rightarrow> int \<Rightarrow> ('j, receipt) meff" where
  "app_ingest_batch env who dev b now =
     (if id_device who \<noteq> dev then raise MetricAccessRejected
      else if bi_digest b \<noteq> computed_digest env (bi_samples b) then raise BatchDigestMismatch
      else surface {BatchIdentityCollision} (ingest_batch env (id_org who) (id_device who)
        (bi_batch_id b) (bi_digest b) (canonical_samples env (bi_samples b)) now))"

definition app_reupload_batch ::
  "'j metric_env \<Rightarrow> agent_identity \<Rightarrow> uuid \<Rightarrow> batch_input \<Rightarrow> uuid \<Rightarrow> int \<Rightarrow> ('j, receipt) meff" where
  "app_reupload_batch env who dev b audit_id now =
     (if id_device who \<noteq> dev then raise MetricAccessRejected
      else if bi_digest b \<noteq> computed_digest env (bi_samples b) then raise BatchDigestMismatch
      else surface {BatchIdentityCollision, BatchNotFound, BatchStateRejected}
        (reupload_batch env (id_org who) dev (bi_batch_id b) (bi_digest b)
          (canonical_samples env (bi_samples b)) audit_id now))"

definition app_get_batch_status :: "agent_identity \<Rightarrow> uuid \<Rightarrow> uuid \<Rightarrow> ('j, status_record) meff" where
  "app_get_batch_status who dev b = (if id_device who \<noteq> dev then raise MetricAccessRejected
     else surface {BatchNotFound} (get_batch_status (id_org who) dev b))"

definition app_get_batch_statuses ::
  "agent_identity \<Rightarrow> uuid \<Rightarrow> uuid list \<Rightarrow> ('j, status_record list) meff" where
  "app_get_batch_statuses who dev bs = (if id_device who \<noteq> dev then raise MetricAccessRejected
     else surface {} (get_batch_statuses (id_org who) dev bs))"

definition app_authorize_retry ::
  "'j metric_env \<Rightarrow> uuid \<Rightarrow> uuid \<Rightarrow> uuid \<Rightarrow> uuid \<Rightarrow> string \<Rightarrow> audit_context \<Rightarrow> uuid \<Rightarrow> int
   \<Rightarrow> ('j, status_record) meff" where
  "app_authorize_retry env org dev b actor reason ctx i now =
     surface {BatchNotFound, BatchStateRejected} (authorize_retry env org dev b actor reason ctx i now)"

definition app_export_diagnostics :: "uuid \<Rightarrow> uuid \<Rightarrow> uuid \<Rightarrow> ('j, diagnostics) meff" where
  "app_export_diagnostics org dev b = surface {BatchNotFound} (export_diagnostics org dev b)"

definition app_decide_exhausted_batch ::
  "uuid \<Rightarrow> uuid \<Rightarrow> uuid \<Rightarrow> uuid \<Rightarrow> string \<Rightarrow> string \<Rightarrow> audit_context \<Rightarrow> uuid \<Rightarrow> int
   \<Rightarrow> ('j, status_record) meff" where
  "app_decide_exhausted_batch org dev b actor action reason ctx i now =
     surface {BatchDecisionConflict, BatchNotFound, BatchStateRejected}
       (decide_exhausted_batch org dev b actor action reason ctx i now)"

definition app_process_next_batch ::
  "'j metric_env \<Rightarrow> uuid \<Rightarrow> (uuid \<times> uuid \<Rightarrow> bool) \<Rightarrow> bool \<Rightarrow> uuid \<Rightarrow> int \<Rightarrow> ('j, receipt option) meff" where
  "app_process_next_batch env org locked fails i now =
     surface {BatchNotFound, BatchStateRejected} (process_next_batch env org locked fails i now)"

section \<open>The life of a batch\<close>

definition life_ok :: "'j batch_row \<Rightarrow> bool" where
  "life_ok r \<longleftrightarrow> 0 \<le> mb_retry r \<and> 0 \<le> mb_reprocess r \<and> mb_reprocess r \<le> 3 \<and>
     (case mb_status r of
        RECEIVED \<Rightarrow> mb_payload r \<noteq> None \<and> mb_retry r \<le> 2
      | PROCESSING \<Rightarrow> mb_payload r \<noteq> None \<and> mb_retry r \<le> 2
      | PROCESSED \<Rightarrow> mb_payload r = None \<and> mb_processed_at r \<noteq> None \<and> mb_error_code r = None
      | DLQ \<Rightarrow> mb_payload r = None \<and> mb_retry r = 3 \<and> mb_reprocess r \<le> 2 \<and> mb_error_code r \<noteq> None
      | AWAITING_REUPLOAD \<Rightarrow> mb_payload r = None \<and> mb_retry r = 0 \<and> 1 \<le> mb_reprocess r
      | DLQ_EXHAUSTED \<Rightarrow> mb_payload r = None \<and> mb_retry r = 3 \<and> mb_reprocess r = 3
          \<and> mb_error_code r \<noteq> None)"

definition batches_ok :: "'j metric_db \<Rightarrow> bool" where
  "batches_ok db \<longleftrightarrow> distinct (map batch_key (batches db)) \<and> (\<forall>r\<in>set (batches db). life_ok r)"

text \<open>How far a batch still has to go; every change of its row lowers it.\<close>

definition distance :: "'j batch_row \<Rightarrow> int" where
  "distance r = (3 - mb_reprocess r) * 16 + (case mb_status r of
     RECEIVED \<Rightarrow> (3 - mb_retry r) * 2 + 1
   | PROCESSING \<Rightarrow> (3 - mb_retry r) * 2
   | DLQ \<Rightarrow> 1
   | AWAITING_REUPLOAD \<Rightarrow> 15
   | _ \<Rightarrow> - 16 * (3 - mb_reprocess r))"

definition batch_moves :: "(batch_status \<times> batch_status) set" where
  "batch_moves = {(RECEIVED, PROCESSING), (PROCESSING, PROCESSED), (PROCESSING, RECEIVED),
     (PROCESSING, DLQ), (PROCESSING, DLQ_EXHAUSTED), (DLQ, AWAITING_REUPLOAD),
     (AWAITING_REUPLOAD, RECEIVED)}"

definition batch_step :: "'j batch_row \<Rightarrow> 'j batch_row \<Rightarrow> bool" where
  "batch_step r r' \<longleftrightarrow> batch_key r' = batch_key r \<and> mb_digest r' = mb_digest r
     \<and> mb_received_at r' = mb_received_at r
     \<and> (r' = r \<or> ((mb_status r, mb_status r') \<in> batch_moves\<^sup>+ \<and> distance r' < distance r))"


section \<open>A cluster of requests and workers\<close>

text \<open>
  The server at large: requests of agents and users, and workers that each hold the batch they
  claimed until they finish it or die. \<open>inflight\<close> holds the claims, as read before the update.
\<close>

record 'j cluster =
  cl_db :: "'j metric_db"
  inflight :: "'j batch_row list"

datatype batch_op =
    Ingest agent_identity uuid batch_input int
  | Reupload agent_identity uuid batch_input uuid int
  | Retry uuid uuid uuid uuid string audit_context uuid int
  | Decide uuid uuid uuid uuid string string audit_context uuid int
  | Claim uuid "uuid \<times> uuid \<Rightarrow> bool"
  | Finish nat bool uuid int
  | Die nat

fun request :: "'j metric_env \<Rightarrow> batch_op \<Rightarrow> ('j, unit) meff" where
  "request env (Ingest who dev b now) = bindE (app_ingest_batch env who dev b now) (\<lambda>_. ret ())"
| "request env (Reupload who dev b i now) =
     bindE (app_reupload_batch env who dev b i now) (\<lambda>_. ret ())"
| "request env (Retry org dev b actor reason ctx i now) =
     bindE (app_authorize_retry env org dev b actor reason ctx i now) (\<lambda>_. ret ())"
| "request env (Decide org dev b actor action reason ctx i now) =
     bindE (app_decide_exhausted_batch org dev b actor action reason ctx i now) (\<lambda>_. ret ())"
| "request env _ = ret ()"

definition drop_nth :: "nat \<Rightarrow> 'a list \<Rightarrow> 'a list" where
  "drop_nth k xs = take k xs @ drop (Suc k) xs"

fun cluster_exec :: "'j metric_env \<Rightarrow> batch_op \<Rightarrow> 'j cluster \<Rightarrow> 'j cluster" where
  "cluster_exec env (Claim org locked) w = (case claim_next org locked (cl_db w) of
     (Inr (Some r), db) \<Rightarrow> \<lparr>cl_db = db, inflight = inflight w @ [r]\<rparr>
   | (_, db) \<Rightarrow> w\<lparr>cl_db := db\<rparr>)"
| "cluster_exec env (Finish k fails i now) w = (if k < length (inflight w)
     then \<lparr>cl_db = snd (finish_batch env (inflight w ! k) fails i now (cl_db w)),
           inflight = drop_nth k (inflight w)\<rparr>
     else w)"
| "cluster_exec env (Die k) w = w\<lparr>inflight := drop_nth k (inflight w)\<rparr>"
| "cluster_exec env p w = w\<lparr>cl_db := snd (request env p (cl_db w))\<rparr>"

section \<open>Rows keep their place and move forward\<close>

lemma batch_step_refl [simp]: "batch_step r r"
  by (simp add: batch_step_def)

lemma batch_step_trans: "batch_step a b \<Longrightarrow> batch_step b c \<Longrightarrow> batch_step a c"
  unfolding batch_step_def by (auto intro: trancl_trans)

abbreviation batches_evolve :: "'j batch_row list \<Rightarrow> 'j batch_row list \<Rightarrow> bool" where
  "batches_evolve \<equiv> table_evolves batch_step"

lemma batches_evolve_refl [simp]: "batches_evolve rows rows"
  by (simp add: table_evolves_refl)

lemma batches_evolve_trans: "batches_evolve a b \<Longrightarrow> batches_evolve b c \<Longrightarrow> batches_evolve a c"
  by (rule table_evolves_trans [of batch_step]) (auto intro: batch_step_trans)

definition rows_ok :: "'j batch_row list \<Rightarrow> bool" where
  "rows_ok rows \<longleftrightarrow> distinct (map batch_key rows) \<and> (\<forall>r\<in>set rows. life_ok r)"

lemma batches_ok_rows: "batches_ok db \<longleftrightarrow> rows_ok (batches db)"
  by (simp add: batches_ok_def rows_ok_def)

lemma batch_at_key: "batch_at org dev b r \<longleftrightarrow> batch_key r = (org, dev, b)"
  by (auto simp: batch_at_def batch_key_def)

lemma find_batchD: "find_batch org dev b db = Some r \<Longrightarrow> r \<in> set (batches db) \<and> batch_key r = (org, dev, b)"
  unfolding find_batch_def by (drule first_row_SomeD) (simp add: batch_at_key)

lemma rows_ok_unique:
  "rows_ok rows \<Longrightarrow> r \<in> set rows \<Longrightarrow> x \<in> set rows \<Longrightarrow> batch_key x = batch_key r \<Longrightarrow> x = r"
  by (simp add: rows_ok_def distinct_map inj_on_def)

lemma find_batch_None: "find_batch org dev b db = None \<longleftrightarrow> (org, dev, b) \<notin> batch_key ` set (batches db)"
  by (force simp: find_batch_def select_where_def filter_empty_conv batch_at_key image_iff)

lemma find_batch_mem:
  assumes "rows_ok (batches db)" and "r \<in> set (batches db)" and "batch_key r = (org, dev, b)"
  shows "find_batch org dev b db = Some r"
proof (cases "find_batch org dev b db")
  case None
  with assms show ?thesis by (auto simp: find_batch_None image_iff)
next
  case (Some x)
  with assms rows_ok_unique [OF assms(1,2), of x] find_batchD [OF Some] show ?thesis by simp
qed

text \<open>
  The one lemma behind every update: a change of the row found at a key that is a step of the
  life keeps all rows well formed and in place, and no other row changes.
\<close>

definition good_from :: "'j batch_row list \<Rightarrow> 'j batch_row set \<Rightarrow> 'j batch_row list \<Rightarrow> bool" where
  "good_from rows0 fixed rows \<longleftrightarrow> rows_ok rows \<and> batches_evolve rows0 rows \<and> fixed \<subseteq> set rows"

lemma good_from_update:
  assumes good: "good_from rows0 fixed rows"
    and r: "r \<in> set rows" "batch_key r = (org, dev, b)" "r \<notin> fixed"
    and f: "life_ok (f r)" "batch_step r (f r)"
  shows "good_from rows0 fixed (update_where (batch_at org dev b) f rows)"
proof -
  have only: "x = r" if "x \<in> set rows" "batch_at org dev b x" for x
    using rows_ok_unique [of rows r x] good r that by (simp add: good_from_def batch_at_key)
  have "map batch_key (update_where (batch_at org dev b) f rows) = map batch_key rows"
    using only f by (auto simp: update_where_def batch_step_def)
  moreover have "\<forall>x\<in>set (update_where (batch_at org dev b) f rows). life_ok x"
    using only f good by (auto simp: set_update_where good_from_def rows_ok_def)
  moreover have "batches_evolve rows (update_where (batch_at org dev b) f rows)"
    by (rule table_evolves_update) (use only f in auto)
  moreover have "fixed \<subseteq> set (update_where (batch_at org dev b) f rows)"
  proof
    fix x
    assume "x \<in> fixed"
    then have "x \<in> set rows" and "\<not> batch_at org dev b x"
      using good r(3) only by (auto simp: good_from_def)
    then show "x \<in> set (update_where (batch_at org dev b) f rows)"
      by (force simp: set_update_where)
  qed
  ultimately show ?thesis
    using good by (auto simp: good_from_def rows_ok_def intro: batches_evolve_trans)
qed

lemma good_from_append:
  "good_from rows0 fixed rows \<Longrightarrow> life_ok r \<Longrightarrow> batch_key r \<notin> batch_key ` set rows
   \<Longrightarrow> good_from rows0 fixed (rows @ [r])"
  by (auto simp: good_from_def rows_ok_def
      intro: batches_evolve_trans table_evolves_append [OF batch_step_refl])

lemma keeps_good_audit [intro!]:
  "keeps (\<lambda>db. good_from rows0 fixed (batches db))
     (append_audit i org actor ty act res st details ctx now)"
  unfolding append_audit_def by (rule keepsI) (simp add: wp_if)

text \<open>
  A conditional change of the row that was read, in the two forms the operations use.
\<close>

lemma wp_write_batch:
  assumes "good_from rows0 fixed (batches db)" and "find_batch org dev b db = Some r" and "r \<notin> fixed"
    and "life_ok (f r)" and "batch_step r (f r)"
    and "\<And>db'. good_from rows0 fixed (batches db') \<Longrightarrow> Q () db'"
    and "Er DatabaseError db"
  shows "wp (write_batch env r f) Q Er db"
proof -
  have r: "r \<in> set (batches db)" "batch_key r = (org, dev, b)"
    using find_batchD [OF assms(2)] by auto
  then have k: "mb_org r = org" "mb_device r = dev" "mb_id r = b" by (auto simp: batch_key_def)
  show ?thesis
    using good_from_update [where f = f, OF assms(1) r assms(3-5)] assms(6,7)
    by (simp add: write_batch_def wp_if k update_batch_def)
qed

lemma moves_in [intro, simp]:
  "(RECEIVED, PROCESSING) \<in> batch_moves\<^sup>+" "(PROCESSING, PROCESSED) \<in> batch_moves\<^sup>+"
  "(PROCESSING, RECEIVED) \<in> batch_moves\<^sup>+" "(PROCESSING, DLQ) \<in> batch_moves\<^sup>+"
  "(PROCESSING, DLQ_EXHAUSTED) \<in> batch_moves\<^sup>+" "(DLQ, AWAITING_REUPLOAD) \<in> batch_moves\<^sup>+"
  "(AWAITING_REUPLOAD, RECEIVED) \<in> batch_moves\<^sup>+"
  by (auto intro!: r_into_trancl simp: batch_moves_def)

lemma good_from_life: "good_from rows0 fixed (batches db) \<Longrightarrow> find_batch org dev b db = Some r \<Longrightarrow> life_ok r"
  by (auto simp: good_from_def rows_ok_def dest: find_batchD)

text \<open>\<open>fixed\<close> holds rows in a state no request may leave: here PROCESSING.\<close>

definition all_processing :: "'j batch_row set \<Rightarrow> bool" where
  "all_processing fixed \<longleftrightarrow> (\<forall>r\<in>fixed. mb_status r = PROCESSING)"

lemma keeps_good_ingest:
  "keeps (\<lambda>db. good_from rows0 fixed (batches db)) (ingest_batch env org dev b digest payload now)"
proof (rule keepsI)
  fix db :: "'a metric_db"
  assume good: "good_from rows0 fixed (batches db)"
  have new: "good_from rows0 fixed (batches db @ [new_batch org dev b digest payload now])"
    if "find_batch org dev b db = None"
    using that by (intro good_from_append [OF good])
      (auto simp: find_batch_None new_batch_def life_ok_def batch_key_def)
  show "wp (ingest_batch env org dev b digest payload now) (\<lambda>_ db. good_from rows0 fixed (batches db))
      (\<lambda>_ db. good_from rows0 fixed (batches db)) db"
    unfolding ingest_batch_def Let_def
    by (cases "find_batch org dev b db") (simp_all add: wp_if good new touch_device_def)
qed

lemma keeps_good_retry:
  assumes "all_processing fixed"
  shows "keeps (\<lambda>db. good_from rows0 fixed (batches db)) (authorize_retry env org dev b actor reason ctx i now)"
proof (rule keepsI)
  fix db :: "'a metric_db"
  assume good: "good_from rows0 fixed (batches db)"
  show "wp (authorize_retry env org dev b actor reason ctx i now) (\<lambda>_ db. good_from rows0 fixed (batches db))
      (\<lambda>_ db. good_from rows0 fixed (batches db)) db"
  proof (cases "find_batch org dev b db")
    case None
    with good show ?thesis by (simp add: authorize_retry_def)
  next
    case (Some r)
    note life = good_from_life [OF good Some]
    show ?thesis
    proof (cases "mb_status r = DLQ \<and> mb_reprocess r < 3")
      case True
      then have "r \<notin> fixed" using assms by (auto simp: all_processing_def)
      with True good Some life show ?thesis
        by (simp add: authorize_retry_def Let_def)
          (rule wp_write_batch [OF good Some],
            auto simp: life_ok_def batch_step_def batch_key_def distance_def
              intro: wp_mono [OF keeps_wp [OF keeps_good_audit]])
    next
      case False
      with good Some show ?thesis by (auto simp: authorize_retry_def Let_def wp_if)
    qed
  qed
qed

lemma keeps_good_reupload:
  assumes "all_processing fixed"
  shows "keeps (\<lambda>db. good_from rows0 fixed (batches db)) (reupload_batch env org dev b digest payload i now)"
proof (rule keepsI)
  fix db :: "'a metric_db"
  assume good: "good_from rows0 fixed (batches db)"
  show "wp (reupload_batch env org dev b digest payload i now) (\<lambda>_ db. good_from rows0 fixed (batches db))
      (\<lambda>_ db. good_from rows0 fixed (batches db)) db"
  proof (cases "find_batch org dev b db")
    case None
    with good show ?thesis by (simp add: reupload_batch_def)
  next
    case (Some r)
    note life = good_from_life [OF good Some]
    consider (collision) "mb_digest r \<noteq> digest"
      | (rejected) "mb_digest r = digest" "mb_status r \<noteq> AWAITING_REUPLOAD"
      | (again) "mb_digest r = digest" "mb_status r = AWAITING_REUPLOAD" by blast
    then show ?thesis
    proof cases
      case collision
      with good Some show ?thesis
        by (simp add: reupload_batch_def) 
          (rule wp_mono [OF keeps_wp [OF keeps_good_audit [of rows0 fixed] good]]; simp add: wp_if good)
    next
      case rejected
      with good Some show ?thesis by (simp add: reupload_batch_def)
    next
      case again
      then have "r \<notin> fixed" using assms by (auto simp: all_processing_def)
      with again good Some life show ?thesis
        by (simp add: reupload_batch_def)
          (rule wp_write_batch [OF good Some],
            auto simp: life_ok_def batch_step_def batch_key_def distance_def)
    qed
  qed
qed

lemma keeps_good_decide:
  "keeps (\<lambda>db. good_from rows0 fixed (batches db))
     (decide_exhausted_batch org dev b actor action reason ctx i now)"
  unfolding decide_exhausted_batch_def Let_def
  by (rule keeps_rules keeps_good_audit)+

lemma keeps_surface: "keeps P m \<Longrightarrow> keeps P (surface known m)"
  unfolding surface_def by (rule keeps_rules | assumption)+

lemma keeps_good_request:
  assumes "all_processing fixed"
  shows "keeps (\<lambda>db. good_from rows0 fixed (batches db)) (request env p)"
  by (cases p) (auto intro!: keeps_rules keeps_surface keeps_good_ingest keeps_good_decide
      keeps_good_retry [OF assms] keeps_good_reupload [OF assms]
      simp: app_ingest_batch_def app_reupload_batch_def app_authorize_retry_def
        app_decide_exhausted_batch_def)

text \<open>The worker: the claim, the failure and the storage of the batch it holds.\<close>

lemma next_receivedD:
  "next_received org locked db = Some r
   \<Longrightarrow> r \<in> set (batches db) \<and> mb_org r = org \<and> mb_status r = RECEIVED \<and> \<not> locked (mb_device r, mb_id r)"
  unfolding next_received_def by (drule first_row_SomeD) simp

lemma good_from_claim:
  assumes good: "good_from rows0 fixed (batches db)" and fixed: "all_processing fixed"
    and r: "next_received org locked db = Some r"
  shows "good_from rows0 fixed (batches (update_batch org (mb_device r) (mb_id r)
    (\<lambda>x. if mb_status x = RECEIVED then x\<lparr>mb_status := PROCESSING\<rparr> else x) db))"
proof -
  note mem = next_receivedD [OF r]
  then have "life_ok r" using good by (auto simp: good_from_def rows_ok_def)
  moreover have "r \<notin> fixed" using fixed mem by (auto simp: all_processing_def)
  ultimately show ?thesis
    unfolding update_batch_def
    by simp (rule good_from_update [OF good, where r = r],
      use mem in \<open>auto simp: life_ok_def batch_step_def batch_key_def distance_def\<close>)
qed

lemma keeps_good_claim:
  assumes "all_processing fixed"
  shows "keeps (\<lambda>db. good_from rows0 fixed (batches db)) (claim_next org locked)"
  by (rule keepsI) (auto simp: claim_next_def good_from_claim [OF _ assms] split: option.splits)

lemma keeps_good_alert:
  "keeps (\<lambda>db. good_from rows0 fixed (batches db)) (insert_alert_once a)"
  unfolding insert_alert_once_def insert_alert_def
  by (rule keeps_rules keepsI | simp)+

text \<open>The row a recorded failure leaves.\<close>

definition failed_row ::
  "string \<Rightarrow> string \<Rightarrow> int \<Rightarrow> batch_status \<Rightarrow> 'j batch_row \<Rightarrow> 'j batch_row" where
  "failed_row ec em n st r = r\<lparr>mb_status := st, mb_retry := n, mb_error_code := Some ec,
     mb_error_summary := Some em,
     mb_payload := (if st \<in> {DLQ, DLQ_EXHAUSTED} then None else mb_payload r)\<rparr>"

lemma failure_step:
  assumes "life_ok r" and "mb_status r = PROCESSING"
    and "next_failure_state (mb_retry r) (mb_reprocess r) = (n, st)"
  shows "life_ok (failed_row ec em n st r)" and "batch_step r (failed_row ec em n st r)"
  using assms
  by (auto simp: life_ok_def failed_row_def batch_step_def batch_key_def distance_def
      next_failure_state_def Let_def min_def split: if_splits)

lemma keeps_good_failure:
  assumes "\<forall>r\<in>fixed. batch_key r \<noteq> (org, dev, b)"
  shows "keeps (\<lambda>db. good_from rows0 fixed (batches db)) (record_processing_failure env org dev b code i now)"
proof (rule keepsI)
  fix db :: "'a metric_db"
  assume good: "good_from rows0 fixed (batches db)"
  show "wp (record_processing_failure env org dev b code i now) (\<lambda>_ db. good_from rows0 fixed (batches db))
      (\<lambda>_ db. good_from rows0 fixed (batches db)) db"
  proof (cases "find_batch org dev b db")
    case None
    with good show ?thesis by (simp add: record_processing_failure_def split: prod.splits)
  next
    case (Some r)
    note life = good_from_life [OF good Some]
    have "r \<notin> fixed" using assms find_batchD [OF Some] by auto
    obtain n st where n: "next_failure_state (mb_retry r) (mb_reprocess r) = (n, st)" by fastforce
    obtain ec em where e: "sanitize_processing_failure code = (ec, em)" by fastforce
    show ?thesis
    proof (cases "mb_status r = PROCESSING")
      case True
      note step = failure_step [OF life True n, of ec em]
      let ?tail = "bindE (if st = DLQ_EXHAUSTED then
          bindE (insert_alert_once (exhausted_alert env org dev b now)) (\<lambda>_.
            append_audit i org None ''SYSTEM'' ''METRIC_BATCH.DLQ_EXHAUSTED'' b ''FAILURE''
              [(''error_code'', ec)] None now)
        else ret ()) (\<lambda>_. ret st)"
      have tail: "keeps (\<lambda>db. good_from rows0 fixed (batches db)) ?tail"
        by (rule keeps_rules keeps_good_alert keeps_good_audit)+
      have "wp (write_batch env r (failed_row ec em n st))
          (\<lambda>_. wp ?tail (\<lambda>_ db. good_from rows0 fixed (batches db)) (\<lambda>_ _. True)) (\<lambda>_ _. True) db"
      proof (rule wp_write_batch [where f = "failed_row ec em n st", OF good Some \<open>r \<notin> fixed\<close> step])
        fix db' :: "'a metric_db"
        assume "good_from rows0 fixed (batches db')"
        then show "wp ?tail (\<lambda>_ db. good_from rows0 fixed (batches db)) (\<lambda>_ _. True) db'"
          by (rule wp_mono [OF keeps_wp [OF tail]]) auto
      qed simp
      with True Some n e good show ?thesis
        by (simp add: record_processing_failure_def failed_row_def [abs_def])
    next
      case False
      with good Some show ?thesis by (simp add: record_processing_failure_def split: prod.splits)
    qed
  qed
qed

lemma batches_insert_samples [simp]:
  "batches (foldl (\<lambda>db x. insert_sample x db) db xs) = batches db"
  by (induction xs arbitrary: db) (simp_all add: insert_sample_def)

lemma keeps_good_store:
  assumes "\<forall>r\<in>fixed. batch_key r \<noteq> (org, dev, b)"
  shows "keeps (\<lambda>db. good_from rows0 fixed (batches db)) (store_samples env org dev b ss fails now)"
proof (rule keepsI)
  fix db :: "'a metric_db"
  assume good: "good_from rows0 fixed (batches db)"
  show "wp (store_samples env org dev b ss fails now) (\<lambda>_ db. good_from rows0 fixed (batches db))
      (\<lambda>_ db. good_from rows0 fixed (batches db)) db"
  proof (cases "find_batch org dev b db")
    case None
    with good show ?thesis by (simp add: store_samples_def)
  next
    case (Some r)
    note life = good_from_life [OF good Some] and r = find_batchD [OF Some]
    have "r \<notin> fixed" using assms r by auto
    with good r life show ?thesis
      by (auto simp: store_samples_def Some wp_if update_batch_def life_ok_def batch_step_def
          batch_key_def distance_def intro!: good_from_update [OF good, where r = r])
  qed
qed

lemma keeps_good_finish:
  assumes "\<forall>r\<in>fixed. batch_key r \<noteq> batch_key x"
  shows "keeps (\<lambda>db. good_from rows0 fixed (batches db)) (finish_batch env x fails i now)"
  using assms unfolding finish_batch_def Let_def batch_key_def [of x]
  by (auto intro!: keeps_rules keeps_good_failure keeps_good_store)

section \<open>Runs of the cluster\<close>

text \<open>Every claim a worker holds is a row in PROCESSING, held by no other worker.\<close>

definition held_ok :: "'j batch_row list \<Rightarrow> 'j batch_row list \<Rightarrow> bool" where
  "held_ok held rows \<longleftrightarrow> distinct (map batch_key held)
     \<and> (\<forall>x\<in>set held. mb_status x = RECEIVED \<and> x\<lparr>mb_status := PROCESSING\<rparr> \<in> set rows)"

definition cluster_ok :: "'j cluster \<Rightarrow> bool" where
  "cluster_ok w \<longleftrightarrow> rows_ok (batches (cl_db w)) \<and> held_ok (inflight w) (batches (cl_db w))"

definition abandoned :: "'j cluster \<Rightarrow> 'j batch_row set" where
  "abandoned w = {r \<in> set (batches (cl_db w)). mb_status r = PROCESSING
     \<and> batch_key r \<notin> batch_key ` set (inflight w)}"

definition cluster_upto :: "'j cluster \<Rightarrow> 'j cluster \<Rightarrow> bool" where
  "cluster_upto w w' \<longleftrightarrow> batches_evolve (batches (cl_db w)) (batches (cl_db w'))
     \<and> abandoned w \<subseteq> abandoned w'"

lemma processing_key [simp]: "batch_key (x\<lparr>mb_status := st\<rparr>) = batch_key x"
  by (simp add: batch_key_def)

lemma set_drop_nth: "set (drop_nth k xs) \<subseteq> set xs"
  by (auto simp: drop_nth_def dest: in_set_takeD in_set_dropD)

lemma drop_nth_keys:
  assumes "distinct (map f xs)" and "k < length xs"
  shows "distinct (map f (drop_nth k xs))" and "f ` set (drop_nth k xs) = f ` set xs - {f (xs ! k)}"
proof -
  have split: "xs = take k xs @ xs ! k # drop (Suc k) xs"
    using assms(2) by (rule id_take_nth_drop)
  then have "distinct (map f (take k xs @ xs ! k # drop (Suc k) xs))"
    using assms(1) by simp
  then have d: "distinct (map f (take k xs) @ f (xs ! k) # map f (drop (Suc k) xs))" by simp
  then show "distinct (map f (drop_nth k xs))" by (simp add: drop_nth_def)
  have "f ` set xs = f ` set (take k xs) \<union> {f (xs ! k)} \<union> f ` set (drop (Suc k) xs)"
    by (subst split) auto
  with d show "f ` set (drop_nth k xs) = f ` set xs - {f (xs ! k)}"
    by (auto simp: drop_nth_def)
qed

lemma cluster_good_from:
  "cluster_ok w \<Longrightarrow> fixed \<subseteq> set (batches (cl_db w))
   \<Longrightarrow> good_from (batches (cl_db w)) fixed (batches (cl_db w))"
  by (simp add: cluster_ok_def good_from_def)

text \<open>The two effects of a step: what it keeps in PROCESSING, and what it does to the claims.\<close>

lemma cluster_step:
  assumes ok: "cluster_ok w"
    and fixed: "fixed = {r \<in> set (batches (cl_db w)). mb_status r = PROCESSING \<and> batch_key r \<notin> gone}"
    and good: "good_from (batches (cl_db w)) fixed (batches db')"
    and held: "distinct (map batch_key held')"
      "\<forall>x\<in>set held'. mb_status x = RECEIVED
         \<and> (x \<in> set (inflight w) \<and> batch_key x \<notin> gone \<or> x\<lparr>mb_status := PROCESSING\<rparr> \<in> set (batches db'))"
    and keys: "gone \<subseteq> batch_key ` set (inflight w)"
      "batch_key ` set held' \<inter> batch_key ` abandoned w = {}"
  shows "cluster_ok \<lparr>cl_db = db', inflight = held'\<rparr>"
    and "cluster_upto w \<lparr>cl_db = db', inflight = held'\<rparr>"
proof -
  have "x\<lparr>mb_status := PROCESSING\<rparr> \<in> set (batches db')"
    if "x \<in> set (inflight w)" "batch_key x \<notin> gone" for x
    using that ok good by (auto simp: cluster_ok_def held_ok_def good_from_def fixed)
  then show "cluster_ok \<lparr>cl_db = db', inflight = held'\<rparr>"
    using good held by (auto simp: cluster_ok_def held_ok_def good_from_def)
  have "abandoned w \<subseteq> fixed" using keys by (auto simp: abandoned_def fixed)
  then show "cluster_upto w \<lparr>cl_db = db', inflight = held'\<rparr>"
    using good keys(2) by (auto simp: cluster_upto_def good_from_def abandoned_def)
qed

lemma held_mem:
  "cluster_ok w \<Longrightarrow> x \<in> set (inflight w)
   \<Longrightarrow> mb_status x = RECEIVED \<and> x\<lparr>mb_status := PROCESSING\<rparr> \<in> set (batches (cl_db w))"
  by (simp add: cluster_ok_def held_ok_def)

lemma held_not_abandoned: "batch_key ` set (inflight w) \<inter> batch_key ` abandoned w = {}"
  by (auto simp: abandoned_def)

lemma request_step:
  assumes ok: "cluster_ok w"
    and w': "w' = w\<lparr>cl_db := snd (request env p (cl_db w))\<rparr>"
  shows "cluster_ok w' \<and> cluster_upto w w'"
proof -
  let ?fixed = "{r \<in> set (batches (cl_db w)). mb_status r = PROCESSING \<and> batch_key r \<notin> {}}"
  have "keeps (\<lambda>db. good_from (batches (cl_db w)) ?fixed (batches db)) (request env p)"
    by (rule keeps_good_request) (auto simp: all_processing_def)
  from keepsD [OF this cluster_good_from [OF ok]]
  have good: "good_from (batches (cl_db w)) ?fixed (batches (snd (request env p (cl_db w))))" by auto
  have w2: "w' = \<lparr>cl_db = snd (request env p (cl_db w)), inflight = inflight w\<rparr>"
    by (cases w) (simp add: w')
  show ?thesis
    unfolding w2 using cluster_step [OF ok refl good, of "inflight w"] held_mem [OF ok] ok
      held_not_abandoned by (auto simp: cluster_ok_def held_ok_def)
qed

lemma die_step:
  assumes ok: "cluster_ok w"
  shows "cluster_ok (w\<lparr>inflight := drop_nth k (inflight w)\<rparr>)
    \<and> cluster_upto w (w\<lparr>inflight := drop_nth k (inflight w)\<rparr>)"
proof -
  have "distinct (map batch_key (drop_nth k (inflight w)))"
    using ok drop_nth_keys(1) [of batch_key "inflight w" k]
    by (cases "k < length (inflight w)") (auto simp: cluster_ok_def held_ok_def drop_nth_def)
  then show ?thesis
    using ok set_drop_nth [of k "inflight w"]
    by (auto simp: cluster_ok_def held_ok_def cluster_upto_def abandoned_def)
qed

lemma finish_step:
  assumes ok: "cluster_ok w" and k: "k < length (inflight w)"
    and w': "w' = \<lparr>cl_db = snd (finish_batch env (inflight w ! k) fails i now (cl_db w)),
    inflight = drop_nth k (inflight w)\<rparr>"
  shows "cluster_ok w' \<and> cluster_upto w w'"
proof -
  let ?x = "inflight w ! k"
  let ?fixed = "{r \<in> set (batches (cl_db w)). mb_status r = PROCESSING \<and> batch_key r \<notin> {batch_key ?x}}"
  have "keeps (\<lambda>db. good_from (batches (cl_db w)) ?fixed (batches db)) (finish_batch env ?x fails i now)"
    by (rule keeps_good_finish) auto
  from keepsD [OF this cluster_good_from [OF ok]]
  have good: "good_from (batches (cl_db w)) ?fixed
      (batches (snd (finish_batch env ?x fails i now (cl_db w))))" by auto
  have d: "distinct (map batch_key (inflight w))" using ok by (simp add: cluster_ok_def held_ok_def)
  note keys = drop_nth_keys [OF d k]
  have "mb_status x = RECEIVED \<and> x \<in> set (inflight w) \<and> batch_key x \<notin> {batch_key ?x}"
    if "x \<in> set (drop_nth k (inflight w))" for x
    using that keys(2) set_drop_nth [of k "inflight w"] held_mem [OF ok] by auto
  moreover have "batch_key ` set (drop_nth k (inflight w)) \<inter> batch_key ` abandoned w = {}"
    using set_drop_nth [of k "inflight w"] held_not_abandoned [of w] by blast
  moreover have "{batch_key ?x} \<subseteq> batch_key ` set (inflight w)" using k by auto
  ultimately show ?thesis
    unfolding w' using cluster_step [OF ok refl good keys(1)] by blast
qed

lemma claim_step:
  assumes ok: "cluster_ok w" and c: "claim_next org locked (cl_db w) = (Inr (Some r), db')"
    and w': "w' = \<lparr>cl_db = db', inflight = inflight w @ [r]\<rparr>"
  shows "cluster_ok w' \<and> cluster_upto w w'"
proof -
  let ?fixed = "{r \<in> set (batches (cl_db w)). mb_status r = PROCESSING \<and> batch_key r \<notin> {}}"
  have r: "next_received org locked (cl_db w) = Some r"
    and db': "db' = update_batch org (mb_device r) (mb_id r)
      (\<lambda>x. if mb_status x = RECEIVED then x\<lparr>mb_status := PROCESSING\<rparr> else x) (cl_db w)"
    using c by (auto simp: claim_next_def eff_defs split: option.splits)
  note mem = next_receivedD [OF r]
  have good: "good_from (batches (cl_db w)) ?fixed (batches db')"
    unfolding db' by (rule good_from_claim [OF cluster_good_from [OF ok] _ r])
      (auto simp: all_processing_def)
  have new: "r\<lparr>mb_status := PROCESSING\<rparr> \<in> set (batches db')"
    using mem by (force simp: db' update_batch_def set_update_where batch_at_def image_iff)
  have rows: "rows_ok (batches (cl_db w))" using ok by (simp add: cluster_ok_def)
  have other: "batch_key x \<noteq> batch_key r" if "x \<in> set (batches (cl_db w))" "mb_status x = PROCESSING" for x
    using rows_ok_unique [OF rows, of r x] mem that by auto
  have "batch_key x \<noteq> batch_key r" if "x \<in> set (inflight w)" for x
    using other held_mem [OF ok that] by fastforce
  then have "batch_key r \<notin> batch_key ` set (inflight w)" by (metis imageE)
  then have "distinct (map batch_key (inflight w @ [r]))"
    using ok by (simp add: cluster_ok_def held_ok_def)
  moreover have "batch_key ` set (inflight w @ [r]) \<inter> batch_key ` abandoned w = {}"
    using held_not_abandoned [of w] other by (fastforce simp: abandoned_def)
  moreover have "\<forall>x\<in>set (inflight w @ [r]). mb_status x = RECEIVED
      \<and> (x \<in> set (inflight w) \<and> batch_key x \<notin> {} \<or> x\<lparr>mb_status := PROCESSING\<rparr> \<in> set (batches db'))"
    using held_mem [OF ok] mem new by auto
  ultimately show ?thesis
    unfolding w' using cluster_step [OF ok refl good] by blast
qed

lemma claim_none: "claim_next org locked db = (Inr None, db') \<Longrightarrow> db' = db"
  by (auto simp: claim_next_def eff_defs split: option.splits)

lemma claim_no_error: "claim_next org locked db \<noteq> (Inl e, db')"
  by (auto simp: claim_next_def eff_defs split: option.splits)

lemma exec_step:
  assumes ok: "cluster_ok w"
  shows "cluster_ok (cluster_exec env p w) \<and> cluster_upto w (cluster_exec env p w)"
proof -
  have refl: "cluster_upto w w" by (simp add: cluster_upto_def)
  show ?thesis
  proof (cases p)
    case (Claim org locked)
    show ?thesis
    proof (cases "claim_next org locked (cl_db w)")
      case (Pair out db)
      then show ?thesis
        using claim_step [OF ok, of org locked] claim_none [of org locked "cl_db w" db]
          claim_no_error [of org locked "cl_db w" _ db] ok refl Claim
        by (cases out) (auto split: option.splits)
    qed
  next
    case (Finish k fails i now)
    then show ?thesis using finish_step [OF ok] ok refl by auto
  next
    case (Die k)
    then show ?thesis using die_step [OF ok] by auto
  qed (use request_step [OF ok, where p = p] in auto)
qed

interpretation server: monotone_system "cluster_exec env" cluster_ok cluster_upto
proof (unfold_locales, goal_cases)
  case (1 w p)
  then show ?case by (simp add: exec_step)
next
  case (2 w)
  show ?case by (simp add: cluster_upto_def)
next
  case (3 a b c)
  then show ?case by (auto simp: cluster_upto_def intro: batches_evolve_trans)
next
  case (4 w p)
  then show ?case by (simp add: exec_step)
qed

section \<open>Properties of the life of a batch\<close>

lemma distance_bounds: "life_ok r \<Longrightarrow> 0 \<le> distance r \<and> distance r \<le> 55"
  by (auto simp: life_ok_def distance_def split: batch_status.splits)

lemma evolves_row:
  "batches_evolve rows rows' \<Longrightarrow> r \<in> set rows \<Longrightarrow> \<exists>r'\<in>set rows'. batch_step r r'"
  by (rule table_evolves_row)

text \<open>Property C22. From empty tables, whatever agents, users and workers do in whatever order, and
  wherever workers die, every batch row is well formed (its payload is there exactly while the batch
  waits or is being processed, the counters stay in range and DLQ_EXHAUSTED means all attempts are
  spent), no two rows share a key, and no two workers hold the same batch.\<close>

theorem batch_invariant:
  assumes "batches (cl_db w) = []" and "inflight w = []"
  shows "cluster_ok (fold (cluster_exec env) ps w)"
  by (rule server.run_good) (use assms in \<open>simp add: cluster_ok_def rows_ok_def held_ok_def\<close>)

text \<open>Property C23. The life of a batch ends: along any run no row is lost, its key, digest and time of
  receipt never change, its status only moves along the edges of the state machine, and every change
  lowers its distance to the end, a number between 0 and 55; so no schedule of failures, retries and
  re-uploads keeps a batch going for ever.\<close>

theorem batch_lifecycle:
  assumes "cluster_ok w" and "r \<in> set (batches (cl_db w))"
  shows "\<exists>r'\<in>set (batches (cl_db (fold (cluster_exec env) ps w))). batch_step r r'
    \<and> 0 \<le> distance r' \<and> distance r \<le> 55"
proof -
  have ok: "cluster_ok (fold (cluster_exec env) ps w)" by (rule server.run_good [OF assms(1)])
  have "cluster_upto w (fold (cluster_exec env) ps w)" by (rule server.run_upto [OF assms(1)])
  then obtain r' where "r' \<in> set (batches (cl_db (fold (cluster_exec env) ps w)))" "batch_step r r'"
    using evolves_row assms(2) unfolding cluster_upto_def by blast
  then show ?thesis
    using ok assms distance_bounds [of r] distance_bounds [of r']
    by (auto simp: cluster_ok_def rows_ok_def)
qed

text \<open>A worker that dies between its two transactions leaves its batch in PROCESSING for
  ever: no later request and no other worker ever touches the row again, so its samples are never
  stored and its payload stays in the table.\<close>

theorem abandoned_batch_stays:
  assumes "cluster_ok w" and "k < length (inflight w)"
  shows "(inflight w ! k)\<lparr>mb_status := PROCESSING\<rparr>
    \<in> abandoned (fold (cluster_exec env) ps (cluster_exec env (Die k) w))"
proof -
  let ?w = "cluster_exec env (Die k) w"
  let ?x = "inflight w ! k"
  have ok: "cluster_ok ?w" using exec_step [OF assms(1)] by blast
  have "distinct (map batch_key (inflight w))" using assms(1) by (simp add: cluster_ok_def held_ok_def)
  note keys = drop_nth_keys(2) [OF this assms(2)]
  have "?x\<lparr>mb_status := PROCESSING\<rparr> \<in> abandoned ?w"
    using held_mem [OF assms(1), of ?x] assms(2) keys by (auto simp: abandoned_def)
  then show ?thesis
    using server.run_upto [OF ok, of env ps] by (auto simp: cluster_upto_def)
qed

text \<open>What ingestion makes of an identity that is already there.\<close>

lemma ingest_again:
  assumes "batch_checks env (new_batch org dev b digest payload now)"
    and "find_batch org dev b db = Some r"
  shows "ingest_batch env org dev b digest payload now db =
    (if mb_digest r \<noteq> digest then (Inl BatchIdentityCollision, db)
     else (Inr \<lparr>rc_id = mb_id r, rc_status = mb_status r, rc_duplicate = True\<rparr>, db))"
  using assms by (simp add: ingest_batch_def eff_defs Let_def)

lemma ingest_first:
  assumes "ingest_batch env org dev b digest payload now db = (Inr rc, db')"
  shows "batch_checks env (new_batch org dev b digest payload now)"
    and "\<exists>r\<in>set (batches db'). batch_key r = (org, dev, b) \<and> mb_digest r = digest"
proof -
  have "batch_checks env (new_batch org dev b digest payload now) \<and>
      (\<exists>r\<in>set (batches db'). batch_key r = (org, dev, b) \<and> mb_digest r = digest)"
    using assms
    by (auto simp: ingest_batch_def eff_defs Let_def touch_device_def new_batch_def batch_key_def
        split: if_splits option.splits dest!: find_batchD)
  then show "batch_checks env (new_batch org dev b digest payload now)"
    and "\<exists>r\<in>set (batches db'). batch_key r = (org, dev, b) \<and> mb_digest r = digest" by auto
qed

lemma checks_later: "batch_checks env (new_batch org dev b digest payload later)
    = batch_checks env (new_batch org dev b digest payload now)"
  by (simp add: batch_checks_def new_batch_def)

text \<open>Property C24. Ingestion is idempotent for ever: once a batch was accepted, sending it again, at any
  later point of any run, changes nothing and is answered as a duplicate; sending other content under
  the same identity is refused as a collision and changes nothing either.\<close>

theorem ingest_idempotent:
  assumes ok: "cluster_ok w"
    and first: "app_ingest_batch env who dev b now (cl_db w) = (Inr rc, db1)"
    and other: "bi_batch_id b2 = bi_batch_id b" "bi_digest b2 = computed_digest env (bi_samples b2)"
      "bi_digest b2 \<noteq> bi_digest b"
      "batch_checks env (new_batch (id_org who) (id_device who) (bi_batch_id b2) (bi_digest b2)
         (canonical_samples env (bi_samples b2)) later)"
    and w2: "w2 = fold (cluster_exec env) ps (cluster_exec env (Ingest who dev b now) w)"
  shows "(\<exists>st. app_ingest_batch env who dev b later (cl_db w2)
      = (Inr \<lparr>rc_id = bi_batch_id b, rc_status = st, rc_duplicate = True\<rparr>, cl_db w2))
    \<and> app_ingest_batch env who dev b2 later (cl_db w2) = (Inl BatchIdentityCollision, cl_db w2)"
proof -
  let ?w1 = "cluster_exec env (Ingest who dev b now) w"
  let ?payload = "canonical_samples env (bi_samples b)"
  have access: "id_device who = dev" "bi_digest b = computed_digest env (bi_samples b)"
    using first by (auto simp: app_ingest_batch_def eff_defs split: if_splits)
  have ing: "ingest_batch env (id_org who) dev (bi_batch_id b) (bi_digest b) ?payload now (cl_db w)
      = (Inr rc, db1)"
    using first access
    by (auto simp: app_ingest_batch_def surface_def eff_defs split: if_splits prod.splits sum.splits)
  have w1: "cl_db ?w1 = db1"
    using first by (simp add: eff_defs)
  obtain r where r: "r \<in> set (batches (cl_db ?w1))"
    and r_key: "batch_key r = (id_org who, dev, bi_batch_id b)" and r_digest: "mb_digest r = bi_digest b"
    using ingest_first(2) [OF ing] w1 by auto
  have ok1: "cluster_ok ?w1" using exec_step [OF ok] by blast
  have ok2: "cluster_ok w2" unfolding w2 by (rule server.run_good [OF ok1])
  have "cluster_upto ?w1 w2" unfolding w2 by (rule server.run_upto [OF ok1])
  then obtain r' where r': "r' \<in> set (batches (cl_db w2))" "batch_step r r'"
    using evolves_row r unfolding cluster_upto_def by blast
  then have key: "batch_key r' = (id_org who, dev, bi_batch_id b)" "mb_digest r' = bi_digest b"
    using r_key r_digest by (auto simp: batch_step_def)
  have found: "find_batch (id_org who) dev (bi_batch_id b) (cl_db w2) = Some r'"
    by (rule find_batch_mem) (use ok2 r'(1) key in \<open>auto simp: cluster_ok_def\<close>)
  have checks: "batch_checks env (new_batch (id_org who) dev (bi_batch_id b) (bi_digest b) ?payload later)"
    using ingest_first(1) [OF ing] checks_later by blast
  show ?thesis
    using ingest_again [OF checks found] access other key
      ingest_again [OF other(4) [unfolded other(1) access(1)], unfolded other(1), OF found]
    by (auto simp: app_ingest_batch_def surface_def eff_defs batch_key_def)
qed

section \<open>Processing stores what was sent\<close>

lemma digit_str_nonempty [simp]: "digit_str n \<noteq> []"
  by (subst digit_str.simps) simp

lemmas digit_str_nonempty' [simp] = digit_str_nonempty [symmetric]

lemma digit_char_inj: "m < 10 \<Longrightarrow> n < 10 \<Longrightarrow> (char_of (48 + m :: nat) = char_of (48 + n)) = (m = n)"
  by (auto simp: char_of_eq_iff take_bit_eq_mod)

lemma digit_str_inj: "digit_str m = digit_str n \<Longrightarrow> m = n"
proof (induction m arbitrary: n rule: digit_str.induct)
  case (1 m)
  show ?case
  proof (cases "m < 10")
    case True
    with "1.prems" show ?thesis
      by (subst (asm) (1 2) digit_str.simps) (auto simp: digit_char_inj split: if_splits)
  next
    case False
    with "1.prems" have "\<not> n < 10"
      by (subst (asm) (1 2) digit_str.simps) (auto split: if_splits)
    with False "1.prems" have "digit_str (m div 10) = digit_str (n div 10)" and "m mod 10 = n mod 10"
      by (subst (asm) (1 2) digit_str.simps; auto simp: digit_char_inj)+
    with "1.IH" [OF False] show ?thesis by (metis div_mult_mod_eq)
  qed
qed

lemma validate_all_ok: "validate_all env js = Some ss \<Longrightarrow> list_all sample_input_ok ss"
  by (induction js arbitrary: ss)
    (auto simp: model_validate_def split: option.splits if_splits)

lemma sample_rows_checks:
  "list_all sample_input_ok ss \<Longrightarrow> list_all (\<lambda>s. label_size env (si_labels s) \<le> 8192) ss
   \<Longrightarrow> list_all (sample_checks env) (sample_rows env org dev b ss)"
  by (auto simp: sample_rows_def list_all_iff sample_checks_def sample_input_ok_def
      enumerate_eq_zip dest: set_zip_rightD)

lemma sample_rows_keys:
  assumes "inj_on (uuid5 env b) (digit_str ` {..<length ss})"
  shows "distinct (map sample_key (sample_rows env org dev b ss))"
proof -
  have "inj_on (\<lambda>(i, s). sample_key (sample_rows env org dev b ss ! i)) (set (enumerate 0 ss))"
    using assms
    by (auto simp: inj_on_def sample_rows_def sample_key_def enumerate_eq_zip set_zip nth_enumerate_eq
        inj_on_eq_iff [OF assms] dest!: digit_str_inj)
  then have "distinct (map (\<lambda>(i, s). sample_key (sample_rows env org dev b ss ! i)) (enumerate 0 ss))"
    by (simp add: distinct_map)
  moreover have "map (\<lambda>(i, s). sample_key (sample_rows env org dev b ss ! i)) (enumerate 0 ss)
      = map sample_key (sample_rows env org dev b ss)"
    by (rule nth_equalityI) (auto simp: sample_rows_def nth_enumerate_eq)
  ultimately show ?thesis by simp
qed

lemma sample_rows_times:
  "map sample_key (sample_rows env org dev b ss)
    = map (\<lambda>(i, t). (org, uuid5 env b (digit_str i), t)) (enumerate 0 (map si_recorded_at ss))"
  by (rule nth_equalityI) (simp_all add: sample_rows_def sample_key_def nth_enumerate_eq)

lemma insert_samples_fresh:
  "distinct (map sample_key xs) \<Longrightarrow> \<forall>x\<in>set xs. sample_key x \<notin> sample_key ` set (samples db)
   \<Longrightarrow> samples (foldl (\<lambda>db x. insert_sample x db) db xs) = samples db @ xs"
proof (induction xs arbitrary: db)
  case Nil
  show ?case by simp
next
  case (Cons x xs)
  then have "insert_sample x db = db\<lparr>samples := samples db @ [x]\<rparr>"
    by (simp add: insert_sample_def)
  with Cons.IH [of "db\<lparr>samples := samples db @ [x]\<rparr>"] Cons.prems show ?case
    by (force simp: image_iff)
qed

lemma insert_samples_present:
  "\<forall>x\<in>set xs. sample_key x \<in> sample_key ` set (samples db)
   \<Longrightarrow> foldl (\<lambda>db x. insert_sample x db) db xs = db"
  by (induction xs) (auto simp: insert_sample_def)

definition processed_row :: "int \<Rightarrow> 'j batch_row \<Rightarrow> 'j batch_row" where
  "processed_row now r = r\<lparr>mb_status := PROCESSED, mb_payload := None, mb_error_code := None,
     mb_error_summary := None, mb_processed_at := Some now\<rparr>"

lemma device_exists_update [simp]: "device_exists org dev (update_batch o' d' b' f db) = device_exists org dev db"
  by (simp add: device_exists_def update_batch_def)

lemma samples_update_batch [simp]: "samples (update_batch o' d' b' f db) = samples db"
  by (simp add: update_batch_def)

lemma find_batch_update:
  assumes "rows_ok (batches db)" and "r \<in> set (batches db)"
    and "\<And>x. batch_key (f x) = batch_key x"
  shows "find_batch (mb_org r) (mb_device r) (mb_id r)
      (update_batch (mb_org r) (mb_device r) (mb_id r) f db) = Some (f r)"
proof -
  have "filter (batch_at (mb_org r) (mb_device r) (mb_id r))
        (update_where (batch_at (mb_org r) (mb_device r) (mb_id r)) f (batches db))
      = map f (filter (batch_at (mb_org r) (mb_device r) (mb_id r)) (batches db))"
    by (rule filter_update_where) (simp add: batch_at_key assms(3))
  moreover have "first_row (filter (batch_at (mb_org r) (mb_device r) (mb_id r)) (batches db)) = Some r"
    using find_batch_mem [OF assms(1,2), of "mb_org r" "mb_device r" "mb_id r"]
    by (simp add: find_batch_def select_where_def batch_key_def)
  ultimately show ?thesis
    by (auto simp: find_batch_def select_where_def update_batch_def first_row_def split: list.splits)
qed

lemma samples_foldl_cong:
  "samples db = samples db' \<Longrightarrow> samples (foldl (\<lambda>db x. insert_sample x db) db xs)
     = samples (foldl (\<lambda>db x. insert_sample x db) db' xs)"
  by (induction xs arbitrary: db db') (simp_all add: insert_sample_def)

lemma find_batch_batches: "batches db = batches db' \<Longrightarrow> find_batch org dev b db = find_batch org dev b db'"
  by (simp add: find_batch_def)

lemma payload_samples_ok: "payload_samples env r = Some ss \<Longrightarrow> list_all sample_input_ok ss"
  by (auto simp: payload_samples_def validate_all_ok split: option.splits if_splits)

text \<open>
  One worker, one received batch with a valid payload and a storage that works: the batch ends in
  PROCESSED and the samples are those the inserts leave.
\<close>

lemma process_valid:
  assumes ok: "rows_ok (batches db)" and r: "next_received org locked db = Some r"
    and ss: "payload_samples env r = Some ss" and dev: "device_exists org (mb_device r) db"
    and size: "list_all (\<lambda>s. label_size env (si_labels s) \<le> 8192) ss"
  shows "\<exists>db'. process_next_batch env org locked False i now db
      = (Inr (Some \<lparr>rc_id = mb_id r, rc_status = PROCESSED, rc_duplicate = False\<rparr>), db')
    \<and> samples db' = samples (foldl (\<lambda>db x. insert_sample x db) db
        (sample_rows env org (mb_device r) (mb_id r) ss))
    \<and> find_batch org (mb_device r) (mb_id r) db' = Some (processed_row now r)"
proof -
  note mem = next_receivedD [OF r]
  let ?claim = "\<lambda>x. if mb_status x = RECEIVED then x\<lparr>mb_status := PROCESSING\<rparr> else x"
  let ?db1 = "update_batch org (mb_device r) (mb_id r) ?claim db"
  let ?rows = "sample_rows env org (mb_device r) (mb_id r) ss"
  let ?db2 = "foldl (\<lambda>db x. insert_sample x db) ?db1 ?rows"
  let ?store = "\<lambda>x. if mb_status x = PROCESSING then processed_row now x else x"
  let ?p = "r\<lparr>mb_status := PROCESSING\<rparr>"
  have "good_from (batches db) {} (batches ?db1)"
    by (rule good_from_claim [OF _ _ r]) (simp_all add: good_from_def ok all_processing_def)
  then have ok1: "rows_ok (batches ?db1)" by (simp add: good_from_def)
  have find1: "find_batch org (mb_device r) (mb_id r) ?db1 = Some ?p"
    using find_batch_update [OF ok, of r ?claim] mem by (simp add: batch_key_def)
  then have p: "?p \<in> set (batches ?db2)" using find_batchD by fastforce
  have find3: "find_batch org (mb_device r) (mb_id r)
      (update_batch org (mb_device r) (mb_id r) ?store ?db2) = Some (processed_row now r)"
    using find_batch_update [OF _ p, of ?store] ok1 mem
    by (simp add: batch_key_def processed_row_def)
  have claim: "claim_next org locked db = (Inr (Some r), ?db1)"
    by (simp add: claim_next_def eff_defs r)
  have store: "store_samples env org (mb_device r) (mb_id r) ss False now ?db1
      = (Inr (), update_batch org (mb_device r) (mb_id r) ?store ?db2)"
    using find1 dev sample_rows_checks [OF payload_samples_ok [OF ss] size]
    by (simp add: store_samples_def eff_defs processed_row_def cong: if_cong)
  have "process_next_batch env org locked False i now db
      = (Inr (Some \<lparr>rc_id = mb_id r, rc_status = PROCESSED, rc_duplicate = False\<rparr>),
         update_batch org (mb_device r) (mb_id r) ?store ?db2)"
    using ss store mem by (simp add: process_next_batch_def bindE_def claim finish_batch_def Let_def
        catchE_def ret_def)
  then show ?thesis
    using find3 samples_foldl_cong [of ?db1 db ?rows] by simp
qed

text \<open>What an agent sent is stored: a worker that takes a batch whose payload is valid, with the
  storage working, appends one row per sample, in order, with its name, value, labels and time, and
  marks the batch PROCESSED. The labels are taken to fit their column, the identifiers to be new in the
  table, and \<open>uuid5\<close> to be free of collisions within the batch.\<close>

theorem processing_stores_samples:
  assumes "rows_ok (batches db)" and "next_received org locked db = Some r"
    and "payload_samples env r = Some ss" and "device_exists org (mb_device r) db"
    and "list_all (\<lambda>s. label_size env (si_labels s) \<le> 8192) ss"
    and "inj_on (uuid5 env (mb_id r)) (digit_str ` {..<length ss})"
    and "\<forall>x\<in>set (sample_rows env org (mb_device r) (mb_id r) ss).
      sample_key x \<notin> sample_key ` set (samples db)"
  shows "\<exists>db'. process_next_batch env org locked False i now db
      = (Inr (Some \<lparr>rc_id = mb_id r, rc_status = PROCESSED, rc_duplicate = False\<rparr>), db')
    \<and> samples db' = samples db @ sample_rows env org (mb_device r) (mb_id r) ss
    \<and> find_batch org (mb_device r) (mb_id r) db' = Some (processed_row now r)"
  using process_valid [OF assms(1-5)] insert_samples_fresh [OF sample_rows_keys [OF assms(6)] assms(7)]
  by metis

text \<open>A sample's identifier is derived from the batch and the position only, not from the
  device: a batch that has the identifier of a batch of another device of the organisation, with
  samples at the same times, is reported PROCESSED and its payload erased, and not one of its samples
  is stored.\<close>

theorem same_batch_id_loses_samples:
  assumes "rows_ok (batches db)" and "next_received org locked db = Some r"
    and "payload_samples env r = Some ss" and "device_exists org (mb_device r) db"
    and "list_all (\<lambda>s. label_size env (si_labels s) \<le> 8192) ss"
    and other: "sample_rows env org dev2 (mb_id r) ss2 = stored" "set stored \<subseteq> set (samples db)"
    and times: "map si_recorded_at ss2 = map si_recorded_at ss" and "dev2 \<noteq> mb_device r"
  shows "\<exists>db'. process_next_batch env org locked False i now db
      = (Inr (Some \<lparr>rc_id = mb_id r, rc_status = PROCESSED, rc_duplicate = False\<rparr>), db')
    \<and> samples db' = samples db
    \<and> find_batch org (mb_device r) (mb_id r) db' = Some (processed_row now r)"
proof -
  have "map sample_key (sample_rows env org dev2 (mb_id r) ss2)
      = map sample_key (sample_rows env org (mb_device r) (mb_id r) ss)"
    by (simp add: sample_rows_times times)
  then have "sample_key ` set (sample_rows env org (mb_device r) (mb_id r) ss) = sample_key ` set stored"
    using other(1) by (metis list.set_map)
  then have "\<forall>x\<in>set (sample_rows env org (mb_device r) (mb_id r) ss).
      sample_key x \<in> sample_key ` set (samples db)"
    using other(2) by blast
  from insert_samples_present [OF this] show ?thesis using process_valid [OF assms(1-5)] by metis
qed

section \<open>Organisations are kept apart\<close>

text \<open>Everything the database holds of other organisations than \<open>org\<close>.\<close>

definition outside :: "uuid \<Rightarrow> 'j metric_db \<Rightarrow> 'j metric_db" where
  "outside org db = \<lparr>batches = filter (\<lambda>r. mb_org r \<noteq> org) (batches db),
     samples = filter (\<lambda>r. ms_org r \<noteq> org) (samples db),
     rules = filter (\<lambda>r. ar_org r \<noteq> org) (rules db),
     alerts = filter (\<lambda>r. al_org r \<noteq> org) (alerts db),
     audits = filter (\<lambda>r. au_org r \<noteq> org) (audits db),
     devices = filter (\<lambda>r. dv_org r \<noteq> org) (devices db),
     assignments = filter (\<lambda>r. as_org r \<noteq> org) (assignments db)\<rparr>"

abbreviation same_outside :: "uuid \<Rightarrow> 'j metric_db \<Rightarrow> 'j metric_db \<Rightarrow> bool" where
  "same_outside org rest db \<equiv> outside org db = rest"

lemma outside_update_batch:
  "(\<And>x. mb_org (f x) = mb_org x) \<Longrightarrow> outside org (update_batch org dev b f db) = outside org db"
  by (auto simp: outside_def update_batch_def batch_at_def intro!: filter_update_where_out)

lemma keeps_outside_find:
  assumes "keeps P m" and "\<And>r. mb_org r = org \<Longrightarrow> keeps P (f r)"
  shows "keeps P (bindE (reads (find_batch org dev b)) (\<lambda>row. case row of None \<Rightarrow> m | Some r \<Rightarrow> f r))"
proof (rule keepsI)
  fix db
  assume "P db"
  then show "wp (bindE (reads (find_batch org dev b)) (\<lambda>row. case row of None \<Rightarrow> m | Some r \<Rightarrow> f r))
      (\<lambda>_. P) (\<lambda>_. P) db"
    using assms find_batchD [of org dev b db]
    by (cases "find_batch org dev b db") (auto intro: keeps_wp simp: batch_key_def)
qed

lemma keeps_outside_write:
  "mb_org r = org \<Longrightarrow> (\<And>x. mb_org (f x) = mb_org x) \<Longrightarrow> keeps (same_outside org rest) (write_batch env r f)"
  unfolding write_batch_def
  by (rule keepsI) (simp add: wp_if outside_update_batch)

lemma keeps_outside_audit: "keeps (same_outside org rest) (append_audit i org actor ty act res st ds ctx now)"
  unfolding append_audit_def by (rule keepsI) (simp add: wp_if outside_def)

lemma keeps_outside_alert: "al_org a = org \<Longrightarrow> keeps (same_outside org rest) (insert_alert_once a)"
  unfolding insert_alert_once_def insert_alert_def
  by (rule keepsI) (simp add: wp_if outside_def)

lemma keeps_outside_ingest: "keeps (same_outside org rest) (ingest_batch env org dev b digest payload now)"
  unfolding ingest_batch_def Let_def
  by (rule keepsI) (auto simp: wp_if outside_def touch_device_def new_batch_def
      intro!: filter_update_where_out split: option.splits)

lemma keeps_outside_retry: "keeps (same_outside org rest) (authorize_retry env org dev b actor reason ctx i now)"
  unfolding authorize_retry_def Let_def
  by (rule keeps_txn keeps_outside_find keeps_rules keeps_outside_write keeps_outside_audit | assumption | simp)+

lemma keeps_outside_reupload: "keeps (same_outside org rest) (reupload_batch env org dev b digest payload i now)"
  unfolding reupload_batch_def
  by (rule keeps_outside_find keeps_rules keeps_outside_write keeps_outside_audit | assumption | simp)+

lemma keeps_outside_decide:
  "keeps (same_outside org rest) (decide_exhausted_batch org dev b actor action reason ctx i now)"
  unfolding decide_exhausted_batch_def Let_def
  by (rule keeps_rules keeps_outside_audit)+

lemma keeps_outside_claim: "keeps (same_outside org rest) (claim_next org locked)"
  unfolding claim_next_def
  by (rule keepsI) (auto simp: outside_update_batch split: option.splits)

lemma outside_insert_samples:
  "\<forall>x\<in>set xs. ms_org x = org \<Longrightarrow> outside org (foldl (\<lambda>db x. insert_sample x db) db xs) = outside org db"
  by (induction xs arbitrary: db) (auto simp: insert_sample_def outside_def)

lemma sample_rows_org: "\<forall>x\<in>set (sample_rows env org dev b ss). ms_org x = org"
  by (auto simp: sample_rows_def)

lemma keeps_outside_failure:
  "keeps (same_outside org rest) (record_processing_failure env org dev b code i now)"
  unfolding record_processing_failure_def Let_def
  by (rule keeps_outside_find keeps_rules keeps_outside_write keeps_outside_audit keeps_outside_alert
      | assumption | simp add: exhausted_alert_def split: prod.split)+

lemma keeps_outside_store: "keeps (same_outside org rest) (store_samples env org dev b ss fails now)"
  unfolding store_samples_def
  by (rule keepsI) (auto simp: wp_if outside_update_batch outside_insert_samples [OF sample_rows_org]
      split: option.splits)

lemma keeps_outside_finish: "keeps (same_outside (mb_org x) rest) (finish_batch env x fails i now)"
  unfolding finish_batch_def Let_def
  by (auto intro!: keeps_rules keeps_outside_failure keeps_outside_store split: option.split)

text \<open>The organisation an operation acts for.\<close>

fun acts_for :: "'j cluster \<Rightarrow> batch_op \<Rightarrow> uuid \<Rightarrow> bool" where
  "acts_for w (Ingest who dev b now) org = (id_org who = org)"
| "acts_for w (Reupload who dev b i now) org = (id_org who = org)"
| "acts_for w (Retry o' dev b actor reason ctx i now) org = (o' = org)"
| "acts_for w (Decide o' dev b actor action reason ctx i now) org = (o' = org)"
| "acts_for w (Claim o' locked) org = (o' = org)"
| "acts_for w (Finish k fails i now) org = (k < length (inflight w) \<longrightarrow> mb_org (inflight w ! k) = org)"
| "acts_for w (Die k) org = True"

lemma keeps_outside_request: "acts_for w p org \<Longrightarrow> keeps (same_outside org rest) (request env p)"
  by (cases p) (auto intro!: keeps_rules keeps_surface keeps_outside_ingest keeps_outside_decide
      keeps_outside_retry keeps_outside_reupload
      simp: app_ingest_batch_def app_reupload_batch_def app_authorize_retry_def
        app_decide_exhausted_batch_def)

text \<open>Property C25. Tenants are isolated: a batch operation for one organisation, an agent's upload, a user's
  decision or a worker's step, leaves every row of every table of every other organisation as it is.\<close>

theorem tenant_isolation:
  assumes "acts_for w p org"
  shows "outside org (cl_db (cluster_exec env p w)) = outside org (cl_db w)"
proof (cases p)
  case (Claim o' locked)
  have "outside org (snd (claim_next o' locked (cl_db w))) = outside org (cl_db w)"
    using keepsD [OF keeps_outside_claim] assms Claim by auto
  then show ?thesis by (auto simp: Claim split: prod.splits sum.splits option.splits)
next
  case (Finish k fails i now)
  then show ?thesis
    using assms keepsD [OF keeps_outside_finish [of "inflight w ! k" "outside org (cl_db w)"], of "cl_db w"]
    by auto
qed (use keepsD [OF keeps_outside_request [OF assms, where rest = "outside org (cl_db w)" and env = env],
    of "cl_db w"] in auto)

section \<open>Witnesses\<close>

text \<open>
  A concrete server: payloads are parsed samples, the digest is a check digit, \<open>uuid5\<close> folds the
  name into the identifier; one organisation (1) with two devices (2 and 3).
\<close>

definition sample_env :: "sample_input metric_env" where
  "sample_env = \<lparr>parse_sample = Some, canonical_json = id,
     digest_of = (\<lambda>js. replicate 63 (CHR ''0'') @ [char_of (48 + nat (sum_list (map si_value js)) mod 10)]),
     uuid5 = (\<lambda>b s. b * 100 + of_nat (sum_list (map of_char s))), column_size = length,
     label_size = length\<rparr>"

definition cpu_sample :: "int \<Rightarrow> int \<Rightarrow> sample_input" where
  "cpu_sample v t = \<lparr>si_name = ''cpu'', si_value = v, si_recorded_at = t, si_labels = []\<rparr>"

definition upload :: "uuid \<Rightarrow> int \<Rightarrow> batch_input" where
  "upload b v = \<lparr>bi_batch_id = b, bi_digest = computed_digest sample_env [cpu_sample v 5],
     bi_samples = [cpu_sample v 5]\<rparr>"

definition empty_server :: "sample_input cluster" where
  "empty_server = \<lparr>cl_db = \<lparr>batches = [], samples = [], rules = [], alerts = [], audits = [],
     devices = [\<lparr>dv_org = 1, dv_id = 2, dv_active = True, dv_last_seen = None, dv_updated_at = 0\<rparr>,
       \<lparr>dv_org = 1, dv_id = 3, dv_active = True, dv_last_seen = None, dv_updated_at = 0\<rparr>],
     assignments = []\<rparr>, inflight = []\<rparr>"

definition agent_of :: "uuid \<Rightarrow> agent_identity" where
  "agent_of dev = \<lparr>id_org = 1, id_device = dev, id_token = 9\<rparr>"

definition one_received :: "sample_input cluster" where
  "one_received = cluster_exec sample_env (Ingest (agent_of 2) 2 (upload 7 1) 10) empty_server"

lemmas sample_server_defs = sample_env_def cpu_sample_def upload_def empty_server_def agent_of_def
  one_received_def


lemma sample_digest: "computed_digest sample_env [cpu_sample v t] = replicate 63 (CHR ''0'') @ [char_of (48 + nat v mod 10)]"
  by (simp add: computed_digest_def canonical_samples_def sample_env_def cpu_sample_def)

lemma digest_ok: "0 \<le> v \<Longrightarrow> v < 10 \<Longrightarrow> digest_shape (computed_digest sample_env [cpu_sample v t])"
  by (simp add: digest_shape_def sample_digest list_all_iff lower_hex_def is_digit_def) linarith

lemma upload_checks: "0 \<le> v \<Longrightarrow> v < 10 \<Longrightarrow> batch_checks sample_env (new_batch org dev b
     (computed_digest sample_env [cpu_sample v t]) [cpu_sample v t] now)"
  by (simp add: batch_checks_def new_batch_def digest_ok) (simp add: sample_env_def)

lemma one_received_eq: "one_received = empty_server\<lparr>cl_db := (cl_db empty_server)\<lparr>
    batches := [new_batch 1 2 7 (computed_digest sample_env [cpu_sample 1 5]) [cpu_sample 1 5] 10],
    devices := [\<lparr>dv_org = 1, dv_id = 2, dv_active = True, dv_last_seen = Some 10, dv_updated_at = 10\<rparr>,
       \<lparr>dv_org = 1, dv_id = 3, dv_active = True, dv_last_seen = None, dv_updated_at = 0\<rparr>]\<rparr>\<rparr>"
proof -
  have c: "canonical_samples sample_env [cpu_sample 1 5] = [cpu_sample 1 5]"
    by (simp add: canonical_samples_def sample_env_def)
  show ?thesis
    by (simp add: one_received_def app_ingest_batch_def agent_of_def upload_def c ingest_batch_def
        surface_def eff_defs upload_checks empty_server_def find_batch_def select_where_def first_row_def
        device_exists_def touch_device_def update_where_def)
qed

abbreviation row_of_2 :: "sample_input batch_row" where
  "row_of_2 \<equiv> new_batch 1 2 7 (computed_digest sample_env [cpu_sample 1 5]) [cpu_sample 1 5] 10"

abbreviation row_of_3 :: "sample_input batch_row" where
  "row_of_3 \<equiv> new_batch 1 3 7 (computed_digest sample_env [cpu_sample 4 5]) [cpu_sample 4 5] 30"

lemma cluster_ok_start: "cluster_ok empty_server"
  by (simp add: cluster_ok_def rows_ok_def held_ok_def empty_server_def)

lemma cluster_ok_one: "cluster_ok one_received"
  unfolding one_received_def using exec_step [OF cluster_ok_start] by blast

theorem batch_invariant_witness:
  "cluster_ok (fold (cluster_exec sample_env) [Ingest (agent_of 2) 2 (upload 7 1) 10, Die 0] empty_server)"
  by (rule batch_invariant) (simp_all add: empty_server_def)


theorem batch_lifecycle_witness:
  "\<exists>r'\<in>set (batches (cl_db (fold (cluster_exec sample_env) [Claim 1 (\<lambda>_. False)] one_received))).
     batch_step row_of_2 r' \<and> 0 \<le> distance r' \<and> distance row_of_2 \<le> 55"
  by (rule batch_lifecycle [OF cluster_ok_one]) (simp add: one_received_eq)

definition one_claimed :: "sample_input cluster" where
  "one_claimed = cluster_exec sample_env (Claim 1 (\<lambda>_. False)) one_received"

lemma one_received_next: "next_received 1 (\<lambda>_. False) (cl_db one_received) = Some row_of_2"
  by (simp add: next_received_def one_received_eq select_where_def first_row_def order_by_def new_batch_def)

lemma one_claimed_held: "inflight one_claimed = [row_of_2]"
  by (simp add: one_claimed_def claim_next_def eff_defs one_received_next)
    (simp add: one_received_eq empty_server_def)

lemma cluster_ok_claimed: "cluster_ok one_claimed"
  unfolding one_claimed_def using exec_step [OF cluster_ok_one] by blast

theorem abandoned_batch_stays_witness:
  "row_of_2\<lparr>mb_status := PROCESSING\<rparr>
    \<in> abandoned (fold (cluster_exec sample_env) [Claim 1 (\<lambda>_. False)]
        (cluster_exec sample_env (Die 0) one_claimed))"
  using abandoned_batch_stays [OF cluster_ok_claimed, of 0 sample_env "[Claim 1 (\<lambda>_. False)]"]
  by (simp only: one_claimed_held) simp

lemma first_upload: "app_ingest_batch sample_env (agent_of 2) 2 (upload 7 1) 10 (cl_db empty_server)
    = (Inr \<lparr>rc_id = 7, rc_status = RECEIVED, rc_duplicate = False\<rparr>, cl_db one_received)"
proof -
  have c: "canonical_samples sample_env [cpu_sample 1 5] = [cpu_sample 1 5]"
    by (simp add: canonical_samples_def sample_env_def)
  show ?thesis
    by (simp add: one_received_def app_ingest_batch_def agent_of_def upload_def c ingest_batch_def
        surface_def eff_defs upload_checks empty_server_def find_batch_def select_where_def first_row_def
        device_exists_def touch_device_def update_where_def)
qed

theorem ingest_idempotent_witness:
  "app_ingest_batch sample_env (agent_of 2) 2 (upload 7 2) 20
     (cl_db (fold (cluster_exec sample_env) [Claim 1 (\<lambda>_. False)]
       (cluster_exec sample_env (Ingest (agent_of 2) 2 (upload 7 1) 10) empty_server)))
   = (Inl BatchIdentityCollision, cl_db (fold (cluster_exec sample_env) [Claim 1 (\<lambda>_. False)]
       (cluster_exec sample_env (Ingest (agent_of 2) 2 (upload 7 1) 10) empty_server)))"
proof -
  have other: "bi_batch_id (upload 7 2) = bi_batch_id (upload 7 1)"
    "bi_digest (upload 7 2) = computed_digest sample_env (bi_samples (upload 7 2))"
    by (simp_all add: upload_def)
  have diff: "bi_digest (upload 7 2) \<noteq> bi_digest (upload 7 1)"
    by (simp add: upload_def sample_digest)
  have c: "canonical_samples sample_env [cpu_sample 2 5] = [cpu_sample 2 5]"
    by (simp add: canonical_samples_def sample_env_def)
  have checks: "batch_checks sample_env (new_batch (id_org (agent_of 2)) (id_device (agent_of 2))
      (bi_batch_id (upload 7 2)) (bi_digest (upload 7 2))
      (canonical_samples sample_env (bi_samples (upload 7 2))) 20)"
    by (simp add: upload_def c upload_checks)
  show ?thesis
    using ingest_idempotent [OF cluster_ok_start first_upload other diff checks refl,
        of "[Claim 1 (\<lambda>_. False)]"] by blast
qed

lemma sample_payloads:
  "payload_samples sample_env row_of_2 = Some [cpu_sample 1 5]"
  "payload_samples sample_env row_of_3 = Some [cpu_sample 4 5]"
  by (simp_all add: payload_samples_def new_batch_def model_validate_def sample_env_def
      sample_input_ok_def cpu_sample_def metric_name_shape_def name_char_def is_lower_def MAX_LABELS_def)

theorem processing_stores_samples_witness:
  "\<exists>db'. process_next_batch sample_env 1 (\<lambda>_. False) False 50 20 (cl_db one_received)
      = (Inr (Some \<lparr>rc_id = 7, rc_status = PROCESSED, rc_duplicate = False\<rparr>), db')
    \<and> samples db' = sample_rows sample_env 1 2 7 [cpu_sample 1 5]"
proof -
  have dev: "device_exists 1 (mb_device row_of_2) (cl_db one_received)"
    and none: "samples (cl_db one_received) = []"
    by (simp_all add: one_received_eq device_exists_def new_batch_def empty_server_def)
  have size: "list_all (\<lambda>s. label_size sample_env (si_labels s) \<le> 8192) [cpu_sample 1 5]"
    by (simp add: sample_env_def cpu_sample_def)
  have inj: "inj_on (uuid5 sample_env (mb_id row_of_2)) (digit_str ` {..<length [cpu_sample 1 5]})"
    by (simp add: inj_on_def lessThan_Suc)
  have "\<exists>db'. process_next_batch sample_env 1 (\<lambda>_. False) False 50 20 (cl_db one_received)
      = (Inr (Some \<lparr>rc_id = mb_id row_of_2, rc_status = PROCESSED, rc_duplicate = False\<rparr>), db')
    \<and> samples db' = samples (cl_db one_received)
        @ sample_rows sample_env 1 (mb_device row_of_2) (mb_id row_of_2) [cpu_sample 1 5]
    \<and> find_batch 1 (mb_device row_of_2) (mb_id row_of_2) db' = Some (processed_row 20 row_of_2)"
    by (rule processing_stores_samples [OF _ one_received_next sample_payloads(1) dev size inj])
      (use cluster_ok_one none in \<open>simp_all add: cluster_ok_def\<close>)
  then show ?thesis by (auto simp: none new_batch_def)
qed

theorem tenant_isolation_witness:
  "outside 1 (cl_db (cluster_exec sample_env (Claim 1 (\<lambda>_. False)) one_received))
    = outside 1 (cl_db one_received)"
  by (rule tenant_isolation) simp


text \<open>Device 2 has had a batch processed; device 3 now uses the same identifier.\<close>

definition both_uploaded :: "sample_input metric_db" where
  "both_uploaded = (cl_db empty_server)\<lparr>batches := [processed_row 20 row_of_2, row_of_3],
     samples := sample_rows sample_env 1 2 7 [cpu_sample 1 5]\<rparr>"

theorem same_batch_id_loses_samples_witness:
  "\<exists>db'. process_next_batch sample_env 1 (\<lambda>_. False) False 51 40 both_uploaded
      = (Inr (Some \<lparr>rc_id = 7, rc_status = PROCESSED, rc_duplicate = False\<rparr>), db')
    \<and> samples db' = samples both_uploaded"
proof -
  have ok: "rows_ok (batches both_uploaded)"
    by (simp add: both_uploaded_def rows_ok_def batch_key_def processed_row_def new_batch_def life_ok_def)
  have next_batch: "next_received 1 (\<lambda>_. False) both_uploaded = Some row_of_3"
    by (simp add: next_received_def both_uploaded_def select_where_def first_row_def order_by_def
        new_batch_def processed_row_def)
  have dev: "device_exists 1 (mb_device row_of_3) both_uploaded"
    by (simp add: both_uploaded_def device_exists_def new_batch_def empty_server_def)
  have times: "map si_recorded_at [cpu_sample 1 5] = map si_recorded_at [cpu_sample 4 5]"
    by (simp add: cpu_sample_def)
  have "\<exists>db'. process_next_batch sample_env 1 (\<lambda>_. False) False 51 40 both_uploaded
      = (Inr (Some \<lparr>rc_id = mb_id row_of_3, rc_status = PROCESSED, rc_duplicate = False\<rparr>), db')
    \<and> samples db' = samples both_uploaded
    \<and> find_batch 1 (mb_device row_of_3) (mb_id row_of_3) db' = Some (processed_row 40 row_of_3)"
    by (rule same_batch_id_loses_samples [OF ok next_batch sample_payloads(2) dev _ refl _ times, of 2])
      (simp_all add: both_uploaded_def new_batch_def sample_env_def cpu_sample_def)
  then show ?thesis by (auto simp: new_batch_def)
qed

end
