(* ===== verification/Metric_Alerts.thy ===== *)
theory Metric_Alerts
  imports Metric_Batches
begin

text \<open>
  Alert rules and their evaluation: \<open>evaluate_rule\<close> in \<open>backend/app/metrics/service.py\<close> and the
  alert and telemetry methods of \<open>backend/app/metrics/postgres.py\<close>.

  Instants are microseconds and values ten-thousandths, so the comparisons are exact; the code
  converts a \<open>Numeric(14, 4)\<close> to a double first, which keeps order and equality of numbers of at
  most 14 digits. \<open>ids\<close> gives the \<open>uuid4\<close> an alert of a rule and a device gets.
\<close>

section \<open>One rule on one window\<close>

fun compare :: "comparison_operator \<Rightarrow> int \<Rightarrow> int \<Rightarrow> bool" where
  "compare GT v t = (v > t)"
| "compare GTE v t = (v \<ge> t)"
| "compare LT v t = (v < t)"
| "compare LTE v t = (v \<le> t)"
| "compare EQ v t = (v = t)"

definition seconds_of :: "int \<Rightarrow> int" where
  "seconds_of n = n * 1000000"

fun qualifying_start ::
  "(int \<Rightarrow> bool) \<Rightarrow> int \<Rightarrow> int \<Rightarrow> (int \<times> int) list \<Rightarrow> int" where
  "qualifying_start ok now start [] = start"
| "qualifying_start ok now start ((t, v) # rest) =
     (if t > now then qualifying_start ok now start rest
      else if \<not> ok v then start
      else qualifying_start ok now t rest)"

definition evaluate_rule :: "rule_row \<Rightarrow> (int \<times> int) list \<Rightarrow> int \<Rightarrow> bool" where
  "evaluate_rule rule points now =
     (if points = [] then False
      else
        let ordered = sort_key fst points;
            ok = (\<lambda>v. compare (ar_operator rule) v (ar_threshold rule));
            (latest_at, latest_value) = last ordered
        in if latest_at > now \<or> \<not> ok latest_value then False
           else qualifying_start ok now latest_at (rev ordered) \<le> now - seconds_of (ar_duration rule))"

section \<open>Evaluation of all rules\<close>

definition window_start :: "rule_row \<Rightarrow> int \<Rightarrow> int" where
  "window_start rule now = now - seconds_of (max (ar_duration rule * 2) 300)"

definition in_window :: "rule_row \<Rightarrow> int \<Rightarrow> sample_row \<Rightarrow> bool" where
  "in_window rule now x \<longleftrightarrow> ms_org x = ar_org rule \<and> ms_name x = ar_metric rule
     \<and> window_start rule now \<le> ms_recorded_at x \<and> ms_recorded_at x \<le> now"

text \<open>\<open>SELECT DISTINCT device_id\<close>, in no particular order.\<close>

definition window_devices :: "rule_row \<Rightarrow> int \<Rightarrow> 'j metric_db \<Rightarrow> uuid list" where
  "window_devices rule now db = remdups (map ms_device (select_where (in_window rule now) (samples db)))"

definition window_samples :: "rule_row \<Rightarrow> uuid \<Rightarrow> int \<Rightarrow> 'j metric_db \<Rightarrow> (int \<times> int) list" where
  "window_samples rule dev now db = map (\<lambda>x. (ms_recorded_at x, ms_value x))
     (order_by ms_recorded_at (select_where (\<lambda>x. in_window rule now x \<and> ms_device x = dev) (samples db)))"

definition alert_of :: "rule_row \<Rightarrow> uuid \<Rightarrow> alert_row \<Rightarrow> bool" where
  "alert_of rule dev a \<longleftrightarrow> al_org a = ar_org rule \<and> al_rule a = Some (ar_id rule) \<and> al_device a = dev
     \<and> active_alert a"

definition existing_alert :: "rule_row \<Rightarrow> uuid \<Rightarrow> 'j metric_db \<Rightarrow> alert_row option" where
  "existing_alert rule dev db =
     first_row (order_by (\<lambda>a. - al_triggered_at a) (select_where (alert_of rule dev) (alerts db)))"

fun operator_name :: "comparison_operator \<Rightarrow> string" where
  "operator_name GT = ''GT''"
| "operator_name GTE = ''GTE''"
| "operator_name LT = ''LT''"
| "operator_name LTE = ''LTE''"
| "operator_name EQ = ''EQ''"

text \<open>\<open>str\<close> of a \<open>Numeric(14, 4)\<close>: sign, whole part, four decimals.\<close>

definition decimal_str :: "int \<Rightarrow> string" where
  "decimal_str v = (let n = nat \<bar>v\<bar>; frac = digit_str (n mod 10000) in
     (if v < 0 then ''-'' else '''') @ digit_str (n div 10000) @ ''.''
       @ replicate (4 - length frac) (CHR ''0'') @ frac)"

definition alert_message :: "rule_row \<Rightarrow> string" where
  "alert_message rule = ''Regla '' @ [char_of (39 :: nat)] @ ar_name rule @ [char_of (39 :: nat)] @ '': ''
     @ ar_metric rule @ '' '' @ operator_name (ar_operator rule) @ '' '' @ decimal_str (ar_threshold rule)"

definition new_alert :: "rule_row \<Rightarrow> uuid \<Rightarrow> uuid \<Rightarrow> int \<Rightarrow> alert_row" where
  "new_alert rule dev i now = \<lparr>al_org = ar_org rule, al_id = i, al_rule = Some (ar_id rule),
     al_device = dev, al_severity = ar_severity rule, al_status = OPEN,
     al_message = alert_message rule, al_triggered_at = now, al_resolved_at = None\<rparr>"

definition resolve_alert :: "uuid \<Rightarrow> uuid \<Rightarrow> int \<Rightarrow> 'j metric_db \<Rightarrow> 'j metric_db" where
  "resolve_alert org i now db = db\<lparr>alerts := update_where (\<lambda>a. al_org a = org \<and> al_id a = i)
     (\<lambda>a. a\<lparr>al_status := RESOLVED, al_resolved_at := Some now\<rparr>) (alerts db)\<rparr>"

definition evaluate_device ::
  "(uuid \<Rightarrow> uuid \<Rightarrow> uuid) \<Rightarrow> int \<Rightarrow> rule_row \<Rightarrow> uuid \<Rightarrow> ('j, alert_row option) meff" where
  "evaluate_device ids now rule dev = bindE (reads id) (\<lambda>db.
     let triggered = evaluate_rule rule (window_samples rule dev now db) now;
         existing = existing_alert rule dev db
     in case existing of
          None \<Rightarrow>
            if triggered then
              let a = new_alert rule dev (ids (ar_id rule) dev) now in
              bindE (insert_alert a) (\<lambda>_. ret (Some a))
            else ret None
        | Some a \<Rightarrow>
            if \<not> triggered \<and> al_status a \<in> {OPEN, ACKNOWLEDGED} then
              bindE (writes (resolve_alert (ar_org rule) (al_id a) now))
                (\<lambda>_. ret (Some (a\<lparr>al_status := RESOLVED, al_resolved_at := Some now\<rparr>)))
            else ret None)"

definition evaluate_one_rule ::
  "(uuid \<Rightarrow> uuid \<Rightarrow> uuid) \<Rightarrow> int \<Rightarrow> rule_row \<Rightarrow> ('j, alert_row option list) meff" where
  "evaluate_one_rule ids now rule =
     bindE (reads (window_devices rule now)) (mapE (evaluate_device ids now rule))"

definition evaluate_alerts ::
  "(uuid \<Rightarrow> uuid \<Rightarrow> uuid) \<Rightarrow> uuid \<Rightarrow> int \<Rightarrow> ('j, alert_row list) meff" where
  "evaluate_alerts ids org now = txn (
     bindE (reads (\<lambda>db. select_where (\<lambda>r. ar_org r = org \<and> ar_enabled r) (rules db))) (\<lambda>rs.
     bindE (mapE (evaluate_one_rule ids now) rs) (\<lambda>found.
     ret (List.map_filter id (concat found)))))"

definition app_evaluate_alerts ::
  "(uuid \<Rightarrow> uuid \<Rightarrow> uuid) \<Rightarrow> uuid \<Rightarrow> int \<Rightarrow> ('j, alert_row list) meff" where
  "app_evaluate_alerts ids org now = surface {} (evaluate_alerts ids org now)"

section \<open>Rules, alerts and telemetry for users\<close>

record rule_input =
  ri_name :: string
  ri_metric :: string
  ri_operator :: comparison_operator
  ri_threshold :: int
  ri_duration :: int
  ri_severity :: alert_severity

text \<open>\<open>AlertRuleInput\<close>: the bounds, then the blanks around the name removed.\<close>

definition validate_rule :: "rule_input \<Rightarrow> rule_input option" where
  "validate_rule i = (if 1 \<le> length (ri_name i) \<and> length (ri_name i) \<le> 150
       \<and> metric_name_shape (ri_metric i) \<and> \<bar>ri_threshold i\<bar> < 10 ^ 14
       \<and> 0 \<le> ri_duration i \<and> ri_duration i \<le> 86400 \<and> py_strip (ri_name i) \<noteq> []
     then Some (i\<lparr>ri_name := py_strip (ri_name i)\<rparr>) else None)"

definition rule_of_input :: "uuid \<Rightarrow> uuid \<Rightarrow> rule_input \<Rightarrow> int \<Rightarrow> rule_row" where
  "rule_of_input org i ri now = \<lparr>ar_org = org, ar_id = i, ar_name = ri_name ri, ar_metric = ri_metric ri,
     ar_operator = ri_operator ri, ar_threshold = ri_threshold ri, ar_duration = ri_duration ri,
     ar_severity = ri_severity ri, ar_enabled = True, ar_created_at = now\<rparr>"

definition create_alert_rule ::
  "uuid \<Rightarrow> uuid \<Rightarrow> rule_input \<Rightarrow> uuid \<Rightarrow> uuid \<Rightarrow> int \<Rightarrow> ('j, rule_row) meff" where
  "create_alert_rule org actor ri rule_id audit_id now = txn (bindE (reads rules) (\<lambda>rows.
     let r = rule_of_input org rule_id ri now in
     if \<not> rule_checks r \<or> (\<exists>x\<in>set rows. ar_org x = org \<and> (ar_id x = rule_id \<or> ar_name x = ar_name r))
     then raise DatabaseError
     else bindE (writes (\<lambda>db. db\<lparr>rules := rules db @ [r]\<rparr>)) (\<lambda>_.
       bindE (append_audit audit_id org (Some actor) ''USER'' ''ALERT_RULE.CREATE'' rule_id ''SUCCESS''
         [] None now) (\<lambda>_. ret r))))"

definition app_create_alert_rule ::
  "uuid \<Rightarrow> uuid \<Rightarrow> rule_input \<Rightarrow> uuid \<Rightarrow> uuid \<Rightarrow> int \<Rightarrow> ('j, rule_row) meff" where
  "app_create_alert_rule org actor ri rule_id audit_id now =
     surface {} (create_alert_rule org actor ri rule_id audit_id now)"

text \<open>The statement names no organisation; the row policy of the table restricts it to the tenant's.\<close>

definition list_alert_rules :: "uuid \<Rightarrow> 'j metric_db \<Rightarrow> rule_row list" where
  "list_alert_rules org db =
     order_by (\<lambda>r. - ar_created_at r) (select_where (\<lambda>r. ar_org r = org) (rules db))"

definition list_alerts :: "uuid \<Rightarrow> nat \<Rightarrow> 'j metric_db \<Rightarrow> alert_row list" where
  "list_alerts org limit db = take limit (order_by (\<lambda>a. - al_triggered_at a)
     (order_by (\<lambda>a. - uint (al_id a)) (select_where (\<lambda>a. al_org a = org) (alerts db))))"

definition list_telemetry ::
  "uuid \<Rightarrow> uuid \<Rightarrow> uuid \<Rightarrow> bool \<Rightarrow> string option \<Rightarrow> nat \<Rightarrow> 'j metric_db \<Rightarrow> sample_row list" where
  "list_telemetry org dev actor assigned_only metric limit db = take limit
     (order_by (\<lambda>x. - ms_recorded_at x) (order_by (\<lambda>x. - uint (ms_id x))
       (select_where (\<lambda>x. ms_org x = org \<and> ms_device x = dev
          \<and> (\<not> assigned_only \<or> (\<exists>g\<in>set (assignments db). as_org g = ms_org x \<and> as_device g = ms_device x
               \<and> as_user g = actor))
          \<and> (case metric of None \<Rightarrow> True | Some m \<Rightarrow> ms_name x = m)) (samples db))))"

section \<open>What it means for a rule to fire\<close>

lemma qualifying_start_le:
  assumes "sorted_wrt (\<lambda>x y. fst y < fst x) points" and "\<forall>p\<in>set points. fst p \<le> now \<and> fst p \<le> start"
  shows "qualifying_start ok now start points \<le> b \<longleftrightarrow>
    start \<le> b \<or> (\<exists>(t, v)\<in>set points. t \<le> b \<and> (\<forall>(t', v')\<in>set points. t \<le> t' \<longrightarrow> ok v'))"
  using assms
proof (induction points arbitrary: start)
  case Nil
  then show ?case by simp
next
  case (Cons p rest)
  obtain t v where p: "p = (t, v)" by fastforce
  have later: "\<forall>q\<in>set rest. fst q < t" using Cons.prems by (simp add: p)
  show ?case
  proof (cases "ok v")
    case True
    have "qualifying_start ok now start (p # rest) = qualifying_start ok now t rest"
      using True Cons.prems by (simp add: p)
    also have "\<dots> \<le> b \<longleftrightarrow> t \<le> b \<or> (\<exists>(t, v)\<in>set rest. t \<le> b \<and> (\<forall>(t', v')\<in>set rest. t \<le> t' \<longrightarrow> ok v'))"
      using Cons.prems later by (intro Cons.IH) (auto simp: p order.strict_implies_order)
    finally show ?thesis using True Cons.prems later by (auto simp: p)
  next
    case False
    then show ?thesis using Cons.prems later by (fastforce simp: p)
  qed
qed

lemma sorted_last_max: "sorted (map f xs) \<Longrightarrow> x \<in> set xs \<Longrightarrow> f x \<le> f (last xs)"
  by (induction xs) (auto split: if_splits)

text \<open>Property C27. The scan that decides whether a rule fires agrees with its meaning: given samples at
  distinct times, it answers True exactly when no sample lies in the future and there is a sample at
  least the rule's duration old from which on every sample satisfies the comparison.\<close>

theorem evaluate_rule_meaning:
  assumes "distinct (map fst points)"
  shows "evaluate_rule rule points now \<longleftrightarrow> (\<forall>(t, v)\<in>set points. t \<le> now)
    \<and> (\<exists>(t, v)\<in>set points. t \<le> now - seconds_of (ar_duration rule)
        \<and> (\<forall>(t', v')\<in>set points. t \<le> t' \<longrightarrow> compare (ar_operator rule) v' (ar_threshold rule)))"
proof (cases "points = []")
  case True
  then show ?thesis by (simp add: evaluate_rule_def)
next
  case False
  let ?xs = "sort_key fst points" and ?ok = "\<lambda>v. compare (ar_operator rule) v (ar_threshold rule)"
    and ?b = "now - seconds_of (ar_duration rule)"
  obtain t v where last: "last ?xs = (t, v)" by fastforce
  have ne: "?xs \<noteq> []" using False by (metis set_empty set_sort)
  have mem: "(t, v) \<in> set points" using last last_in_set [OF ne] by simp
  have top: "t' \<le> t" if "(t', v') \<in> set points" for t' v'
    using sorted_last_max [of fst ?xs "(t', v')"] that last by simp
  have uniq: "v' = v" if "(t, v') \<in> set points" for v'
    using that mem assms by (meson eq_key_imp_eq_value)
  have "distinct (map fst ?xs)" using assms by (simp add: distinct_map)
  then have "sorted_wrt (<) (map fst ?xs)" by (simp add: strict_sorted_iff)
  then have "sorted_wrt (\<lambda>x y. fst y < fst x) (rev ?xs)"
    by (simp add: sorted_wrt_rev sorted_wrt_map)
  note start = qualifying_start_le [OF this, of now t ?ok ?b]
  have bound: "t \<le> now \<Longrightarrow> \<forall>p\<in>set (rev ?xs). fst p \<le> now \<and> fst p \<le> t"
    using order.trans [OF top] by (auto simp: top)
  have scan: "t \<le> now \<Longrightarrow> qualifying_start ?ok now t (rev ?xs) \<le> ?b \<longleftrightarrow>
      t \<le> ?b \<or> (\<exists>(t, v)\<in>set points. t \<le> ?b \<and> (\<forall>(t', v')\<in>set points. t \<le> t' \<longrightarrow> ?ok v'))"
    using start [OF bound] by simp
  show ?thesis
  proof (cases "t \<le> now \<and> ?ok v")
    case True
    then have "evaluate_rule rule points now \<longleftrightarrow> qualifying_start ?ok now t (rev ?xs) \<le> ?b"
      using False last by (simp add: evaluate_rule_def Let_def)
    moreover have "?ok v'" if "(t', v') \<in> set points" "t \<le> t'" for t' v'
    proof -
      have "t' = t" using top [OF that(1)] that(2) by simp
      then show ?thesis using uniq that(1) True by blast
    qed
    then have "t \<le> ?b \<Longrightarrow> \<exists>(t, v)\<in>set points. t \<le> ?b \<and> (\<forall>(t', v')\<in>set points. t \<le> t' \<longrightarrow> ?ok v')"
      using mem by blast
    moreover have "\<forall>(t', v')\<in>set points. t' \<le> now"
      using True order.trans [OF top] by blast
    ultimately show ?thesis using scan True by blast
  next
    case no: False
    then have "\<not> evaluate_rule rule points now"
      using False last by (auto simp: evaluate_rule_def Let_def)
    then show ?thesis using no mem top by fastforce
  qed
qed

section \<open>Evaluation settles every rule\<close>

definition alert_key :: "alert_row \<Rightarrow> uuid \<times> uuid" where
  "alert_key a = (al_org a, al_id a)"

definition alerts_ok :: "'j metric_db \<Rightarrow> bool" where
  "alerts_ok db \<longleftrightarrow> distinct (map alert_key (alerts db)) \<and> (\<forall>a\<in>set (alerts db). alert_checks a)
     \<and> (\<forall>a\<in>set (alerts db). \<forall>b\<in>set (alerts db). same_active a b \<longrightarrow> a = b)"

text \<open>A firing rule has an active alert, a rule that does not fire has none but a suppressed one.\<close>

definition settled :: "int \<Rightarrow> rule_row \<times> uuid \<Rightarrow> 'j metric_db \<Rightarrow> bool" where
  "settled now p db = (case p of (rule, dev) \<Rightarrow>
     if evaluate_rule rule (window_samples rule dev now db) now
     then \<exists>a\<in>set (alerts db). alert_of rule dev a
     else \<forall>a\<in>set (alerts db). alert_of rule dev a \<longrightarrow> al_status a = SUPPRESSED)"

definition rule_key :: "rule_row \<Rightarrow> uuid \<times> uuid" where
  "rule_key r = (ar_org r, ar_id r)"

lemma window_samples_alerts [simp]:
  "window_samples rule dev now (db\<lparr>alerts := as\<rparr>) = window_samples rule dev now db"
  "window_devices rule now (db\<lparr>alerts := as\<rparr>) = window_devices rule now db"
  by (simp_all add: window_samples_def window_devices_def)

lemma wp_insert_alert:
  assumes "alerts_ok db"
    and "alerts_ok (db\<lparr>alerts := alerts db @ [a]\<rparr>) \<Longrightarrow> Q () (db\<lparr>alerts := alerts db @ [a]\<rparr>)"
  shows "wp (insert_alert a) Q (\<lambda>_ _. True) db"
proof -
  have "alerts_ok (db\<lparr>alerts := alerts db @ [a]\<rparr>)"
    if "alert_checks a"
      and "\<not> (\<exists>b\<in>set (alerts db). (al_org b = al_org a \<and> al_id b = al_id a) \<or> same_active a b)"
  proof -
    have "alert_key a \<notin> alert_key ` set (alerts db)" and "\<forall>b\<in>set (alerts db). \<not> same_active a b"
      using that(2) by (auto simp: alert_key_def)
    moreover from this(2) have "\<forall>b\<in>set (alerts db). \<not> same_active b a"
      unfolding same_active_def by metis
    ultimately show ?thesis
      using assms(1) that(1) by (auto simp: alerts_ok_def)
  qed
  then show ?thesis using assms(2) by (auto simp: insert_alert_def wp_if)
qed

lemma existing_alert_Some:
  "existing_alert rule dev db = Some a \<Longrightarrow> a \<in> set (alerts db) \<and> alert_of rule dev a"
  unfolding existing_alert_def by (drule first_row_SomeD) simp

lemma existing_alert_None:
  "existing_alert rule dev db = None \<longleftrightarrow> (\<forall>a\<in>set (alerts db). \<not> alert_of rule dev a)"
  by (simp add: existing_alert_def select_where_def filter_empty_conv)

text \<open>Resolving touches one alert, and leaves the table well formed.\<close>

lemma resolve_alert_set:
  assumes "alerts_ok db" and "a \<in> set (alerts db)"
  shows "set (alerts (resolve_alert (al_org a) (al_id a) now db))
    = insert (a\<lparr>al_status := RESOLVED, al_resolved_at := Some now\<rparr>) (set (alerts db) - {a})"
proof -
  have "al_org b = al_org a \<and> al_id b = al_id a \<longleftrightarrow> b = a" if "b \<in> set (alerts db)" for b
    using assms that by (auto simp: alerts_ok_def distinct_map inj_on_def alert_key_def)
  then show ?thesis
    using assms(2) by (force simp: resolve_alert_def set_update_where image_iff)
qed

lemma resolve_alert_ok:
  assumes ok: "alerts_ok db" and a: "a \<in> set (alerts db)"
  shows "alerts_ok (resolve_alert (al_org a) (al_id a) now db)"
proof -
  have "map alert_key (alerts (resolve_alert (al_org a) (al_id a) now db)) = map alert_key (alerts db)"
    by (simp add: resolve_alert_def) (rule map_update_where, simp add: alert_key_def)
  moreover have "alert_checks (a\<lparr>al_status := RESOLVED, al_resolved_at := Some now\<rparr>)"
    using ok a by (auto simp: alerts_ok_def alert_checks_def)
  ultimately show ?thesis
    using ok by (auto simp: alerts_ok_def resolve_alert_set [OF ok a] same_active_def active_alert_def)
qed

lemma resolve_frame [simp]:
  "samples (resolve_alert org i now db) = samples db" "rules (resolve_alert org i now db) = rules db"
  "window_samples rule dev now (resolve_alert org i now' db) = window_samples rule dev now db"
  "window_devices rule now (resolve_alert org i now' db) = window_devices rule now db"
  by (simp_all add: resolve_alert_def)

abbreviation alert_frame :: "sample_row list \<Rightarrow> rule_row list \<Rightarrow> 'j metric_db \<Rightarrow> bool" where
  "alert_frame S R db \<equiv> alerts_ok db \<and> samples db = S \<and> rules db = R"

text \<open>
  One round of the loop, seen by its own pair of a rule and a device, and by any alert of another pair.
\<close>

lemma evaluate_device_settles:
  assumes "alert_frame S R db"
  shows "wp (evaluate_device ids now rule dev)
    (\<lambda>_ db'. alert_frame S R db' \<and> settled now (rule, dev) db') (\<lambda>_ _. True) db"
proof (cases "existing_alert rule dev db")
  case None
  then have none: "\<forall>a\<in>set (alerts db). \<not> alert_of rule dev a" by (simp only: existing_alert_None)
  have new: "alert_of rule dev (new_alert rule dev i now)" for i
    by (simp add: alert_of_def new_alert_def active_alert_def)
  show ?thesis
  proof (cases "evaluate_rule rule (window_samples rule dev now db) now")
    case True
    then show ?thesis
      using assms new by (auto simp: evaluate_device_def None settled_def Let_def intro!: wp_insert_alert)
  next
    case False
    then show ?thesis using assms none by (simp add: evaluate_device_def None settled_def)
  qed
next
  case (Some a)
  note a = existing_alert_Some [OF Some]
  have org: "ar_org rule = al_org a" and act: "active_alert a" using a by (auto simp: alert_of_def)
  have only: "b = a" if "b \<in> set (alerts db)" "alert_of rule dev b" for b
    using a that assms by (auto simp: alerts_ok_def alert_of_def same_active_def)
  let ?resolve = "\<not> evaluate_rule rule (window_samples rule dev now db) now \<and> al_status a \<in> {OPEN, ACKNOWLEDGED}"
  show ?thesis
  proof (cases ?resolve)
    case True
    have "\<not> alert_of rule dev (a\<lparr>al_status := RESOLVED, al_resolved_at := Some now\<rparr>)"
      by (simp add: alert_of_def active_alert_def)
    then have "settled now (rule, dev) (resolve_alert (al_org a) (al_id a) now db)"
      using True only a assms by (auto simp: settled_def resolve_alert_set)
    then show ?thesis
      using True assms a resolve_alert_ok [of db a now]
      by (simp add: evaluate_device_def Some org)
  next
    case False
    have "settled now (rule, dev) db"
      using False only a act by (auto simp: settled_def active_alert_def)
    with False assms show ?thesis by (auto simp: evaluate_device_def Some)
  qed
qed

definition other_pair :: "rule_row \<Rightarrow> uuid \<Rightarrow> alert_row \<Rightarrow> bool" where
  "other_pair rule dev a \<longleftrightarrow> (al_org a, al_rule a, al_device a) \<noteq> (ar_org rule, Some (ar_id rule), dev)"

lemma evaluate_device_others:
  assumes "alert_frame S R db"
  shows "wp (evaluate_device ids now rule dev)
    (\<lambda>_ db'. {a \<in> set (alerts db'). other_pair rule dev a} = {a \<in> set (alerts db). other_pair rule dev a})
    (\<lambda>_ _. True) db"
proof (cases "existing_alert rule dev db")
  case None
  have new: "\<not> other_pair rule dev (new_alert rule dev i now)" for i
    by (simp add: other_pair_def new_alert_def)
  show ?thesis
  proof (cases "evaluate_rule rule (window_samples rule dev now db) now")
    case True
    then show ?thesis
      using assms new by (auto simp: evaluate_device_def None Let_def intro!: wp_insert_alert)
  qed (simp add: evaluate_device_def None)
next
  case (Some a)
  note a = existing_alert_Some [OF Some]
  have org: "ar_org rule = al_org a" and own: "\<not> other_pair rule dev a"
      "\<not> other_pair rule dev (a\<lparr>al_status := RESOLVED, al_resolved_at := Some now\<rparr>)"
    using a by (auto simp: alert_of_def other_pair_def)
  have "{x \<in> set (alerts (resolve_alert (al_org a) (al_id a) now db)). other_pair rule dev x}
      = {x \<in> set (alerts db). other_pair rule dev x}"
    using own a assms by (auto simp: resolve_alert_set)
  then show ?thesis by (auto simp: evaluate_device_def Some org)
qed

lemma settled_cong:
  assumes "samples db' = samples db" and "rule_key y \<noteq> rule_key rule \<or> d \<noteq> dev"
    and "{a \<in> set (alerts db'). other_pair rule dev a} = {a \<in> set (alerts db). other_pair rule dev a}"
    and "settled now (y, d) db"
  shows "settled now (y, d) db'"
proof -
  have "alert_of y d a \<Longrightarrow> other_pair rule dev a" for a
    using assms(2) by (auto simp: alert_of_def other_pair_def rule_key_def)
  then have "a \<in> set (alerts db') \<longleftrightarrow> a \<in> set (alerts db)" if "alert_of y d a" for a
    using assms(3) that by blast
  moreover have "window_samples y d now db' = window_samples y d now db"
    using assms(1) by (simp add: window_samples_def)
  ultimately show ?thesis using assms(4) by (auto simp: settled_def split: if_splits)
qed

lemma evaluate_device_keeps:
  assumes "alert_frame S R db" and "rule_key y \<noteq> rule_key rule \<or> d \<noteq> dev" and "settled now (y, d) db"
  shows "wp (evaluate_device ids now rule dev) (\<lambda>_ db'. settled now (y, d) db') (\<lambda>_ _. True) db"
  by (rule wp_mono [OF wp_conj [OF evaluate_device_settles [OF assms(1)] evaluate_device_others [OF assms(1)]]])
    (use settled_cong [OF _ assms(2) _ assms(3)] assms(1) in auto)

text \<open>One rule: all devices of its window; then all rules.\<close>

definition rule_settled :: "int \<Rightarrow> rule_row \<Rightarrow> 'j metric_db \<Rightarrow> bool" where
  "rule_settled now rule db \<longleftrightarrow> (\<forall>dev\<in>set (window_devices rule now db). settled now (rule, dev) db)"

lemma window_devices_cong: "samples db = samples db' \<Longrightarrow> window_devices rule now db = window_devices rule now db'"
  by (simp add: window_devices_def)

lemma evaluate_one_rule_settles:
  assumes "alert_frame S R db"
  shows "wp (evaluate_one_rule ids now rule)
    (\<lambda>_ db'. alert_frame S R db' \<and> rule_settled now rule db') (\<lambda>_ _. True) db"
proof -
  have "wp (mapE (evaluate_device ids now rule) (window_devices rule now db))
      (\<lambda>_ db'. alert_frame S R db' \<and> (\<forall>dev\<in>set (window_devices rule now db). settled now (rule, dev) db'))
      (\<lambda>_ _. True) db"
    by (rule wp_mapE) (use assms in \<open>auto simp: window_devices_def
      intro: evaluate_device_settles [simplified] evaluate_device_keeps\<close>)
  then show ?thesis
    unfolding evaluate_one_rule_def rule_settled_def
    by simp (erule wp_mono, use assms in \<open>auto simp: window_devices_def\<close>)
qed

lemma evaluate_one_rule_keeps:
  assumes "alert_frame S R db" and "rule_key y \<noteq> rule_key rule" and "rule_settled now y db"
  shows "wp (evaluate_one_rule ids now rule) (\<lambda>_ db'. rule_settled now y db') (\<lambda>_ _. True) db"
proof -
  let ?I = "\<lambda>db'. alert_frame S R db' \<and> (\<forall>d\<in>set (window_devices y now db). settled now (y, d) db')"
  have round: "wp (evaluate_device ids now rule dev) (\<lambda>_. ?I) (\<lambda>_ _. True) db'" if "?I db'" for dev db'
  proof -
    have "wp (evaluate_device ids now rule dev)
        (\<lambda>_ s. {a \<in> set (alerts s). other_pair rule dev a} = {a \<in> set (alerts db'). other_pair rule dev a}
           \<and> alert_frame S R s) (\<lambda>_ _. True) db'"
      by (rule wp_mono [OF wp_conj [OF evaluate_device_others evaluate_device_settles]]) (use that in auto)
    then show ?thesis
    proof (rule wp_mono)
      fix s
      assume s: "{a \<in> set (alerts s). other_pair rule dev a} = {a \<in> set (alerts db'). other_pair rule dev a}
        \<and> alert_frame S R s"
      then have "settled now (y, d) s" if "settled now (y, d) db'" for d
        using settled_cong [where y = y and rule = rule and d = d and dev = dev, OF _ disjI1 [OF assms(2)] _ that]
          \<open>?I db'\<close> by auto
      with s \<open>?I db'\<close> show "?I s" by blast
    qed
  qed
  have "?I db" using assms(1,3) by (simp add: rule_settled_def)
  then have "wp (mapE (evaluate_device ids now rule) (window_devices rule now db)) (\<lambda>_. ?I) (\<lambda>_ _. True) db"
    using round by (rule wp_mapE_keeps [rotated])
  then have "wp (mapE (evaluate_device ids now rule) (window_devices rule now db))
      (\<lambda>_. rule_settled now y) (\<lambda>_ _. True) db"
    by (rule wp_mono) (use assms(1) in \<open>auto simp: rule_settled_def window_devices_def\<close>)
  then show ?thesis by (simp add: evaluate_one_rule_def)
qed

definition rules_ok :: "'j metric_db \<Rightarrow> bool" where
  "rules_ok db \<longleftrightarrow> distinct (map rule_key (rules db))"

text \<open>Property C26. After an evaluation of an organisation's alerts that commits, every enabled rule is
  settled on every device that reported in its window: where the rule fires there is an active alert,
  where it does not there is none but a suppressed one; there is never more than one active alert
  of a rule and a device, and an alert has a resolution time exactly when it is resolved. An evaluation
  that fails changes nothing.\<close>

theorem evaluate_alerts_settles:
  assumes "alerts_ok db" and "rules_ok db"
  shows "case evaluate_alerts ids org now db of
      (Inl e, db') \<Rightarrow> db' = db
    | (Inr out, db') \<Rightarrow> alerts_ok db' \<and> rules db' = rules db \<and> samples db' = samples db
        \<and> (\<forall>rule\<in>set (rules db). ar_org rule = org \<and> ar_enabled rule \<longrightarrow>
             (\<forall>dev\<in>set (window_devices rule now db). settled now (rule, dev) db'))"
proof -
  let ?rs = "select_where (\<lambda>r. ar_org r = org \<and> ar_enabled r) (rules db)"
  let ?I = "\<lambda>db'. alert_frame (samples db) (rules db) db'"
  have keys: "distinct (map rule_key ?rs)"
    using assms(2) by (simp add: rules_ok_def select_where_def distinct_map_filter)
  have "wp (mapE (evaluate_one_rule ids now) ?rs)
      (\<lambda>_ db'. ?I db' \<and> (\<forall>rule\<in>set ?rs. rule_settled now rule db')) (\<lambda>_ _. True) db"
  proof (rule wp_mapE)
    fix x y db'
    assume "x \<in> set ?rs" "y \<in> set ?rs" "x \<noteq> y" "?I db'" "rule_settled now y db'"
    moreover from this have "rule_key y \<noteq> rule_key x"
      using keys by (auto simp: distinct_map inj_on_def)
    ultimately show "wp (evaluate_one_rule ids now x) (\<lambda>_. rule_settled now y) (\<lambda>_ _. True) db'"
      by (intro evaluate_one_rule_keeps)
  next
    fix x db'
    assume "x \<in> set ?rs" and I: "?I db'"
    show "wp (evaluate_one_rule ids now x) (\<lambda>_ s'. ?I s' \<and> rule_settled now x s') (\<lambda>_ _. True) db'"
      by (rule evaluate_one_rule_settles [OF I])
  next
    show "distinct ?rs" using keys by (simp add: distinct_map)
  qed (use assms(1) in simp)
  then have "wp (evaluate_alerts ids org now) (\<lambda>_ db'. ?I db' \<and> (\<forall>rule\<in>set ?rs. rule_settled now rule db'))
      (\<lambda>_ db'. db' = db) db"
    unfolding evaluate_alerts_def
    by (simp add: wp_ret_fun wp_bindE_fun)
  then show ?thesis
    by (auto simp: wp_def rule_settled_def window_devices_def split: prod.splits sum.splits)
qed

text \<open>Only devices that report are looked at: an alert whose device sent nothing in the window
  of its rule, or whose rule has been disabled or is another organisation's, is left exactly as it is by
  an evaluation; in particular the alerts of a device that has gone silent are never resolved.\<close>

theorem silent_device_alert_stays:
  assumes "alerts_ok db" and "a \<in> set (alerts db)"
    and silent: "\<forall>rule\<in>set (rules db). ar_org rule = org \<and> ar_enabled rule \<and> al_org a = org
      \<and> al_rule a = Some (ar_id rule) \<longrightarrow> al_device a \<notin> set (window_devices rule now db)"
  shows "a \<in> set (alerts (snd (evaluate_alerts ids org now db)))"
proof -
  let ?rs = "select_where (\<lambda>r. ar_org r = org \<and> ar_enabled r) (rules db)"
  let ?I = "\<lambda>s. alert_frame (samples db) (rules db) s \<and> a \<in> set (alerts s)"
  have device: "wp (evaluate_device ids now rule dev) (\<lambda>_. ?I) (\<lambda>_ _. True) s"
    if "?I s" "rule \<in> set ?rs" "dev \<in> set (window_devices rule now db)" for rule dev s
  proof -
    have "other_pair rule dev a" using silent that(2,3) by (auto simp: other_pair_def)
    then show ?thesis
      by (intro wp_mono [OF wp_conj [OF evaluate_device_others evaluate_device_settles]]) (use that(1) in auto)
  qed
  have "wp (evaluate_one_rule ids now rule) (\<lambda>_. ?I) (\<lambda>_ _. True) s" if "?I s" "rule \<in> set ?rs" for rule s
  proof -
    have "window_devices rule now s = window_devices rule now db" using that(1) by (simp add: window_devices_def)
    moreover have "wp (mapE (evaluate_device ids now rule) (window_devices rule now db)) (\<lambda>_. ?I) (\<lambda>_ _. True) s"
      using device that by (intro wp_mapE_keeps) blast+
    ultimately show ?thesis by (simp add: evaluate_one_rule_def)
  qed
  then have "wp (mapE (evaluate_one_rule ids now) ?rs) (\<lambda>_. ?I) (\<lambda>_ _. True) db"
    by (intro wp_mapE_keeps) (use assms(1,2) in auto)
  then have "wp (evaluate_alerts ids org now) (\<lambda>_. ?I) (\<lambda>_. ?I) db"
    unfolding evaluate_alerts_def using assms(1,2)
    by (simp add: wp_ret_fun wp_bindE_fun)
  then show ?thesis by (simp add: wp_snd)
qed

lemma length_digit_str: "n < 10 ^ k \<Longrightarrow> 0 < k \<Longrightarrow> length (digit_str n) \<le> k"
proof (induction k arbitrary: n)
  case (Suc k)
  show ?case
  proof (cases "n < 10")
    case True
    then show ?thesis by (subst digit_str.simps) simp
  next
    case False
    then have "0 < k" using Suc.prems by (cases k) auto
    moreover have "n div 10 < 10 ^ k" using Suc.prems(1) by (simp add: less_mult_imp_div_less mult.commute)
    ultimately show ?thesis using Suc.IH [of "n div 10"] False by (subst digit_str.simps) simp
  qed
qed simp

lemma length_decimal_str:
  assumes "\<bar>v\<bar> < 10 ^ 14"
  shows "length (decimal_str v) \<le> 16"
proof -
  define n where "n = nat \<bar>v\<bar>"
  have n: "n < 10 ^ 14" using assms by (simp add: n_def nat_less_iff)
  have "length (digit_str (n div 10000)) \<le> 10"
    by (rule length_digit_str) (use n in \<open>simp_all add: div_less_iff_less_mult\<close>)
  moreover have "length (digit_str (n mod 10000)) \<le> 4"
    by (rule length_digit_str) simp_all
  moreover have "length (decimal_str v) \<le> 1 + length (digit_str (n div 10000)) + 1 + max 4 (length (digit_str (n mod 10000)))"
    unfolding decimal_str_def Let_def n_def by (simp add: max_def)
  ultimately show ?thesis by simp
qed

lemma btrim_first: "c \<noteq> CHR '' '' \<Longrightarrow> btrim (c # cs) \<noteq> []"
  by (simp add: btrim_def)

lemma length_py_strip: "length (py_strip s) \<le> length s"
  unfolding py_strip_def length_rev by (metis length_dropWhile_le length_rev order.trans)

text \<open>The alert of a rule that passed validation always fits its table: the message composed of
  the name, the metric, the operator and the threshold has at most 500 characters and is not blank, and
  the new row satisfies every check constraint.\<close>

theorem rule_alert_fits:
  assumes "validate_rule ri = Some ri'"
  shows "alert_checks (new_alert (rule_of_input org i ri' created) dev alert_id now)"
proof -
  have b: "length (ri_name ri') \<le> 150" "length (ri_metric ri') \<le> 100" "\<bar>ri_threshold ri'\<bar> < 10 ^ 14"
    using assms
    by (auto simp: validate_rule_def metric_name_shape_def split: if_splits list.splits
        intro: order.trans [OF length_py_strip])
  let ?r = "rule_of_input org i ri' created"
  have "length (operator_name (ri_operator ri')) \<le> 3" by (cases "ri_operator ri'") auto
  then have "length (alert_message ?r) \<le> 500"
    using b length_decimal_str [of "ri_threshold ri'"] by (simp add: alert_message_def rule_of_input_def)
  moreover have "btrim (alert_message ?r) \<noteq> []"
    by (simp add: alert_message_def btrim_first)
  ultimately show ?thesis by (simp add: alert_checks_def new_alert_def Suc_le_eq)
qed

text \<open>Telemetry is what the caller may see: every row is a sample of the organisation's device
  and of the metric asked for, newest first, at most \<open>limit\<close> of them; a technician restricted to assigned
  devices sees nothing of a device not assigned to him.\<close>

theorem telemetry_access:
  "let rows = list_telemetry org dev actor assigned_only metric limit db in
     (\<forall>x\<in>set rows. x \<in> set (samples db) \<and> ms_org x = org \<and> ms_device x = dev
        \<and> metric \<in> {None, Some (ms_name x)})
     \<and> sorted_wrt (\<lambda>x y. ms_recorded_at y \<le> ms_recorded_at x) rows \<and> length rows \<le> limit
     \<and> (assigned_only \<and> \<not> (\<exists>g\<in>set (assignments db). as_org g = org \<and> as_device g = dev \<and> as_user g = actor)
        \<longrightarrow> rows = [])"
proof -
  have "sorted_wrt (\<lambda>x y. ms_recorded_at y \<le> ms_recorded_at x) (order_by (\<lambda>x. - ms_recorded_at x) t)" for t
    using sorted_sort_key [of "\<lambda>x. - ms_recorded_at x" t] by (simp add: order_by_def sorted_wrt_map)
  then have "sorted_wrt (\<lambda>x y. ms_recorded_at y \<le> ms_recorded_at x)
      (take limit (order_by (\<lambda>x. - ms_recorded_at x) t))" for t
    by (rule sorted_wrt_take)
  then show ?thesis
    by (cases metric) (auto simp: list_telemetry_def Let_def select_where_def filter_empty_conv
        dest!: in_set_takeD)
qed

section \<open>Witnesses\<close>

definition cpu_rule :: rule_row where
  "cpu_rule = \<lparr>ar_org = 1, ar_id = 60, ar_name = ''CPU'', ar_metric = ''cpu'', ar_operator = GT,
     ar_threshold = 900000, ar_duration = 60, ar_severity = WARNING, ar_enabled = True,
     ar_created_at = 0\<rparr>"

definition cpu_point :: "uuid \<Rightarrow> uuid \<Rightarrow> int \<Rightarrow> int \<Rightarrow> sample_row" where
  "cpu_point i dev v t = \<lparr>ms_org = 1, ms_id = i, ms_device = dev, ms_name = ''cpu'', ms_value = v,
     ms_labels = [], ms_recorded_at = t\<rparr>"

text \<open>
  Device 2 has been above the threshold for a minute and has no alert yet; device 3 has an open alert
  and has not reported.
\<close>

definition monitored :: "sample_input metric_db" where
  "monitored = (cl_db empty_server)\<lparr>rules := [cpu_rule],
     samples := [cpu_point 71 2 950000 1000000, cpu_point 72 2 960000 61000000],
     alerts := [new_alert cpu_rule 3 80 500000]\<rparr>"

theorem evaluate_rule_meaning_witness:
  "evaluate_rule cpu_rule [(1000000, 950000), (61000000, 960000)] 61000000
    \<and> \<not> evaluate_rule cpu_rule [(1000001, 950000), (61000000, 960000)] 61000000"
  using evaluate_rule_meaning [of "[(1000000, 950000), (61000000, 960000)]" cpu_rule 61000000]
    evaluate_rule_meaning [of "[(1000001, 950000), (61000000, 960000)]" cpu_rule 61000000]
  by (simp add: cpu_rule_def seconds_of_def)

lemma cpu_rule_input: "validate_rule \<lparr>ri_name = ''CPU'', ri_metric = ''cpu'', ri_operator = GT,
    ri_threshold = 900000, ri_duration = 60, ri_severity = WARNING\<rparr>
  = Some \<lparr>ri_name = ''CPU'', ri_metric = ''cpu'', ri_operator = GT, ri_threshold = 900000, ri_duration = 60,
    ri_severity = WARNING\<rparr>"
  by (simp add: validate_rule_def metric_name_shape_def name_char_def is_lower_def py_strip_def py_space_def)

theorem rule_alert_fits_witness: "alert_checks (new_alert cpu_rule 3 80 500000)"
  using rule_alert_fits [OF cpu_rule_input, of 1 60 0 3 80 500000]
  by (simp add: rule_of_input_def cpu_rule_def)

lemma monitored_ok: "alerts_ok monitored" "rules_ok monitored"
  by (simp_all add: alerts_ok_def rules_ok_def monitored_def alert_checks_def new_alert_def btrim_def
      alert_message_def decimal_str_def cpu_rule_def digit_str.simps)

lemma monitored_window: "window_devices cpu_rule 61000000 monitored = [2]"
  by (simp add: window_devices_def select_where_def monitored_def in_window_def cpu_rule_def cpu_point_def
      window_start_def seconds_of_def)

theorem evaluate_alerts_settles_witness:
  "case evaluate_alerts (\<lambda>_ _. 81) 1 61000000 monitored of
      (Inl e, db') \<Rightarrow> db' = monitored
    | (Inr out, db') \<Rightarrow> settled 61000000 (cpu_rule, 2) db'"
proof -
  have "rules monitored = [cpu_rule]" by (simp add: monitored_def)
  moreover have "ar_org cpu_rule = 1 \<and> ar_enabled cpu_rule" by (simp add: cpu_rule_def)
  ultimately show ?thesis
    using evaluate_alerts_settles [OF monitored_ok, where ids = "\<lambda>_ _. 81" and org = 1 and now = 61000000]
      monitored_window
    by (auto split: prod.splits sum.splits)
qed

theorem silent_device_alert_stays_witness:
  "new_alert cpu_rule 3 80 500000 \<in> set (alerts (snd (evaluate_alerts (\<lambda>_ _. 81) 1 61000000 monitored)))"
proof (rule silent_device_alert_stays [OF monitored_ok(1)])
  show "new_alert cpu_rule 3 80 500000 \<in> set (alerts monitored)" by (simp add: monitored_def)
  have "rules monitored = [cpu_rule]" by (simp add: monitored_def)
  then show "\<forall>rule\<in>set (rules monitored). ar_org rule = 1 \<and> ar_enabled rule
      \<and> al_org (new_alert cpu_rule 3 80 500000) = 1
      \<and> al_rule (new_alert cpu_rule 3 80 500000) = Some (ar_id rule)
      \<longrightarrow> al_device (new_alert cpu_rule 3 80 500000) \<notin> set (window_devices rule 61000000 monitored)"
    by (simp add: monitored_window) (simp add: new_alert_def)
qed

theorem telemetry_access_witness:
  "list_telemetry 1 2 9 True None 10 monitored = []"
  using telemetry_access [of 1 2 9 True None 10 monitored]
  by (simp add: Let_def monitored_def empty_server_def)

end
