(* ===== verification/Metric_Rollup.thy ===== *)
theory Metric_Rollup
  imports Metric_Alerts
begin

text \<open>
  Hourly and daily rollups and the retention of raw samples and aggregates:
  \<open>backend/app/metrics/maintenance.py\<close>, the aggregate table of migration 0017 and the function
  \<open>run_metric_maintenance\<close> of migration 0023.

  Instants are microseconds since the epoch, so days and buckets are multiples of a length. The
  table of samples is partitioned by day; a sample lies in the partition of its day where there is
  one, else in the default partition. The clock and the locks that elect one worker are arguments.
\<close>

section \<open>Tables\<close>

record agg_row =
  ag_org :: uuid
  ag_device :: uuid
  ag_name :: string
  ag_start :: int
  ag_interval :: int
  ag_count :: nat
  ag_min :: int
  ag_max :: int
  ag_avg :: int

record purge_row =
  pg_org :: uuid
  pg_raw :: nat
  pg_hourly :: nat
  pg_daily :: nat
  pg_partitions :: nat

record 'j history = "'j metric_db" +
  aggregates :: "agg_row list"
  partitions :: "int list"
  organizations :: "(uuid \<times> bool) list"
  purges :: "purge_row list"

datatype maintenance_error = UnsupportedInterval | StorageFailed

type_synonym ('j, 'a) heff = "('j history, maintenance_error, 'a) eff"

definition HOURLY :: int where "HOURLY = 3600"
definition DAILY :: int where "DAILY = 86400"

definition day_length :: int where
  "day_length = seconds_of DAILY"

section \<open>Rollups\<close>

definition bucket_start :: "int \<Rightarrow> int \<Rightarrow> int" where
  "bucket_start interval t = t div seconds_of interval * seconds_of interval"

type_synonym agg_key = "uuid \<times> uuid \<times> string \<times> int \<times> int"

definition agg_key :: "agg_row \<Rightarrow> agg_key" where
  "agg_key a = (ag_org a, ag_device a, ag_name a, ag_interval a, ag_start a)"

definition group_key :: "int \<Rightarrow> sample_row \<Rightarrow> agg_key" where
  "group_key interval x =
     (ms_org x, ms_device x, ms_name x, interval, bucket_start interval (ms_recorded_at x))"

text \<open>\<open>avg\<close> rounded to four decimals, halves away from zero, as a \<open>Numeric(14, 4)\<close> column stores it.\<close>

definition rounded_mean :: "int list \<Rightarrow> int" where
  "rounded_mean vs = (let n = int (length vs); s = sum_list vs in
     if s \<ge> 0 then (2 * s + n) div (2 * n) else - ((2 * (- s) + n) div (2 * n)))"

definition aggregate :: "agg_key \<Rightarrow> sample_row list \<Rightarrow> agg_row" where
  "aggregate k rows = (case k of (org, dev, name, interval, start) \<Rightarrow>
     let vs = map ms_value rows in
     \<lparr>ag_org = org, ag_device = dev, ag_name = name, ag_start = start, ag_interval = interval,
      ag_count = length vs, ag_min = Min (set vs), ag_max = Max (set vs), ag_avg = rounded_mean vs\<rparr>)"

definition rollup_source :: "uuid \<Rightarrow> int \<Rightarrow> 'j history \<Rightarrow> sample_row list" where
  "rollup_source org cutoff db =
     select_where (\<lambda>x. ms_recorded_at x \<le> cutoff \<and> ms_org x = org) (samples db)"

definition rollup_rows :: "uuid \<Rightarrow> int \<Rightarrow> int \<Rightarrow> 'j history \<Rightarrow> agg_row list" where
  "rollup_rows org interval cutoff db = (let rows = rollup_source org cutoff db in
     map (\<lambda>k. aggregate k (select_where (\<lambda>x. group_key interval x = k) rows))
       (remdups (map (group_key interval) rows)))"

text \<open>\<open>ON CONFLICT ... DO UPDATE\<close>.\<close>

definition upsert :: "agg_row list \<Rightarrow> agg_row \<Rightarrow> agg_row list" where
  "upsert t a = (if agg_key a \<in> agg_key ` set t then update_where (\<lambda>b. agg_key b = agg_key a) (\<lambda>_. a) t
     else t @ [a])"

definition run_downsampling ::
  "uuid \<Rightarrow> int \<Rightarrow> int \<Rightarrow> int \<Rightarrow> ('j, nat) heff" where
  "run_downsampling org interval older_than_hours now =
     (if interval \<notin> {HOURLY, DAILY} then raise UnsupportedInterval
      else
        let cutoff = now - seconds_of (older_than_hours * 3600) in
        bindE (reads (rollup_rows org interval cutoff)) (\<lambda>rows.
        bindE (writes (\<lambda>db. db\<lparr>aggregates := foldl upsert (aggregates db) rows\<rparr>)) (\<lambda>_.
        ret (length rows))))"

section \<open>Retention\<close>

definition day_of :: "int \<Rightarrow> int" where
  "day_of t = t div day_length"

definition in_partition :: "'j history \<Rightarrow> int \<Rightarrow> sample_row \<Rightarrow> bool" where
  "in_partition db d x \<longleftrightarrow> d \<in> set (partitions db) \<and> day_of (ms_recorded_at x) = d"

text \<open>
  The tables are under row-level security, forced for their owner too. \<open>run_metric_maintenance\<close>
  is a \<open>SECURITY DEFINER\<close> function that the role \<open>nexus_admin\<close> creates, so its statements run as
  that role, which owns the tables and cannot bypass their policies. None of the policies of
  \<open>organizations\<close>, \<open>metric_aggregates\<close> and \<open>audit_logs\<close> is for that role; those for
  \<open>nexus_app_user\<close> compare the organisation of the row with \<open>app.current_organization_id\<close>.
  \<open>metric_samples\<close> has no policy for deletes at all. The partitions themselves have no row-level
  security: a policy of the parent binds only what goes through the parent.
\<close>

datatype table_role = App_User | Table_Owner

definition tenant_policy :: "table_role \<Rightarrow> uuid option \<Rightarrow> uuid \<Rightarrow> bool" where
  "tenant_policy role current org = (case role of App_User \<Rightarrow> current = Some org | Table_Owner \<Rightarrow> False)"

definition sample_delete_policy :: "table_role \<Rightarrow> uuid option \<Rightarrow> sample_row \<Rightarrow> bool" where
  "sample_delete_policy role current x = False"

definition listed_organizations :: "table_role \<Rightarrow> uuid option \<Rightarrow> 'j history \<Rightarrow> uuid list" where
  "listed_organizations role current db =
     order_by uint (filter (tenant_policy role current) (map fst (organizations db)))"

text \<open>
  Creating the partition of a day: the rows of that day of each organisation the loop sees move from
  the default partition to the new table, which \<open>ATTACH PARTITION\<close> then makes a partition. It raises
  when the default partition still holds a row of that day. Which rows the table of samples holds does
  not change.
\<close>

definition create_partition :: "table_role \<Rightarrow> int \<Rightarrow> ('j, unit) heff" where
  "create_partition role d = bindE (reads partitions) (\<lambda>ds.
     if d \<in> set ds then ret ()
     else bindE (reads (listed_organizations role None)) (\<lambda>orgs. bindE (reads samples) (\<lambda>rows.
       if \<exists>x\<in>set rows. day_of (ms_recorded_at x) = d \<and> ms_org x \<notin> set orgs then raise StorageFailed
       else writes (\<lambda>db. db\<lparr>partitions := partitions db @ [d]\<rparr>))))"

text \<open>\<open>DROP TABLE\<close> of a partition, which the owner of the table may do.\<close>

definition drop_partition :: "int \<Rightarrow> ('j, unit) heff" where
  "drop_partition d = writes (\<lambda>db. db\<lparr>samples := delete_where (in_partition db d) (samples db),
     partitions := filter (\<lambda>e. e \<noteq> d) (partitions db)\<rparr>)"

definition old_sample :: "int \<Rightarrow> uuid \<Rightarrow> sample_row \<Rightarrow> bool" where
  "old_sample today org x \<longleftrightarrow> ms_org x = org \<and> ms_recorded_at x < (today - 14) * day_length"

definition old_aggregate :: "int \<Rightarrow> uuid \<Rightarrow> int \<Rightarrow> int \<Rightarrow> agg_row \<Rightarrow> bool" where
  "old_aggregate today org interval days a \<longleftrightarrow> ag_org a = org \<and> ag_interval a = interval
     \<and> ag_start a < (today - days) * day_length"

text \<open>
  The loop body for one organisation, which is then the current one: three deletes, each reaching the
  rows its policy lets the role delete, and the audit row, refused where no policy admits it.
\<close>

definition delete_samples :: "table_role \<Rightarrow> uuid \<Rightarrow> (sample_row \<Rightarrow> bool) \<Rightarrow> ('j, nat) heff" where
  "delete_samples role org P = (let Q = (\<lambda>x. sample_delete_policy role (Some org) x \<and> P x) in
     bindE (reads (\<lambda>db. rowcount Q (samples db))) (\<lambda>n.
     bindE (writes (\<lambda>db. db\<lparr>samples := delete_where Q (samples db)\<rparr>)) (\<lambda>_. ret n)))"

definition delete_aggregates :: "table_role \<Rightarrow> uuid \<Rightarrow> (agg_row \<Rightarrow> bool) \<Rightarrow> ('j, nat) heff" where
  "delete_aggregates role org P = (let Q = (\<lambda>a. tenant_policy role (Some org) (ag_org a) \<and> P a) in
     bindE (reads (\<lambda>db. rowcount Q (aggregates db))) (\<lambda>n.
     bindE (writes (\<lambda>db. db\<lparr>aggregates := delete_where Q (aggregates db)\<rparr>)) (\<lambda>_. ret n)))"

definition purge_tenant :: "table_role \<Rightarrow> int \<Rightarrow> nat \<Rightarrow> uuid \<Rightarrow> ('j, unit) heff" where
  "purge_tenant role today dropped org =
     bindE (delete_samples role org (old_sample today org)) (\<lambda>raw.
     bindE (delete_aggregates role org (old_aggregate today org HOURLY 90)) (\<lambda>hourly.
     bindE (delete_aggregates role org (old_aggregate today org DAILY 365)) (\<lambda>daily.
       if \<not> tenant_policy role (Some org) org then raise StorageFailed
       else writes (\<lambda>db. db\<lparr>purges := purges db @ [\<lparr>pg_org = org, pg_raw = raw, pg_hourly = hourly,
         pg_daily = daily, pg_partitions = dropped\<rparr>]\<rparr>))))"

definition days_around :: "int \<Rightarrow> int list" where
  "days_around today = map (\<lambda>i. today + i) [-14..14]"

definition run_metric_maintenance :: "bool \<Rightarrow> int \<Rightarrow> ('j, nat \<times> nat \<times> nat \<times> nat) heff" where
  "run_metric_maintenance locked now = txn (if locked then ret (0, 0, 0, 0)
     else let today = day_of now in
       bindE (eachE (create_partition Table_Owner) (days_around today)) (\<lambda>_.
       bindE (reads (\<lambda>db. filter (\<lambda>d. d < today - 14) (partitions db))) (\<lambda>expired.
       bindE (eachE drop_partition expired) (\<lambda>_.
       bindE (reads (\<lambda>db. (listed_organizations Table_Owner None db, length (purges db)))) (\<lambda>(orgs, n).
       bindE (eachE (purge_tenant Table_Owner today (length expired)) orgs) (\<lambda>_.
       bindE (reads (\<lambda>db. drop n (purges db))) (\<lambda>report.
         ret (sum_list (map pg_raw report), sum_list (map pg_hourly report),
              sum_list (map pg_daily report), length expired))))))))"

section \<open>The daily cycle\<close>

definition list_active_organization_ids :: "'j history \<Rightarrow> uuid list" where
  "list_active_organization_ids db = map fst (filter snd (organizations db))"

text \<open>One cycle; the clock is read anew for every step (\<open>clock k\<close>).\<close>

definition downsample_tenant :: "int \<Rightarrow> uuid \<Rightarrow> ('j, unit) heff" where
  "downsample_tenant now org =
     bindE (run_downsampling org HOURLY 1 now) (\<lambda>_.
     bindE (run_downsampling org DAILY 24 now) (\<lambda>_. ret ()))"

definition maintenance_cycle ::
  "bool \<Rightarrow> bool \<Rightarrow> (uuid \<Rightarrow> int) \<Rightarrow> int \<Rightarrow> ('j, (nat \<times> nat \<times> nat \<times> nat) option) heff" where
  "maintenance_cycle acquired locked clock now = (if \<not> acquired then ret None
     else bindE (reads list_active_organization_ids) (\<lambda>orgs.
       bindE (eachE (\<lambda>org. downsample_tenant (clock org) org) orgs) (\<lambda>_.
       bindE (run_metric_maintenance locked now) (\<lambda>r. ret (Some r)))))"

section \<open>A rollup computes what it says\<close>

definition agg_at :: "agg_key \<Rightarrow> agg_row list \<Rightarrow> agg_row option" where
  "agg_at k t = first_row (select_where (\<lambda>a. agg_key a = k) t)"

lemma agg_at_simps [simp]:
  "agg_at k [] = None" "agg_at k (a # t) = (if agg_key a = k then Some a else agg_at k t)"
  by (simp_all add: agg_at_def select_where_def first_row_def)

lemma agg_at_None: "agg_at k t = None \<longleftrightarrow> k \<notin> agg_key ` set t"
  by (induction t) auto

lemma agg_at_filter: "filter (\<lambda>b. agg_key b = k) t = filter (\<lambda>b. agg_key b = k) t' \<Longrightarrow> agg_at k t = agg_at k t'"
  by (simp add: agg_at_def select_where_def)

lemma agg_at_append: "agg_at k (t @ t') = (case agg_at k t of None \<Rightarrow> agg_at k t' | Some a \<Rightarrow> Some a)"
  by (induction t) auto

lemma agg_at_update_const:
  "k = agg_key a \<Longrightarrow> agg_at k (update_where (\<lambda>b. agg_key b = k) (\<lambda>_. a) t)
    = (if k \<in> agg_key ` set t then Some a else None)"
  by (induction t) (auto simp: update_where_def)

lemma agg_at_upsert: "agg_at k (upsert t a) = (if k = agg_key a then Some a else agg_at k t)"
proof (cases "k = agg_key a")
  case True
  then show ?thesis
    by (simp add: upsert_def agg_at_update_const agg_at_append agg_at_None [THEN iffD2])
next
  case False
  have "agg_at k (update_where (\<lambda>b. agg_key b = agg_key a) (\<lambda>_. a) t) = agg_at k t"
    by (rule agg_at_filter, rule filter_update_where_out) (use False in auto)
  then show ?thesis using False by (simp add: upsert_def agg_at_append split: option.split)
qed

lemma agg_at_upserts:
  "distinct (map agg_key xs) \<Longrightarrow> agg_at k (foldl upsert t xs)
    = (case agg_at k xs of Some a \<Rightarrow> Some a | None \<Rightarrow> agg_at k t)"
proof (induction xs arbitrary: t)
  case Nil
  show ?case by simp
next
  case (Cons x xs)
  have "agg_at k xs = None" if "k = agg_key x"
    using Cons.prems that by (simp add: agg_at_None)
  then show ?case
    using Cons by (auto simp: agg_at_upsert split: option.splits)
qed

lemma upsert_keys:
  "distinct (map agg_key t) \<Longrightarrow> distinct (map agg_key (upsert t a))"
  using map_update_where [of "\<lambda>b. agg_key b = agg_key a" agg_key "\<lambda>_. a" t] by (simp add: upsert_def)

lemma upserts_keys: "distinct (map agg_key t) \<Longrightarrow> distinct (map agg_key (foldl upsert t xs))"
  by (induction xs arbitrary: t) (auto intro: upsert_keys)

lemma agg_key_aggregate [simp]: "agg_key (aggregate k rows) = k"
  by (simp add: aggregate_def agg_key_def Let_def split: prod.splits)

lemma aggregate_fields [simp]:
  "ag_count (aggregate k rows) = length rows" "ag_min (aggregate k rows) = Min (ms_value ` set rows)"
  "ag_max (aggregate k rows) = Max (ms_value ` set rows)"
  "ag_avg (aggregate k rows) = rounded_mean (map ms_value rows)"
  by (simp_all add: aggregate_def Let_def split: prod.splits)

lemma rollup_rows_keys: "map agg_key (rollup_rows org interval cutoff db)
    = remdups (map (group_key interval) (rollup_source org cutoff db))"
  by (simp add: rollup_rows_def Let_def comp_def)

lemma agg_at_rollup_rows:
  "agg_at k (rollup_rows org interval cutoff db) =
    (let group = select_where (\<lambda>x. group_key interval x = k) (rollup_source org cutoff db)
     in if group = [] then None else Some (aggregate k group))"
proof -
  let ?g = "\<lambda>k. select_where (\<lambda>x. group_key interval x = k) (rollup_source org cutoff db)"
  have "filter (\<lambda>a. agg_key a = k) (map (\<lambda>k. aggregate k (?g k)) ks)
      = map (\<lambda>k. aggregate k (?g k)) (filter (\<lambda>k'. k' = k) ks)" for ks
    by (simp add: filter_map comp_def)
  moreover have "filter (\<lambda>k'. k' = k) (remdups ks) = (if k \<in> set ks then [k] else [])" for ks
    by (induction ks) auto
  ultimately show ?thesis
    by (auto simp: agg_at_def rollup_rows_def Let_def select_where_def filter_empty_conv first_row_def
        rollup_source_def)
qed

text \<open>The mean lies between the least and the greatest value.\<close>

lemma sum_list_bounds:
  "\<forall>v\<in>set vs. lo \<le> v \<and> v \<le> hi \<Longrightarrow> int (length vs) * lo \<le> sum_list vs \<and> sum_list vs \<le> int (length vs) * hi"
  by (induction vs) (auto simp: algebra_simps)

lemma round_between:
  assumes "0 < n" and "n * lo \<le> s" and "s \<le> n * hi"
  shows "lo \<le> (2 * s + n) div (2 * n) \<and> (2 * s + n) div (2 * n) \<le> (hi :: int)"
proof -
  define q r where "q = (2 * s + n) div (2 * n)" and "r = (2 * s + n) mod (2 * n)"
  have split: "2 * s + n = q * (2 * n) + r" and r: "0 \<le> r" "r < 2 * n"
    using assms(1) unfolding q_def r_def by (simp_all only: div_mult_mod_eq) simp_all
  have "lo * (2 * n) < (q + 1) * (2 * n)" using assms split r by (simp add: algebra_simps)
  then have "lo < q + 1" using assms(1) by (simp add: mult_less_cancel_right)
  moreover have "q * (2 * n) < (hi + 1) * (2 * n)" using assms split r by (simp add: algebra_simps)
  then have "q < hi + 1" using assms(1) by (simp add: mult_less_cancel_right)
  ultimately show ?thesis by (simp add: q_def)
qed

lemma rounded_mean_between:
  assumes "vs \<noteq> []"
  shows "Min (set vs) \<le> rounded_mean vs \<and> rounded_mean vs \<le> Max (set vs)"
proof -
  have n: "0 < int (length vs)" using assms by simp
  have b: "int (length vs) * Min (set vs) \<le> sum_list vs \<and> sum_list vs \<le> int (length vs) * Max (set vs)"
    by (rule sum_list_bounds) simp
  show ?thesis
  proof (cases "0 \<le> sum_list vs")
    case True
    then show ?thesis using round_between [OF n, of "Min (set vs)" "sum_list vs" "Max (set vs)"] b
      by (simp add: rounded_mean_def Let_def)
  next
    case False
    have "int (length vs) * - Max (set vs) \<le> - sum_list vs" "- sum_list vs \<le> int (length vs) * - Min (set vs)"
      using b by simp_all
    from round_between [OF n this] False show ?thesis by (simp add: rounded_mean_def Let_def)
  qed
qed

text \<open>Property C28. A rollup is exact: for every device, metric and interval that has raw samples up to the
  cutoff, the aggregate row afterwards is the number, least, greatest and rounded mean value of exactly
  those samples, with the mean between the extremes; every other aggregate row is untouched, there
  is one row per key, and the raw samples stay. It replaces whatever the row held before.\<close>

theorem rollup_exact:
  assumes "distinct (map agg_key (aggregates db))" and "interval \<in> {HOURLY, DAILY}"
  shows "\<exists>n db'. run_downsampling org interval hours now db = (Inr n, db')
    \<and> samples db' = samples db \<and> distinct (map agg_key (aggregates db'))
    \<and> (\<forall>k. agg_at k (aggregates db') =
        (let group = select_where (\<lambda>x. group_key interval x = k)
               (rollup_source org (now - seconds_of (hours * 3600)) db)
         in if group = [] then agg_at k (aggregates db) else Some (aggregate k group)))
    \<and> (\<forall>a\<in>set (rollup_rows org interval (now - seconds_of (hours * 3600)) db).
        0 < ag_count a \<and> ag_min a \<le> ag_avg a \<and> ag_avg a \<le> ag_max a)"
proof -
  let ?rows = "rollup_rows org interval (now - seconds_of (hours * 3600)) db"
  have run: "run_downsampling org interval hours now db
      = (Inr (length ?rows), db\<lparr>aggregates := foldl upsert (aggregates db) ?rows\<rparr>)"
    using assms(2) by (auto simp: run_downsampling_def eff_defs Let_def)
  have "distinct (map agg_key ?rows)" by (simp only: rollup_rows_keys distinct_remdups)
  note at = agg_at_upserts [OF this, of _ "aggregates db"]
  have "0 < ag_count a \<and> ag_min a \<le> ag_avg a \<and> ag_avg a \<le> ag_max a" if mem: "a \<in> set ?rows" for a
  proof -
    let ?g = "\<lambda>k. select_where (\<lambda>x. group_key interval x = k)
        (rollup_source org (now - seconds_of (hours * 3600)) db)"
    obtain k where a: "a = aggregate k (?g k)" and k: "k \<in> set (remdups (map (group_key interval)
        (rollup_source org (now - seconds_of (hours * 3600)) db)))"
      using mem unfolding rollup_rows_def Let_def set_map by (rule imageE)
    from k have "?g k \<noteq> []" by (auto simp: select_where_def filter_empty_conv)
    then show ?thesis
      using rounded_mean_between [of "map ms_value (?g k)"] by (simp add: a)
  qed
  then show ?thesis
    using assms(1) by (simp add: run at agg_at_rollup_rows Let_def upserts_keys)
qed

section \<open>Retention\<close>

lemma listed_owner [simp]: "listed_organizations Table_Owner current db = []"
  by (simp add: listed_organizations_def tenant_policy_def order_by_def)

text \<open>A day that has no partition cannot get one while a sample of that day is stored.\<close>

definition blocked :: "'j history \<Rightarrow> int \<Rightarrow> bool" where
  "blocked db d \<longleftrightarrow> d \<notin> set (partitions db) \<and> (\<exists>x\<in>set (samples db). day_of (ms_recorded_at x) = d)"

lemma create_partition_owner:
  "create_partition Table_Owner d db =
    (if blocked db d then (Inl StorageFailed, db)
     else (Inr (), db\<lparr>partitions := partitions db @ (if d \<in> set (partitions db) then [] else [d])\<rparr>))"
  by (auto simp: create_partition_def eff_defs blocked_def)

lemma create_partitions_owner:
  "distinct ds \<Longrightarrow> \<not> (\<exists>d\<in>set ds. blocked db d) \<Longrightarrow> eachE (create_partition Table_Owner) ds db
    = (Inr (), db\<lparr>partitions := partitions db @ filter (\<lambda>d. d \<notin> set (partitions db)) ds\<rparr>)"
proof (induction ds arbitrary: db)
  case (Cons d ds)
  let ?db = "db\<lparr>partitions := partitions db @ (if d \<in> set (partitions db) then [] else [d])\<rparr>"
  have "filter (\<lambda>e. e \<notin> set (partitions ?db)) ds = filter (\<lambda>e. e \<notin> set (partitions db)) ds"
    using Cons.prems(1) by (intro filter_cong) auto
  moreover have "\<not> (\<exists>e\<in>set ds. blocked ?db e)" using Cons.prems(2) by (auto simp: blocked_def)
  ultimately show ?case
    using Cons.prems Cons.IH [of ?db] by (simp add: bindE_def create_partition_owner)
qed (simp add: ret_def)

lemma create_partitions_blocked:
  "distinct ds \<Longrightarrow> \<exists>d\<in>set ds. blocked db d
    \<Longrightarrow> \<exists>db'. eachE (create_partition Table_Owner) ds db = (Inl StorageFailed, db')"
proof (induction ds arbitrary: db)
  case (Cons d ds)
  show ?case
  proof (cases "blocked db d")
    case True
    then show ?thesis by (simp add: bindE_def create_partition_owner)
  next
    case False
    let ?db = "db\<lparr>partitions := partitions db @ (if d \<in> set (partitions db) then [] else [d])\<rparr>"
    have "\<exists>e\<in>set ds. blocked ?db e" using Cons.prems False by (auto simp: blocked_def)
    then show ?thesis
      using Cons.prems(1) Cons.IH [of ?db] False by (simp add: bindE_def create_partition_owner)
  qed
qed simp

lemma drop_partitions:
  "eachE drop_partition ds db = (Inr (), db\<lparr>
     samples := filter (\<lambda>x. \<not> (day_of (ms_recorded_at x) \<in> set ds \<inter> set (partitions db))) (samples db),
     partitions := filter (\<lambda>d. d \<notin> set ds) (partitions db)\<rparr>)"
proof (induction ds arbitrary: db)
  case (Cons d ds)
  let ?db = "db\<lparr>samples := delete_where (in_partition db d) (samples db),
     partitions := filter (\<lambda>e. e \<noteq> d) (partitions db)\<rparr>"
  have "eachE drop_partition (d # ds) db = eachE drop_partition ds ?db"
    by (simp add: bindE_def drop_partition_def writes_def)
  moreover have rows: "filter (\<lambda>x. \<not> (day_of (ms_recorded_at x) \<in> set ds \<inter> set (partitions ?db))) (samples ?db)
    = filter (\<lambda>x. \<not> (day_of (ms_recorded_at x) \<in> set (d # ds) \<inter> set (partitions db))) (samples db)"
    by (simp add: delete_where_def in_partition_def) (intro filter_cong, auto)
  moreover have parts: "filter (\<lambda>e. e \<notin> set ds) (partitions ?db) = filter (\<lambda>e. e \<notin> set (d # ds)) (partitions db)"
    by (simp add: conj_commute)
  ultimately have "eachE drop_partition (d # ds) db = (Inr (), ?db\<lparr>
     samples := filter (\<lambda>x. \<not> (day_of (ms_recorded_at x) \<in> set (d # ds) \<inter> set (partitions db))) (samples db),
     partitions := filter (\<lambda>e. e \<notin> set (d # ds)) (partitions db)\<rparr>)"
    by (simp only: Cons.IH [of ?db])
  then show ?case by (cases db) simp
qed (simp add: ret_def)

lemma day_of_less: "day_of t < d \<longleftrightarrow> t < d * day_length"
proof -
  have pos: "0 < day_length" by (simp add: day_length_def seconds_of_def DAILY_def)
  have split: "t = day_of t * day_length + t mod day_length"
    unfolding day_of_def by (simp only: div_mult_mod_eq)
  have r: "0 \<le> t mod day_length" "t mod day_length < day_length" using pos by simp_all
  show ?thesis
  proof
    assume "day_of t < d"
    then have "(day_of t + 1) * day_length \<le> d * day_length" using pos by (intro mult_right_mono) simp_all
    then show "t < d * day_length" using split r by (simp add: distrib_right)
  next
    assume "t < d * day_length"
    then have "day_of t * day_length < d * day_length" using split r by linarith
    then show "day_of t < d" using pos by (simp add: mult_less_cancel_right)
  qed
qed


lemma set_days_around: "set (days_around today) = {today - 14..today + 14}"
  unfolding days_around_def set_map set_upto
  by (rule set_eqI) (auto simp: image_iff intro: bexI [of _ "_ - today"])

lemma distinct_days_around: "distinct (days_around today)"
  unfolding days_around_def distinct_map by (simp add: inj_on_def)

lemma maintenance_run:
  "run_metric_maintenance False now db =
    (if \<exists>d. blocked db d \<and> d \<in> {day_of now - 14..day_of now + 14}
     then (Inl StorageFailed, db)
     else (Inr (0, 0, 0, length (filter (\<lambda>d. d < day_of now - 14) (partitions db))), db\<lparr>
       samples := filter (\<lambda>x. \<not> (day_of (ms_recorded_at x) < day_of now - 14
         \<and> day_of (ms_recorded_at x) \<in> set (partitions db))) (samples db),
       partitions := filter (\<lambda>d. \<not> d < day_of now - 14) (partitions db)
         @ filter (\<lambda>d. d \<notin> set (partitions db)) (days_around (day_of now))\<rparr>))"
proof -
  let ?today = "day_of now"
  have window: "(\<exists>d. blocked db d \<and> d \<in> {?today - 14..?today + 14})
    = (\<exists>d\<in>set (days_around ?today). blocked db d)"
    by (auto simp: set_days_around)
  show ?thesis
  proof (cases "\<exists>d\<in>set (days_around ?today). blocked db d")
    case True
    from create_partitions_blocked [OF distinct_days_around this]
    show ?thesis
      unfolding window if_P [OF True] by (auto simp: run_metric_maintenance_def txn_def txn_by_def Let_def bindE_def)
  next
    case False
    define new where "new = filter (\<lambda>d. d \<notin> set (partitions db)) (days_around ?today)"
    have young: "\<not> d < ?today - 14" if "d \<in> set new" for d
      using that by (simp add: new_def set_days_around)
    define expired where "expired = filter (\<lambda>d. d < ?today - 14) (partitions db)"
    have expired: "filter (\<lambda>d. d < ?today - 14) (partitions db @ new) = expired"
      using young by (simp add: expired_def filter_empty_conv)
    have rows: "filter (\<lambda>x. \<not> (day_of (ms_recorded_at x) \<in> set expired \<inter> set (partitions db @ new))) (samples db)
        = filter (\<lambda>x. \<not> (day_of (ms_recorded_at x) < ?today - 14
            \<and> day_of (ms_recorded_at x) \<in> set (partitions db))) (samples db)"
      by (intro filter_cong) (auto simp: expired_def)
    have parts: "filter (\<lambda>d. d \<notin> set expired) (partitions db @ new)
        = filter (\<lambda>d. \<not> d < ?today - 14) (partitions db) @ new"
      using young by (auto simp: expired_def filter_id_conv intro!: filter_cong)
    have create: "eachE (create_partition Table_Owner) (days_around ?today) db
        = (Inr (), db\<lparr>partitions := partitions db @ new\<rparr>)"
      unfolding new_def by (rule create_partitions_owner [OF distinct_days_around False])
    have "run_metric_maintenance False now db = (Inr (0, 0, 0, length expired), db\<lparr>
        samples := filter (\<lambda>x. \<not> (day_of (ms_recorded_at x) \<in> set expired \<inter> set (partitions db @ new))) (samples db),
        partitions := filter (\<lambda>d. d \<notin> set expired) (partitions db @ new)\<rparr>)"
      unfolding run_metric_maintenance_def txn_def txn_by_def Let_def
      by (simp add: bindE_def create reads_def expired drop_partitions ret_def del: filter_append set_filter)
    then show ?thesis
      unfolding window if_not_P [OF False] rows parts by (simp only: expired_def new_def)
  qed
qed

text \<open>Property C29. A run of the maintenance function that gets its lock, whole. Where a sample is stored for a
  day from fourteen days back to fourteen ahead that has no partition yet, the run fails and changes
  nothing: no partition is made and none dropped. Otherwise each day of the window has a partition afterwards, the partitions
  older than fourteen days are gone with their samples, and that is all: samples outside the daily
  partitions stay whatever their age, no aggregate is deleted, no audit row is written, and the
  reported counts of deleted rows are zero, because the role the function runs as is shown no
  organisation.\<close>

theorem retention_exact:
  "run_metric_maintenance False now db =
    (if \<exists>d\<in>{day_of now - 14..day_of now + 14}. d \<notin> set (partitions db)
          \<and> (\<exists>x\<in>set (samples db). day_of (ms_recorded_at x) = d)
     then (Inl StorageFailed, db)
     else (Inr (0, 0, 0, length (filter (\<lambda>d. d < day_of now - 14) (partitions db))), db\<lparr>
       samples := filter (\<lambda>x. \<not> (day_of (ms_recorded_at x) < day_of now - 14
         \<and> day_of (ms_recorded_at x) \<in> set (partitions db))) (samples db),
       partitions := filter (\<lambda>d. \<not> d < day_of now - 14) (partitions db)
         @ filter (\<lambda>d. d \<notin> set (partitions db)) (days_around (day_of now))\<rparr>))"
proof -
  have "(\<exists>d\<in>{day_of now - 14..day_of now + 14}. d \<notin> set (partitions db)
          \<and> (\<exists>x\<in>set (samples db). day_of (ms_recorded_at x) = d))
    = (\<exists>d. blocked db d \<and> d \<in> {day_of now - 14..day_of now + 14})"
    by (auto simp: blocked_def)
  then show ?thesis by (simp only: maintenance_run [of now db])
qed

lemma foldl_upsert_other:
  "\<forall>x\<in>set xs. agg_key x \<noteq> k \<Longrightarrow> agg_at k (foldl upsert t xs) = agg_at k t"
  by (induction xs arbitrary: t) (auto simp: agg_at_upsert)

lemma downsample_other:
  assumes "ag_org_of \<noteq> org" and "k = (ag_org_of, dev, name, interval, start)"
  shows "wp (downsample_tenant now org)
    (\<lambda>_ db'. samples db' = samples db \<and> organizations db' = organizations db \<and> partitions db' = partitions db
       \<and> agg_at k (aggregates db') = agg_at k (aggregates db)) (\<lambda>_ _. False) db"
proof -
  have "\<forall>x\<in>set (rollup_rows org i c d). agg_key x \<noteq> k" for i c and d :: "'a history"
  proof
    fix x
    assume "x \<in> set (rollup_rows org i c d)"
    then have "agg_key x \<in> set (map agg_key (rollup_rows org i c d))" by simp
    then have "agg_key x \<in> group_key i ` set (rollup_source org c d)"
      by (simp only: rollup_rows_keys set_remdups set_map)
    then show "agg_key x \<noteq> k" using assms by (auto simp: group_key_def rollup_source_def)
  qed
  then show ?thesis
    by (simp add: downsample_tenant_def run_downsampling_def wp_if Let_def foldl_upsert_other)
qed

text \<open>Dropping a partition takes the samples of every organisation but rollups reach only the active
  ones: a cycle that runs while an organisation is suspended drops its samples older than fourteen days
  without ever having rolled up those the last cycle before the suspension did not reach.\<close>

theorem suspended_tenant_loses_samples:
  assumes x: "x \<in> set (samples db)" "day_of (ms_recorded_at x) < day_of now - 14"
      "day_of (ms_recorded_at x) \<in> set (partitions db)"
    and org: "(ms_org x, False) \<in> set (organizations db)" "distinct (map fst (organizations db))"
    and window: "\<forall>y\<in>set (samples db). day_of (ms_recorded_at y) \<in> {day_of now - 14..day_of now + 14}
      \<longrightarrow> day_of (ms_recorded_at y) \<in> set (partitions db)"
    and none: "agg_at (group_key HOURLY x) (aggregates db) = None"
  shows "\<exists>r db'. maintenance_cycle True False clock now db = (Inr (Some r), db')
    \<and> x \<notin> set (samples db') \<and> agg_at (group_key HOURLY x) (aggregates db') = None"
proof -
  let ?k = "group_key HOURLY x"
  let ?I = "\<lambda>s. samples s = samples db \<and> organizations s = organizations db \<and> partitions s = partitions db
    \<and> agg_at ?k (aggregates s) = None"
  have inactive: "ms_org x \<notin> set (list_active_organization_ids db)"
    using org by (auto simp: list_active_organization_ids_def dest: eq_key_imp_eq_value)
  have "wp (eachE (\<lambda>o'. downsample_tenant (clock o') o') orgs) (\<lambda>_. ?I) (\<lambda>_ _. False) s"
    if "?I s" "ms_org x \<notin> set orgs" for orgs s
    using that
  proof (induction orgs arbitrary: s)
    case (Cons o' orgs)
    have "wp (downsample_tenant (clock o') o')
        (\<lambda>_ s. wp (eachE (\<lambda>o'. downsample_tenant (clock o') o') orgs) (\<lambda>_. ?I) (\<lambda>_ _. False) s)
        (\<lambda>_ _. False) s"
      by (rule wp_mono [OF downsample_other [of "ms_org x" o' ?k]])
        (use Cons in \<open>auto simp: group_key_def\<close>)
    then show ?case by simp
  qed simp
  from wp_total [OF this [of db "list_active_organization_ids db"]] none inactive
  obtain s where s: "eachE (\<lambda>o'. downsample_tenant (clock o') o') (list_active_organization_ids db) db = (Inr (), s)"
    and I: "?I s" by auto
  have "\<not> (\<exists>d. blocked s d \<and> d \<in> {day_of now - 14..day_of now + 14})"
    using window I by (auto simp: blocked_def)
  then obtain report db' where run: "run_metric_maintenance False now s = (Inr report, db')"
    and raw: "x \<notin> set (samples db')" and agg: "aggregates db' = aggregates s"
    using maintenance_run [of now s] x I by auto
  have "agg_at ?k (aggregates db') = None" using I agg by simp
  then show ?thesis
    using s run raw by (cases report) (auto simp: maintenance_cycle_def eff_defs)
qed

text \<open>
  A sample that comes in after its hour was purged: the hour's row, which summarised \<open>n\<close> samples, is
  replaced by the summary of the late ones alone.
\<close>

lemma length_filter_conj_le: "length (filter (\<lambda>x. P x \<and> Q x) t) \<le> length (filter Q t)"
  by (induction t) auto

lemma late_sample_overwrites:
  assumes "distinct (map agg_key (aggregates db))" and "interval \<in> {HOURLY, DAILY}"
    and x: "x \<in> set (rollup_source org (now - seconds_of (hours * 3600)) db)"
    and a: "agg_at (group_key interval x) (aggregates db) = Some a"
      "length (select_where (\<lambda>y. group_key interval y = group_key interval x) (samples db)) < ag_count a"
  shows "\<exists>n db' a'. run_downsampling org interval hours now db = (Inr n, db')
    \<and> agg_at (group_key interval x) (aggregates db') = Some a' \<and> ag_count a' < ag_count a"
proof -
  let ?rows = "rollup_rows org interval (now - seconds_of (hours * 3600)) db"
  let ?g = "select_where (\<lambda>y. group_key interval y = group_key interval x)
    (rollup_source org (now - seconds_of (hours * 3600)) db)"
  have "distinct (map agg_key ?rows)" by (simp only: rollup_rows_keys distinct_remdups)
  note at = agg_at_upserts [OF this, of _ "aggregates db"]
  have "?g \<noteq> []" using x by (auto simp: select_where_def filter_empty_conv)
  moreover have "length ?g \<le> length (select_where (\<lambda>y. group_key interval y = group_key interval x) (samples db))"
    unfolding select_where_def rollup_source_def filter_filter by (rule length_filter_conj_le)
  ultimately show ?thesis
    using assms(2) a by (auto simp: run_downsampling_def eff_defs Let_def at agg_at_rollup_rows)
qed

section \<open>Witnesses\<close>

text \<open>Two samples of device 2 twenty days ago in the second hour of the day, for which there is a partition;
  organisation 5 is suspended.\<close>

definition old_hour :: int where "old_hour = 3600000000"

definition archive :: "sample_input history" where
  "archive = metric_db.extend ((cl_db empty_server)\<lparr>samples :=
       [cpu_point 71 2 10 old_hour, cpu_point 72 2 15 (old_hour + 1000000),
        (cpu_point 73 2 7 old_hour)\<lparr>ms_org := 5\<rparr>]\<rparr>)
     \<lparr>aggregates = [], partitions = [0], organizations = [(1, True), (5, False)], purges = []\<rparr>"

lemma archive_simps [simp]:
  "aggregates archive = []" "partitions archive = [0]" "organizations archive = [(1, True), (5, False)]"
  "samples archive = [cpu_point 71 2 10 old_hour, cpu_point 72 2 15 (old_hour + 1000000),
        (cpu_point 73 2 7 old_hour)\<lparr>ms_org := 5\<rparr>]"
  by (simp_all add: archive_def metric_db.defs empty_server_def)

theorem rollup_exact_witness:
  "\<exists>n db'. run_downsampling 1 HOURLY 1 (20 * day_length) archive = (Inr n, db')
    \<and> agg_at (1, 2, ''cpu'', HOURLY, old_hour) (aggregates db')
      = Some (aggregate (1, 2, ''cpu'', HOURLY, old_hour)
          [cpu_point 71 2 10 old_hour, cpu_point 72 2 15 (old_hour + 1000000)])"
proof -
  have "select_where (\<lambda>x. group_key HOURLY x = (1, 2, ''cpu'', HOURLY, old_hour))
      (rollup_source 1 (20 * day_length - seconds_of (1 * 3600)) archive)
    = [cpu_point 71 2 10 old_hour, cpu_point 72 2 15 (old_hour + 1000000)]"
    by (simp add: rollup_source_def select_where_def group_key_def cpu_point_def bucket_start_def
        seconds_of_def HOURLY_def DAILY_def day_length_def old_hour_def)
  then show ?thesis
    using rollup_exact [of archive HOURLY 1 1 "20 * day_length"] by (fastforce simp: Let_def)
qed

text \<open>On that archive the old partition goes with its three samples. With one sample of today in the default
  partition the same run fails and leaves everything.\<close>

definition late_partition :: "sample_input history" where
  "late_partition = archive\<lparr>samples := samples archive @ [cpu_point 74 2 10 (20 * day_length)]\<rparr>"

theorem retention_exact_witness:
  "fst (run_metric_maintenance False (20 * day_length) archive) = Inr (0, 0, 0, 1)
   \<and> samples (snd (run_metric_maintenance False (20 * day_length) archive)) = []
   \<and> run_metric_maintenance False (20 * day_length) late_partition = (Inl StorageFailed, late_partition)"
proof -
  have day: "day_of (20 * day_length) = 20" "day_of old_hour = 0" "day_of (old_hour + 1000000) = 0"
    by (simp_all add: day_of_def day_length_def seconds_of_def DAILY_def old_hour_def)
  have "partitions late_partition = [0]" "cpu_point 74 2 10 (20 * day_length) \<in> set (samples late_partition)"
    by (simp_all add: late_partition_def)
  then have "run_metric_maintenance False (20 * day_length) late_partition = (Inl StorageFailed, late_partition)"
    unfolding retention_exact [of _ late_partition] by (force simp: day cpu_point_def)
  moreover have quiet: "\<not> (\<exists>d\<in>{20 - 14..20 + 14}. d \<notin> set (partitions archive)
      \<and> (\<exists>x\<in>set (samples archive). day_of (ms_recorded_at x) = d))"
    by (auto simp: cpu_point_def day)
  ultimately show ?thesis
    unfolding retention_exact [of _ archive] day if_not_P [OF quiet] by (simp add: cpu_point_def day)
qed

theorem suspended_tenant_loses_samples_witness:
  "\<exists>r db'. maintenance_cycle True False (\<lambda>_. 20 * day_length) (20 * day_length) archive = (Inr (Some r), db')
    \<and> (cpu_point 73 2 7 old_hour)\<lparr>ms_org := 5\<rparr> \<notin> set (samples db')
    \<and> agg_at (group_key HOURLY ((cpu_point 73 2 7 old_hour)\<lparr>ms_org := 5\<rparr>)) (aggregates db') = None"
  by (rule suspended_tenant_loses_samples)
    (simp_all add: cpu_point_def day_of_def day_length_def seconds_of_def DAILY_def old_hour_def)

end
