(* ===== verification/Redis_Limits.thy ===== *)
theory Redis_Limits
  imports Prelude
begin

text \<open>
  The request limits kept in Redis: \<open>backend/app/metrics/rate_limit.py\<close> (uploads of an agent token),
  \<open>auth/session_rate_limit.py\<close> (requests of a web session), \<open>devices/rate_limit.py\<close> (machine tokens)
  and \<open>auth/rate_limit.py\<close> (login). Each is a Lua script that Redis runs atomically; the model of a
  script is a function on the keys.

  A key has a value and, after \<open>EXPIRE\<close>, an instant at which it is gone; time is in milliseconds. How
  \<open>TTL\<close> rounds to seconds (\<open>secs\<close>), the HMAC of a key (\<open>hmac\<close>) and the normal form of an address are
  parameters. The link to Redis may be down, or may lose the reply after the script has run.

  The locale \<open>fixed_window\<close> is the contract of a limiter; it is interpreted for all four.
\<close>

section \<open>Redis\<close>

record entry =
  e_value :: int
  e_deadline :: "int option"

type_synonym keyspace = "string \<Rightarrow> entry option"

datatype link = Up | Down | ReplyLost

record redis =
  r_keys :: keyspace
  r_link :: link

definition live :: "int \<Rightarrow> string \<Rightarrow> keyspace \<Rightarrow> entry option" where
  "live now k m = (case m k of None \<Rightarrow> None
     | Some e \<Rightarrow> (case e_deadline e of None \<Rightarrow> Some e | Some d \<Rightarrow> if d \<le> now then None else Some e))"

definition incr :: "int \<Rightarrow> string \<Rightarrow> keyspace \<Rightarrow> int \<times> keyspace" where
  "incr now k m = (case live now k m of
     None \<Rightarrow> (1, m(k \<mapsto> \<lparr>e_value = 1, e_deadline = None\<rparr>))
   | Some e \<Rightarrow> (e_value e + 1, m(k \<mapsto> e\<lparr>e_value := e_value e + 1\<rparr>)))"

definition pexpire :: "int \<Rightarrow> string \<Rightarrow> int \<Rightarrow> keyspace \<Rightarrow> keyspace" where
  "pexpire now k ms m = (case live now k m of None \<Rightarrow> m
     | Some e \<Rightarrow> m(k \<mapsto> e\<lparr>e_deadline := Some (now + ms)\<rparr>))"

definition time_left :: "(int \<Rightarrow> int) \<Rightarrow> int \<Rightarrow> string \<Rightarrow> keyspace \<Rightarrow> int" where
  "time_left unit now k m = (case live now k m of None \<Rightarrow> - 2
     | Some e \<Rightarrow> (case e_deadline e of None \<Rightarrow> - 1 | Some d \<Rightarrow> unit (d - now)))"

definition set_ex :: "int \<Rightarrow> string \<Rightarrow> int \<Rightarrow> keyspace \<Rightarrow> keyspace" where
  "set_ex now k ms m = m(k \<mapsto> \<lparr>e_value = 1, e_deadline = Some (now + ms)\<rparr>)"

definition del :: "string \<Rightarrow> keyspace \<Rightarrow> keyspace" where
  "del k m = m(k := None)"

definition seconds :: "int \<Rightarrow> int" where "seconds n = n * 1000"

section \<open>Scripts\<close>

text \<open>What every script begins with: \<open>INCR\<close>, and \<open>EXPIRE\<close> when the counter is new.\<close>

definition hit :: "int \<Rightarrow> string \<Rightarrow> int \<Rightarrow> keyspace \<Rightarrow> int \<times> keyspace" where
  "hit now key window m = (let (count, m1) = incr now key m
     in (count, if count = 1 then pexpire now key window m1 else m1))"

text \<open>
  \<open>_LIMIT_SCRIPT\<close>, the same text in three modules; one counts in milliseconds (\<open>PEXPIRE\<close>, \<open>PTTL\<close>),
  two in seconds.
\<close>

definition limit_script ::
  "(int \<Rightarrow> int) \<Rightarrow> string \<Rightarrow> int \<Rightarrow> int \<Rightarrow> int \<Rightarrow> keyspace \<Rightarrow> (int \<times> int) \<times> keyspace" where
  "limit_script unit key limit window now m =
     (let (count, m1) = hit now key window m; ttl = time_left unit now key m1
      in ((if count > limit then 0 else 1, max ttl 1), m1))"

datatype limit_error = LimitUnavailable | Limited int | AddressError

type_synonym 'a leff = "(redis, limit_error, 'a) eff"

text \<open>\<open>redis.eval\<close>: the caller sees an exception when the link fails, whether or not the script ran.\<close>

definition redis_eval :: "(keyspace \<Rightarrow> 'a \<times> keyspace) \<Rightarrow> 'a leff" where
  "redis_eval script r = (case r_link r of
     Down \<Rightarrow> (Inl LimitUnavailable, r)
   | ReplyLost \<Rightarrow> (Inl LimitUnavailable, r\<lparr>r_keys := snd (script (r_keys r))\<rparr>)
   | Up \<Rightarrow> (Inr (fst (script (r_keys r))), r\<lparr>r_keys := snd (script (r_keys r))\<rparr>))"

section \<open>Limiters\<close>

definition INGEST_LIMIT :: int where "INGEST_LIMIT = 2"
definition INGEST_WINDOW :: int where "INGEST_WINDOW = 1000"

definition ingest_key :: "uuid \<Rightarrow> uuid \<Rightarrow> string" where
  "ingest_key org token = ''nexus:metrics:ingest:'' @ uuid_str org @ '':'' @ uuid_str token"

definition allow_ingest :: "uuid \<Rightarrow> uuid \<Rightarrow> int \<Rightarrow> unit leff" where
  "allow_ingest org token now =
     bindE (redis_eval (limit_script id (ingest_key org token) INGEST_LIMIT INGEST_WINDOW now)) (\<lambda>(allowed, ms).
     if allowed = 0 then raise (Limited (max ((ms + 999) div 1000) 1)) else ret ())"

definition SESSION_LIMIT :: int where "SESSION_LIMIT = 60"
definition SESSION_WINDOW :: int where "SESSION_WINDOW = 60"

definition session_key :: "uuid \<Rightarrow> string" where
  "session_key i = ''nexus:session:requests:'' @ uuid_str i"

definition allow_session :: "(int \<Rightarrow> int) \<Rightarrow> uuid \<Rightarrow> int \<Rightarrow> unit leff" where
  "allow_session unit i now =
     bindE (redis_eval (limit_script unit (session_key i) SESSION_LIMIT (seconds SESSION_WINDOW) now))
       (\<lambda>(allowed, after). if allowed = 0 then raise (Limited (max after 1)) else ret ())"

definition AGENT_LIMIT :: int where "AGENT_LIMIT = 30"
definition AGENT_WINDOW :: int where "AGENT_WINDOW = 60"

text \<open>The normal form of an address, \<open>str(ipaddress.ip_address(...))\<close>, is a parameter: None is its error.\<close>

record limit_env =
  hmac :: "string \<Rightarrow> string"
  normal_ip :: "string \<Rightarrow> string option"
  secs :: "int \<Rightarrow> int"

definition agent_key :: "limit_env \<Rightarrow> string \<Rightarrow> string \<Rightarrow> string" where
  "agent_key env token ip = ''nexus:agent:auth:'' @ hmac env
     ((case normal_ip env ip of Some a \<Rightarrow> a | None \<Rightarrow> ''invalid'') @ '':'' @ token)"

definition agent_preflight :: "limit_env \<Rightarrow> string \<Rightarrow> string \<Rightarrow> int \<Rightarrow> unit leff" where
  "agent_preflight env token ip now =
     bindE (redis_eval (limit_script (secs env) (agent_key env token ip) AGENT_LIMIT (seconds AGENT_WINDOW) now))
       (\<lambda>(allowed, after). if allowed = 0 then raise (Limited (max after 1)) else ret ())"

section \<open>Login\<close>

definition IP_LIMIT :: int where "IP_LIMIT = 20"
definition IP_WINDOW :: int where "IP_WINDOW = 60"
definition ACCOUNT_FAILURE_LIMIT :: int where "ACCOUNT_FAILURE_LIMIT = 5"
definition ACCOUNT_WINDOW :: int where "ACCOUNT_WINDOW = 15 * 60"
definition ACCOUNT_LOCK :: int where "ACCOUNT_LOCK = 15 * 60"
definition PAIR_FAILURE_LIMIT :: int where "PAIR_FAILURE_LIMIT = 5"
definition PAIR_WINDOW :: int where "PAIR_WINDOW = 5 * 60"
definition PAIR_LOCK :: int where "PAIR_LOCK = 15 * 60"

text \<open>\<open>FAILURE_DELAYS\<close>, in milliseconds.\<close>

definition FAILURE_DELAYS :: "int list" where "FAILURE_DELAYS = [200, 500, 1000, 2000]"

definition preflight_script ::
  "(int \<Rightarrow> int) \<Rightarrow> string \<Rightarrow> string \<Rightarrow> string \<Rightarrow> int \<Rightarrow> int \<Rightarrow> int \<Rightarrow> keyspace \<Rightarrow> (int \<times> int) \<times> keyspace" where
  "preflight_script unit ip_key account_lock pair_lock limit window now m =
     (let (attempts, m1) = hit now ip_key window m
      in if attempts > limit then ((1, max (time_left unit now ip_key m1) 1), m1)
         else let account_ttl = time_left unit now account_lock m1;
                  pair_ttl = time_left unit now pair_lock m1
              in if account_ttl > 0 \<or> pair_ttl > 0 then ((2, max account_ttl pair_ttl), m1)
                 else ((0, 0), m1))"

definition count_failure ::
  "string \<Rightarrow> string \<Rightarrow> int \<Rightarrow> int \<Rightarrow> int \<Rightarrow> int \<Rightarrow> keyspace \<Rightarrow> int \<times> keyspace" where
  "count_failure counter lock limit window lock_time now m =
     (let (failures, m1) = hit now counter window m
      in (failures, if failures \<ge> limit then del counter (set_ex now lock lock_time m1) else m1))"

definition failure_script ::
  "string \<Rightarrow> string \<Rightarrow> string \<Rightarrow> string \<Rightarrow> int \<Rightarrow> keyspace \<Rightarrow> (int \<times> int) \<times> keyspace" where
  "failure_script account account_lock pair pair_lock now m =
     (let (account_failures, m1) = count_failure account account_lock ACCOUNT_FAILURE_LIMIT
            (seconds ACCOUNT_WINDOW) (seconds ACCOUNT_LOCK) now m;
          (pair_failures, m2) = count_failure pair pair_lock PAIR_FAILURE_LIMIT
            (seconds PAIR_WINDOW) (seconds PAIR_LOCK) now m1
      in ((max account_failures pair_failures, 0), m2))"

definition success_script :: "string \<Rightarrow> string \<Rightarrow> keyspace \<Rightarrow> (int \<times> int) \<times> keyspace" where
  "success_script account pair m = ((1, 0), del pair (del account m))"

text \<open>\<open>_keys\<close>: the three keys and the digest of the account.\<close>

definition login_keys :: "limit_env \<Rightarrow> string \<Rightarrow> string \<Rightarrow> (string \<times> string \<times> string \<times> string) option" where
  "login_keys env email ip = (case normal_ip env ip of None \<Rightarrow> None | Some source \<Rightarrow>
     (let normalized = py_lower (py_strip email);
          account = hmac env (''account:'' @ normalized)
      in Some (''nexus:login:ip:attempts:'' @ hmac env (''ip:'' @ source),
               ''nexus:login:account:lock:'' @ account,
               ''nexus:login:pair:lock:'' @ hmac env (''pair:'' @ source @ '':'' @ normalized),
               account)))"

text \<open>\<open>rsplit(":", maxsplit=1)[-1]\<close>.\<close>

definition last_segment :: "string \<Rightarrow> string" where
  "last_segment s = rev (takeWhile (\<lambda>c. c \<noteq> CHR '':'') (rev s))"

definition with_keys ::
  "limit_env \<Rightarrow> string \<Rightarrow> string \<Rightarrow> (string \<Rightarrow> string \<Rightarrow> string \<Rightarrow> string \<Rightarrow> 'a leff) \<Rightarrow> 'a leff" where
  "with_keys env email ip body = (case login_keys env email ip of None \<Rightarrow> raise AddressError
     | Some (ip_key, account_lock, pair_lock, account) \<Rightarrow> body ip_key account_lock pair_lock account)"

record login_preflight =
  credentials_blocked :: bool
  retry_after_seconds :: int

definition preflight :: "limit_env \<Rightarrow> string \<Rightarrow> string \<Rightarrow> int \<Rightarrow> login_preflight leff" where
  "preflight env email ip now = with_keys env email ip (\<lambda>ip_key account_lock pair_lock account.
     bindE (redis_eval (preflight_script (secs env) ip_key account_lock pair_lock IP_LIMIT (seconds IP_WINDOW) now))
       (\<lambda>(status, after).
          if status = 1 then raise (Limited (max 1 after))
          else if status \<noteq> 0 \<and> status \<noteq> 2 then raise LimitUnavailable
          else ret \<lparr>credentials_blocked = (status = 2), retry_after_seconds = max 0 after\<rparr>))"

definition account_counter :: "string \<Rightarrow> string" where
  "account_counter account = ''nexus:login:account:failures:'' @ account"

definition pair_counter :: "string \<Rightarrow> string" where
  "pair_counter pair_lock = ''nexus:login:pair:failures:'' @ last_segment pair_lock"

definition record_failure :: "limit_env \<Rightarrow> string \<Rightarrow> string \<Rightarrow> int \<Rightarrow> int leff" where
  "record_failure env email ip now = with_keys env email ip (\<lambda>ip_key account_lock pair_lock account.
     bindE (redis_eval (failure_script (account_counter account) account_lock (pair_counter pair_lock) pair_lock now))
       (\<lambda>(failures, _).
          ret (FAILURE_DELAYS ! nat (min (max failures 1) (int (length FAILURE_DELAYS)) - 1))))"

definition record_success :: "limit_env \<Rightarrow> string \<Rightarrow> string \<Rightarrow> unit leff" where
  "record_success env email ip = with_keys env email ip (\<lambda>ip_key account_lock pair_lock account.
     bindE (redis_eval (success_script (account_counter account) (pair_counter pair_lock))) (\<lambda>_. ret ()))"

section \<open>The contract of a window\<close>

text \<open>Requests at their instants, in the order in which Redis serves them, and how many were granted.\<close>

fun serve :: "('q \<Rightarrow> int \<Rightarrow> 's \<Rightarrow> bool \<times> 's) \<Rightarrow> ('q \<times> int) list \<Rightarrow> 's \<Rightarrow> ('q \<times> int \<times> bool) list" where
  "serve f [] s = []"
| "serve f ((q, t) # rs) s = (q, t, fst (f q t s)) # serve f rs (snd (f q t s))"

definition granted ::
  "('q \<Rightarrow> int \<Rightarrow> 's \<Rightarrow> bool \<times> 's) \<Rightarrow> ('q \<Rightarrow> 'k option) \<Rightarrow> 'k \<Rightarrow> (int \<Rightarrow> bool) \<Rightarrow> ('q \<times> int) list \<Rightarrow> 's \<Rightarrow> int" where
  "granted f key k within rs s =
     int (length (filter (\<lambda>(q, t, b). key q = Some k \<and> b \<and> within t) (serve f rs s)))"

text \<open>
  A request is counted under a key; a request without a key is refused unseen. A key without a live
  window opens one of length \<open>width\<close>; in a live window requests are granted up to \<open>limit\<close>.
\<close>

locale fixed_window =
  fixes attempt :: "'q \<Rightarrow> int \<Rightarrow> 's \<Rightarrow> bool \<times> 's"
    and key_of :: "'q \<Rightarrow> 'k option"
    and window_of :: "'k \<Rightarrow> 's \<Rightarrow> (int \<times> int) option"
    and good :: "'s \<Rightarrow> bool"
    and limit width :: int
  assumes positive: "1 \<le> limit" "1 \<le> width"
    and good_attempt: "good s \<Longrightarrow> good (snd (attempt q t s))"
    and counted: "good s \<Longrightarrow> window_of k s = Some (n, d) \<Longrightarrow> 0 \<le> n"
    and refused: "good s \<Longrightarrow> key_of q = None \<Longrightarrow> \<not> fst (attempt q t s)"
    and other: "good s \<Longrightarrow> key_of q \<noteq> Some k \<Longrightarrow> window_of k (snd (attempt q t s)) = window_of k s"
    and opens: "good s \<Longrightarrow> key_of q = Some k \<Longrightarrow> (\<And>n d. window_of k s = Some (n, d) \<Longrightarrow> d \<le> t)
      \<Longrightarrow> window_of k (snd (attempt q t s)) = Some (1, t + width)"
    and counts: "good s \<Longrightarrow> key_of q = Some k \<Longrightarrow> window_of k s = Some (n, d) \<Longrightarrow> t < d
      \<Longrightarrow> window_of k (snd (attempt q t s)) = Some (n + 1, d) \<and> fst (attempt q t s) = (n + 1 \<le> limit)"
begin

lemma granted_Nil [simp]: "granted attempt key_of k within [] s = 0"
  by (simp add: granted_def)

lemma granted_Cons [simp]: "granted attempt key_of k within ((q, t) # rs) s
    = (if key_of q = Some k \<and> fst (attempt q t s) \<and> within t then 1 else 0)
      + granted attempt key_of k within rs (snd (attempt q t s))"
  by (simp add: granted_def)

lemma granted_later: "\<forall>r\<in>set rs. \<not> within (snd r) \<Longrightarrow> granted attempt key_of k within rs s = 0"
  by (induction rs arbitrary: s) auto

lemma granted_mono: "(\<And>t. inner t \<Longrightarrow> outer t) \<Longrightarrow> granted attempt key_of k inner rs s \<le> granted attempt key_of k outer rs s"
proof (induction rs arbitrary: s)
  case (Cons r rs)
  obtain q t where r: "r = (q, t)" by fastforce
  from Cons.IH [OF Cons.prems, of "snd (attempt q t s)"] Cons.prems show ?case by (auto simp: r)
qed simp

text \<open>What is left of an open window.\<close>

lemma granted_open:
  "good s \<Longrightarrow> window_of k s = Some (n, d) \<Longrightarrow> sorted (map snd rs)
   \<Longrightarrow> granted attempt key_of k (\<lambda>t. t < d) rs s \<le> max 0 (limit - n)"
proof (induction rs arbitrary: s n)
  case (Cons r rs)
  obtain q t where r: "r = (q, t)" by fastforce
  let ?s = "snd (attempt q t s)"
  have good: "good ?s" and sorted: "sorted (map snd rs)" and later: "\<forall>r\<in>set rs. t \<le> snd r"
    using Cons.prems r good_attempt by auto
  consider "key_of q \<noteq> Some k" | "key_of q = Some k" "t < d" | "key_of q = Some k" "d \<le> t" by force
  then show ?case
  proof cases
    case 1
    then show ?thesis using Cons.IH [OF good _ sorted] Cons.prems other r by auto
  next
    case 2
    from counts [OF Cons.prems(1) 2(1) Cons.prems(2) 2(2)] Cons.IH [OF good _ sorted, of "n + 1"]
    show ?thesis by (auto simp: r)
  next
    case 3
    then have "granted attempt key_of k (\<lambda>t. t < d) rs ?s = 0" using later by (intro granted_later) auto
    then show ?thesis using 3 by (simp add: r)
  qed
qed simp

text \<open>From a key without a live window, no more than \<open>limit\<close> in a stretch of length \<open>width\<close>.\<close>

lemma granted_fresh:
  "good s \<Longrightarrow> (\<And>n d. window_of k s = Some (n, d) \<Longrightarrow> d \<le> lo) \<Longrightarrow> sorted (map snd rs)
   \<Longrightarrow> \<forall>r\<in>set rs. lo \<le> snd r \<Longrightarrow> hi \<le> lo + width \<Longrightarrow> granted attempt key_of k (\<lambda>t. t < hi) rs s \<le> limit"
proof (induction rs arbitrary: s)
  case Nil
  then show ?case using positive by simp
next
  case (Cons r rs)
  obtain q t where r: "r = (q, t)" by fastforce
  let ?s = "snd (attempt q t s)"
  have good: "good ?s" and sorted: "sorted (map snd rs)" and later: "\<forall>r\<in>set rs. t \<le> snd r" and lo: "lo \<le> t"
    using Cons.prems r good_attempt by auto
  show ?case
  proof (cases "key_of q = Some k")
    case False
    then show ?thesis using Cons.IH [OF good _ sorted] Cons.prems other [OF Cons.prems(1) False] r by auto
  next
    case True
    have "window_of k ?s = Some (1, t + width)"
      by (rule opens [OF Cons.prems(1) True]) (use Cons.prems(2) lo in force)
    from granted_open [OF good this sorted]
    have "granted attempt key_of k (\<lambda>u. u < t + width) rs ?s \<le> limit - 1" using positive by simp
    moreover have "granted attempt key_of k (\<lambda>u. u < hi) rs ?s \<le> granted attempt key_of k (\<lambda>u. u < t + width) rs ?s"
      by (rule granted_mono) (use Cons.prems(5) lo in auto)
    ultimately show ?thesis by (simp add: r)
  qed
qed

lemma granted_stretch:
  "good s \<Longrightarrow> window_of k s = Some (n, d) \<Longrightarrow> sorted (map snd rs) \<Longrightarrow> hi \<le> d + width
   \<Longrightarrow> granted attempt key_of k (\<lambda>t. t < hi) rs s \<le> max 0 (limit - n) + limit"
proof (induction rs arbitrary: s n)
  case Nil
  then show ?case using positive by simp
next
  case (Cons r rs)
  obtain q t where r: "r = (q, t)" by fastforce
  let ?s = "snd (attempt q t s)"
  have good: "good ?s" and sorted: "sorted (map snd rs)" and later: "\<forall>r\<in>set rs. t \<le> snd r"
    using Cons.prems r good_attempt by auto
  show ?case
  proof (cases "d \<le> t")
    case True
    have "granted attempt key_of k (\<lambda>t. t < hi) (r # rs) s \<le> limit"
      by (rule granted_fresh [OF Cons.prems(1) _ Cons.prems(3), of k d])
        (use Cons.prems True later r in auto)
    then show ?thesis by linarith
  next
    case early: False
    show ?thesis
    proof (cases "key_of q = Some k")
      case False
      then show ?thesis using Cons.IH [OF good _ sorted] Cons.prems other [OF Cons.prems(1) False] r by auto
    next
      case True
      from early have "t < d" by simp
      from counts [OF Cons.prems(1) True Cons.prems(2) this] Cons.IH [OF good _ sorted, of "n + 1"] Cons.prems(4)
      show ?thesis by (auto simp: r)
    qed
  qed
qed

theorem window_bound:
  "good s \<Longrightarrow> sorted (map snd rs) \<Longrightarrow> granted attempt key_of k (\<lambda>t. lo \<le> t \<and> t < lo + width) rs s \<le> 2 * limit"
proof (induction rs arbitrary: s)
  case Nil
  then show ?case using positive by simp
next
  case (Cons r rs)
  obtain q t where r: "r = (q, t)" by fastforce
  have sorted: "sorted (map snd rs)" and later: "\<forall>x\<in>set (r # rs). t \<le> snd x"
    using Cons.prems r by auto
  show ?case
  proof (cases "lo \<le> t")
    case False
    then show ?thesis using Cons.IH [OF good_attempt [OF Cons.prems(1)] sorted] r by auto
  next
    case True
    then have all: "\<forall>x\<in>set (r # rs). lo \<le> snd x" using later by auto
    have part: "granted attempt key_of k (\<lambda>t. lo \<le> t \<and> t < lo + width) (r # rs) s \<le> granted attempt key_of k (\<lambda>t. t < lo + width) (r # rs) s"
      by (rule granted_mono) simp
    show ?thesis
    proof (cases "\<forall>n d. window_of k s = Some (n, d) \<longrightarrow> d \<le> lo")
      case True
      from granted_fresh [OF Cons.prems(1) _ Cons.prems(2) all, of k "lo + width"] True part positive
      show ?thesis by fastforce
    next
      case False
      then obtain n d where w: "window_of k s = Some (n, d)" and d: "lo < d" by fastforce
      have "0 \<le> n" by (rule counted [OF Cons.prems(1) w])
      then have "max 0 (limit - n) \<le> limit" using positive by simp
      with granted_stretch [OF Cons.prems(1) w Cons.prems(2), of "lo + width"] d part
      show ?thesis by linarith
    qed
  qed
qed

end

section \<open>The four limiters meet the contract\<close>

text \<open>Keys the scripts leave behind: every counter and lock has a deadline, so none is kept for ever.\<close>

definition tidy_keys :: "keyspace \<Rightarrow> bool" where
  "tidy_keys m \<longleftrightarrow> (\<forall>k e. m k = Some e \<longrightarrow> 1 \<le> e_value e \<and> e_deadline e \<noteq> None)"

definition tidy :: "redis \<Rightarrow> bool" where
  "tidy r \<longleftrightarrow> r_link r = Up \<and> tidy_keys (r_keys r)"

definition window_at :: "string \<Rightarrow> redis \<Rightarrow> (int \<times> int) option" where
  "window_at k r = (case r_keys r k of None \<Rightarrow> None
     | Some e \<Rightarrow> (case e_deadline e of None \<Rightarrow> None | Some d \<Rightarrow> Some (e_value e, d)))"

lemma tidy_keysD: "tidy_keys m \<Longrightarrow> m k = Some e \<Longrightarrow> 1 \<le> e_value e \<and> (\<exists>d. e_deadline e = Some d)"
  by (auto simp: tidy_keys_def)

lemma hit_new:
  "live now key m = None \<Longrightarrow> hit now key window m = (1, m(key \<mapsto> \<lparr>e_value = 1, e_deadline = Some (now + window)\<rparr>))"
  by (simp add: hit_def incr_def pexpire_def live_def)

lemma live_tidy: "tidy_keys m \<Longrightarrow> live now k m = Some e \<longleftrightarrow> m k = Some e \<and> now < the (e_deadline e)"
  by (cases "m k") (auto simp: live_def dest: tidy_keysD split: option.splits if_splits)

lemma live_None_tidy:
  "tidy_keys m \<Longrightarrow> live now k m = None \<longleftrightarrow> (\<forall>e. m k = Some e \<longrightarrow> the (e_deadline e) \<le> now)"
  by (cases "m k") (auto simp: live_def dest: tidy_keysD split: option.splits if_splits)

lemma hit_live:
  "tidy_keys m \<Longrightarrow> live now key m = Some e
   \<Longrightarrow> hit now key window m = (e_value e + 1, m(key \<mapsto> e\<lparr>e_value := e_value e + 1\<rparr>)) \<and> 1 \<le> e_value e"
proof -
  assume m: "tidy_keys m" and e: "live now key m = Some e"
  then have "m key = Some e" by (simp add: live_tidy)
  from tidy_keysD [OF m this] have "1 \<le> e_value e" by blast
  with e show ?thesis by (simp add: hit_def incr_def)
qed

lemma tidy_hit: "tidy_keys m \<Longrightarrow> tidy_keys (snd (hit now key window m))"
proof (cases "live now key m")
  case (Some e)
  assume m: "tidy_keys m"
  from Some m have "m key = Some e" by (simp add: live_tidy)
  from hit_live [OF m Some] tidy_keysD [OF m this] show ?thesis
    using m by (auto simp: tidy_keys_def)
qed (auto simp: hit_new tidy_keys_def)

lemma hit_other: "k \<noteq> key \<Longrightarrow> snd (hit now key window m) k = m k"
  by (auto simp: hit_def incr_def pexpire_def live_def split: option.splits)

text \<open>The step of a limiter, whatever the unit of its replies.\<close>

definition counted_step :: "string \<Rightarrow> int \<Rightarrow> int \<Rightarrow> int \<Rightarrow> redis \<Rightarrow> bool \<times> redis" where
  "counted_step key most window now r = (fst (hit now key window (r_keys r)) \<le> most,
     r\<lparr>r_keys := snd (hit now key window (r_keys r))\<rparr>)"

lemma tidy_step: "tidy r \<Longrightarrow> tidy (snd (counted_step key most window now r))"
  by (simp add: tidy_def counted_step_def tidy_hit)

lemma step_other: "k \<noteq> key \<Longrightarrow> window_at k (snd (counted_step key most window now r)) = window_at k r"
  by (simp add: window_at_def counted_step_def hit_other)

lemma step_opens:
  assumes "tidy r" and "\<And>n d. window_at key r = Some (n, d) \<Longrightarrow> d \<le> now"
  shows "window_at key (snd (counted_step key most window now r)) = Some (1, now + window)"
proof -
  have "live now key (r_keys r) = None"
    using assms tidy_keysD [of "r_keys r" key]
    by (auto simp: live_None_tidy window_at_def tidy_def split: option.splits)
  from hit_new [OF this] show ?thesis by (simp add: window_at_def counted_step_def)
qed

lemma step_counts:
  assumes "tidy r" and "window_at key r = Some (n, d)" and "now < d"
  shows "window_at key (snd (counted_step key most window now r)) = Some (n + 1, d)
    \<and> fst (counted_step key most window now r) = (n + 1 \<le> most)"
proof -
  obtain e where e: "live now key (r_keys r) = Some e" "e_value e = n" "e_deadline e = Some d"
    using assms by (auto simp: live_tidy window_at_def tidy_def split: option.splits)
  with hit_live [OF _ e(1)] assms(1) show ?thesis
    by (simp add: window_at_def counted_step_def tidy_def)
qed

lemma window_counted: "tidy r \<Longrightarrow> window_at k r = Some (n, d) \<Longrightarrow> 0 \<le> n"
  by (force simp: window_at_def tidy_def tidy_keys_def split: option.splits)

lemmas step_facts = tidy_step step_other step_opens step_counts window_counted

text \<open>An attempt of an operation: was it let through, and what it leaves.\<close>

definition let_through :: "'a leff \<Rightarrow> redis \<Rightarrow> bool \<times> redis" where
  "let_through m r = (case m r of (Inr _, r') \<Rightarrow> (True, r') | (Inl _, r') \<Rightarrow> (False, r'))"

lemma limit_script_hit:
  "limit_script unit key limit window now m = ((if fst (hit now key window m) > limit then 0 else 1,
     max (time_left unit now key (snd (hit now key window m))) 1), snd (hit now key window m))"
  by (simp add: limit_script_def Let_def split: prod.splits)

lemma ingest_step: "tidy r \<Longrightarrow> let_through (allow_ingest org token now) r
    = counted_step (ingest_key org token) INGEST_LIMIT INGEST_WINDOW now r"
  by (simp add: let_through_def allow_ingest_def redis_eval_def tidy_def eff_defs counted_step_def
      limit_script_hit)

lemma session_step: "tidy r \<Longrightarrow> let_through (allow_session unit i now) r
    = counted_step (session_key i) SESSION_LIMIT (seconds SESSION_WINDOW) now r"
  by (simp add: let_through_def allow_session_def redis_eval_def tidy_def eff_defs counted_step_def
      limit_script_hit)

lemma agent_step: "tidy r \<Longrightarrow> let_through (agent_preflight env token ip now) r
    = counted_step (agent_key env token ip) AGENT_LIMIT (seconds AGENT_WINDOW) now r"
  by (simp add: let_through_def agent_preflight_def redis_eval_def tidy_def eff_defs counted_step_def
      limit_script_hit)

lemma preflight_hit: "preflight_script unit ip account pair limit window now m
    = (fst (preflight_script unit ip account pair limit window now m), snd (hit now ip window m))
    \<and> (fst (fst (preflight_script unit ip account pair limit window now m)) = 1
       \<longleftrightarrow> fst (hit now ip window m) > limit)
    \<and> fst (fst (preflight_script unit ip account pair limit window now m)) \<in> {0, 1, 2}"
  by (auto simp: preflight_script_def Let_def split: prod.splits)

definition login_ip_key :: "limit_env \<Rightarrow> string \<Rightarrow> string option" where
  "login_ip_key env ip = map_option (\<lambda>source. ''nexus:login:ip:attempts:'' @ hmac env (''ip:'' @ source)) (normal_ip env ip)"

lemma preflight_step: "tidy r \<Longrightarrow> let_through (preflight env email ip now) r
    = (case login_ip_key env ip of None \<Rightarrow> (False, r) | Some key \<Rightarrow> counted_step key IP_LIMIT (seconds IP_WINDOW) now r)"
proof (cases "normal_ip env ip")
  case None
  then show ?thesis
    by (simp add: let_through_def preflight_def with_keys_def login_keys_def login_ip_key_def eff_defs)
next
  case (Some source)
  assume "tidy r"
  obtain k1 k2 k3 k4 where keys: "login_keys env email ip = Some (k1, k2, k3, k4)" "login_ip_key env ip = Some k1"
    using Some by (simp add: login_keys_def login_ip_key_def Let_def)
  let ?p = "preflight_script (secs env) k1 k2 k3 IP_LIMIT (seconds IP_WINDOW) now (r_keys r)"
  obtain st ms m where p: "?p = ((st, ms), m)" by (metis surj_pair)
  have "m = snd (hit now k1 (seconds IP_WINDOW) (r_keys r))" "st = 1 \<longleftrightarrow> fst (hit now k1 (seconds IP_WINDOW) (r_keys r)) > IP_LIMIT"
    "st \<in> {0, 1, 2}"
    using preflight_hit [of "secs env" k1 k2 k3 IP_LIMIT "seconds IP_WINDOW" now "r_keys r"] unfolding p by auto
  then show ?thesis
    using p \<open>tidy r\<close> by (auto simp: let_through_def preflight_def with_keys_def keys redis_eval_def tidy_def
        eff_defs counted_step_def)
qed

lemma windowed:
  assumes "\<And>q t r. tidy r \<Longrightarrow> attempt q t r
      = (case key_of q of None \<Rightarrow> (False, r) | Some k \<Rightarrow> counted_step k most window t r)"
    and "1 \<le> most" "1 \<le> window"
  shows "fixed_window attempt key_of window_at tidy most window"
proof (unfold_locales, goal_cases)
  case 3
  then show ?case using assms(1) by (auto simp: tidy_step split: option.splits)
next
  case 6
  then show ?case using assms(1) by (auto simp: step_other split: option.splits)
qed (use assms step_facts in auto)

fun ingest_attempt :: "uuid \<times> uuid \<Rightarrow> int \<Rightarrow> redis \<Rightarrow> bool \<times> redis" where
  "ingest_attempt (org, token) t = let_through (allow_ingest org token t)"

fun agent_attempt :: "limit_env \<Rightarrow> string \<times> string \<Rightarrow> int \<Rightarrow> redis \<Rightarrow> bool \<times> redis" where
  "agent_attempt env (token, ip) t = let_through (agent_preflight env token ip t)"

definition session_attempt :: "limit_env \<Rightarrow> uuid \<Rightarrow> int \<Rightarrow> redis \<Rightarrow> bool \<times> redis" where
  "session_attempt env i t = let_through (allow_session (secs env) i t)"

fun login_attempt :: "limit_env \<Rightarrow> string \<times> string \<Rightarrow> int \<Rightarrow> redis \<Rightarrow> bool \<times> redis" where
  "login_attempt env (email, ip) t = let_through (preflight env email ip t)"

interpretation ingest_window: fixed_window ingest_attempt "\<lambda>(org, token). Some (ingest_key org token)"
  window_at tidy INGEST_LIMIT INGEST_WINDOW
  by (rule windowed) (auto simp: ingest_step INGEST_LIMIT_def INGEST_WINDOW_def)

interpretation session_window: fixed_window "session_attempt env" "\<lambda>i. Some (session_key i)"
  window_at tidy SESSION_LIMIT "seconds SESSION_WINDOW"
  by (rule windowed) (auto simp: session_attempt_def session_step SESSION_LIMIT_def SESSION_WINDOW_def seconds_def)

interpretation agent_window: fixed_window "agent_attempt env" "\<lambda>(token, ip). Some (agent_key env token ip)"
  window_at tidy AGENT_LIMIT "seconds AGENT_WINDOW"
  by (rule windowed) (auto simp: agent_step AGENT_LIMIT_def AGENT_WINDOW_def seconds_def)

interpretation login_window: fixed_window "login_attempt env" "\<lambda>(email, ip). login_ip_key env ip"
  window_at tidy IP_LIMIT "seconds IP_WINDOW"
  by (rule windowed) (auto simp: preflight_step IP_LIMIT_def IP_WINDOW_def seconds_def)

text \<open>
  Property C16. Requests that reach Redis in any interleaving are limited per caller: in any stretch
  as long as the window (a second for uploads, a minute otherwise), at most twice the limit is let
  through, namely 4 uploads of a token, 120 requests of a session, 60 of a machine token from an
  address, and 40 logins from an address, however the requests of other callers fall between.
\<close>

theorem request_limits_hold:
  assumes "tidy r" and "sorted (map snd uploads)" and "sorted (map snd requests)"
    and "sorted (map snd polls)" and "sorted (map snd logins)"
  shows "granted ingest_attempt (\<lambda>(o1, t1). Some (ingest_key o1 t1)) k (\<lambda>t. lo \<le> t \<and> t < lo + 1000) uploads r \<le> 4
    \<and> granted (session_attempt env) (\<lambda>i. Some (session_key i)) k (\<lambda>t. lo \<le> t \<and> t < lo + 60000) requests r \<le> 120
    \<and> granted (agent_attempt env) (\<lambda>(tok, ip). Some (agent_key env tok ip)) k
        (\<lambda>t. lo \<le> t \<and> t < lo + 60000) polls r \<le> 60
    \<and> granted (login_attempt env) (\<lambda>(email, ip). login_ip_key env ip) k
        (\<lambda>t. lo \<le> t \<and> t < lo + 60000) logins r \<le> 40"
  using ingest_window.window_bound [OF assms(1,2), of k lo]
    session_window.window_bound [OF assms(1,3), of env k lo]
    agent_window.window_bound [OF assms(1,4), of env k lo]
    login_window.window_bound [OF assms(1,5), of env k lo]
  by (simp add: INGEST_LIMIT_def INGEST_WINDOW_def SESSION_LIMIT_def SESSION_WINDOW_def AGENT_LIMIT_def
      AGENT_WINDOW_def IP_LIMIT_def IP_WINDOW_def seconds_def)

section \<open>The lock of an account\<close>

text \<open>
  The calls of the limiter: a preflight, a failure, and a success, which deletes the counters of the
  account and of the pair but no lock.
\<close>

datatype login_op = Preflight string string int | Failure string string int | Success string string int

fun op_time :: "login_op \<Rightarrow> int" where
  "op_time (Preflight _ _ t) = t"
| "op_time (Failure _ _ t) = t"
| "op_time (Success _ _ t) = t"

fun exec_login :: "limit_env \<Rightarrow> login_op \<Rightarrow> redis \<Rightarrow> redis" where
  "exec_login env (Preflight email ip t) r = snd (preflight env email ip t r)"
| "exec_login env (Failure email ip t) r = snd (record_failure env email ip t r)"
| "exec_login env (Success email ip t) r = snd (record_success env email ip r)"

definition account_lock :: "string \<Rightarrow> string" where
  "account_lock a = ''nexus:login:account:lock:'' @ a"

definition account_of :: "limit_env \<Rightarrow> string \<Rightarrow> string" where
  "account_of env email = hmac env (''account:'' @ py_lower (py_strip email))"

text \<open>The instants of the failures of one account; an address that cannot be parsed is never counted.\<close>

fun own_failure :: "limit_env \<Rightarrow> string \<Rightarrow> login_op \<Rightarrow> bool" where
  "own_failure env a (Failure email ip t) \<longleftrightarrow> account_of env email = a \<and> normal_ip env ip \<noteq> None"
| "own_failure env a (Preflight _ _ _) \<longleftrightarrow> False"
| "own_failure env a (Success _ _ _) \<longleftrightarrow> False"

fun own_success :: "limit_env \<Rightarrow> string \<Rightarrow> login_op \<Rightarrow> bool" where
  "own_success env a (Success email ip t) \<longleftrightarrow> account_of env email = a \<and> normal_ip env ip \<noteq> None"
| "own_success env a (Failure _ _ _) \<longleftrightarrow> False"
| "own_success env a (Preflight _ _ _) \<longleftrightarrow> False"

abbreviation own :: "limit_env \<Rightarrow> string \<Rightarrow> login_op list \<Rightarrow> int list" where
  "own env a ops \<equiv> map op_time (filter (own_failure env a) ops)"

lemma tidy_count_failure:
  "tidy_keys m \<Longrightarrow> tidy_keys (snd (count_failure c l most window lock_time now m))"
  using tidy_hit [of m now c window]
  by (auto simp: count_failure_def del_def set_ex_def tidy_keys_def Let_def split: prod.splits)

lemma count_failure_other:
  "k \<noteq> c \<Longrightarrow> k \<noteq> l \<Longrightarrow> snd (count_failure c l most window lock_time now m) k = m k"
  using hit_other [of k c now window m]
  by (auto simp: count_failure_def del_def set_ex_def Let_def split: prod.splits)

lemma count_failure_own:
  assumes "c \<noteq> l"
  shows "snd (count_failure c l most window lock_time now m) c
      = (if fst (hit now c window m) \<ge> most then None else snd (hit now c window m) c)"
    and "snd (count_failure c l most window lock_time now m) l
      = (if fst (hit now c window m) \<ge> most then Some \<lparr>e_value = 1, e_deadline = Some (now + lock_time)\<rparr> else m l)"
  using assms hit_other [of l c now window m]
  by (auto simp: count_failure_def del_def set_ex_def Let_def split: prod.splits)

lemma login_keysD:
  "login_keys env email ip = Some (k1, k2, k3, k4)
   \<Longrightarrow> (\<exists>source. normal_ip env ip = Some source \<and> k1 = ''nexus:login:ip:attempts:'' @ hmac env (''ip:'' @ source)
      \<and> k3 = ''nexus:login:pair:lock:'' @ hmac env (''pair:'' @ source @ '':'' @ py_lower (py_strip email)))
     \<and> k2 = account_lock (account_of env email) \<and> k4 = account_of env email"
  by (auto simp: login_keys_def Let_def account_lock_def account_of_def split: option.splits)

lemma family_keys:
  "account_counter a \<noteq> account_lock b" "account_counter a \<noteq> pair_counter p"
  "account_lock a \<noteq> pair_counter p" "account_lock a \<noteq> ''nexus:login:pair:lock:'' @ x"
  "account_counter a \<noteq> ''nexus:login:pair:lock:'' @ x" "account_counter a = account_counter b \<longleftrightarrow> a = b"
  "account_lock a = account_lock b \<longleftrightarrow> a = b" "account_counter a \<noteq> ''nexus:login:ip:attempts:'' @ x"
  "account_lock a \<noteq> ''nexus:login:ip:attempts:'' @ x"
  by (simp_all add: account_counter_def account_lock_def pair_counter_def)

lemmas family_neq = family_keys family_keys(1-5,8,9) [THEN not_sym]

lemma login_keys_None: "login_keys env email ip = None \<longleftrightarrow> normal_ip env ip = None"
  by (auto simp: login_keys_def Let_def split: option.splits)

lemma exec_failure:
  assumes "r_link r = Up" and "login_keys env email ip = Some (k1, k2, k3, k4)"
  shows "exec_login env (Failure email ip t) r = r\<lparr>r_keys := snd (failure_script (account_counter k4) k2
     (pair_counter k3) k3 t (r_keys r))\<rparr>"
  using assms by (simp add: record_failure_def with_keys_def redis_eval_def eff_defs split: prod.splits)

lemma failure_script_keys:
  "snd (failure_script a al p pl t m) = snd (count_failure p pl PAIR_FAILURE_LIMIT (seconds PAIR_WINDOW)
     (seconds PAIR_LOCK) t (snd (count_failure a al ACCOUNT_FAILURE_LIMIT (seconds ACCOUNT_WINDOW)
       (seconds ACCOUNT_LOCK) t m)))"
  by (simp add: failure_script_def Let_def split: prod.splits)

lemma exec_preflight:
  assumes "tidy r"
  shows "exec_login env (Preflight email ip t) r = (case login_ip_key env ip of None \<Rightarrow> r
     | Some key \<Rightarrow> r\<lparr>r_keys := snd (hit t key (seconds IP_WINDOW) (r_keys r))\<rparr>)"
proof -
  have "snd (let_through (preflight env email ip t) r) = snd (preflight env email ip t r)"
    by (auto simp: let_through_def split: prod.splits sum.splits)
  then show ?thesis using preflight_step [OF assms, of env email ip t]
    by (auto simp: counted_step_def split: option.splits)
qed

lemma exec_success:
  "r_link r = Up \<Longrightarrow> exec_login env (Success email ip t) r = (case login_keys env email ip of None \<Rightarrow> r
     | Some (k1, k2, k3, k4) \<Rightarrow> r\<lparr>r_keys := del (pair_counter k3) (del (account_counter k4) (r_keys r))\<rparr>)"
  by (auto simp: record_success_def with_keys_def redis_eval_def success_script_def eff_defs split: option.splits)

lemma tidy_exec: "tidy r \<Longrightarrow> tidy (exec_login env op r)"
proof (cases op)
  case (Preflight email ip t)
  assume "tidy r"
  then show ?thesis
    by (auto simp: Preflight exec_preflight tidy_def tidy_hit simp del: exec_login.simps split: option.splits)
next
  case (Failure email ip t)
  assume r: "tidy r"
  show ?thesis
  proof (cases "login_keys env email ip")
    case None
    with r show ?thesis by (simp add: Failure record_failure_def with_keys_def eff_defs)
  next
    case (Some k)
    obtain k1 k2 k3 k4 where k: "k = (k1, k2, k3, k4)" by (metis prod.collapse)
    from r show ?thesis using exec_failure [of r env email ip k1 k2 k3 k4 t] Some
      by (simp add: Failure k tidy_def failure_script_keys tidy_count_failure)
  qed
next
  case (Success email ip t)
  assume "tidy r"
  then show ?thesis
    by (auto simp: Success exec_success tidy_def tidy_keys_def del_def simp del: exec_login.simps split: option.splits)
qed

text \<open>What an operation does to the counter and the lock of an account.\<close>

lemma exec_not_own:
  assumes "tidy r" and "\<not> own_failure env a op"
    and "k = account_counter a \<and> \<not> own_success env a op \<or> k = account_lock a"
  shows "r_keys (exec_login env op r) k = r_keys r k"
proof (cases op)
  case (Preflight email ip t)
  have "k \<noteq> key" if "login_ip_key env ip = Some key" for key
    using assms(3) that by (auto simp: login_ip_key_def account_counter_def account_lock_def)
  then show ?thesis using assms(1)
    by (auto simp: Preflight exec_preflight hit_other simp del: exec_login.simps split: option.splits)
next
  case (Failure email ip t)
  show ?thesis
  proof (cases "login_keys env email ip")
    case None
    then show ?thesis by (simp add: Failure record_failure_def with_keys_def eff_defs)
  next
    case (Some ks)
    obtain k1 k2 k3 k4 where ks: "ks = (k1, k2, k3, k4)" by (metis prod.collapse)
    note keys = login_keysD [OF Some [unfolded ks]]
    have "account_of env email \<noteq> a" using assms(2) keys by (auto simp: Failure)
    then have "k \<noteq> account_counter k4" "k \<noteq> k2" "k \<noteq> pair_counter k3" "k \<noteq> k3"
      using assms(3) keys by (auto simp: account_counter_def account_lock_def pair_counter_def)
    then show ?thesis using exec_failure [of r env email ip k1 k2 k3 k4 t] Some assms(1)
      by (simp add: Failure ks tidy_def failure_script_keys count_failure_other)
  qed
next
  case (Success email ip t)
  show ?thesis
  proof (cases "login_keys env email ip")
    case None
    then show ?thesis using assms(1) by (simp add: Success exec_success tidy_def del: exec_login.simps)
  next
    case (Some ks)
    obtain k1 k2 k3 k4 where ks: "ks = (k1, k2, k3, k4)" by (metis prod.collapse)
    note keys = login_keysD [OF Some [unfolded ks]]
    have "k \<noteq> account_counter k4" "k \<noteq> pair_counter k3"
      using assms(3) keys by (auto simp: Success account_counter_def account_lock_def pair_counter_def)
    then show ?thesis using assms(1) Some
      by (simp add: Success ks exec_success tidy_def del_def del: exec_login.simps)
  qed
qed

lemma exec_own:
  assumes "tidy r" and "own_failure env a op"
  shows "r_keys (exec_login env op r) (account_counter a)
      = (if fst (hit (op_time op) (account_counter a) (seconds ACCOUNT_WINDOW) (r_keys r)) \<ge> ACCOUNT_FAILURE_LIMIT
         then None else snd (hit (op_time op) (account_counter a) (seconds ACCOUNT_WINDOW) (r_keys r)) (account_counter a))"
    and "r_keys (exec_login env op r) (account_lock a)
      = (if fst (hit (op_time op) (account_counter a) (seconds ACCOUNT_WINDOW) (r_keys r)) \<ge> ACCOUNT_FAILURE_LIMIT
         then Some \<lparr>e_value = 1, e_deadline = Some (op_time op + seconds ACCOUNT_LOCK)\<rparr>
         else r_keys r (account_lock a))"
proof -
  obtain email ip t where op: "op = Failure email ip t" using assms(2) by (cases op) auto
  obtain k1 k2 k3 k4 where Some: "login_keys env email ip = Some (k1, k2, k3, k4)"
    using assms(2) login_keys_None [of env email ip] by (auto simp: op)
  note keys = login_keysD [OF Some]
  have a: "k4 = a" "k2 = account_lock a" using assms(2) keys by (auto simp: op)
  have "account_counter a \<noteq> pair_counter k3" "account_counter a \<noteq> k3" "account_lock a \<noteq> pair_counter k3"
    "account_lock a \<noteq> k3" using keys by (auto simp: account_counter_def account_lock_def pair_counter_def)
  note ne = this
  have up: "r_link r = Up" using assms(1) by (simp add: tidy_def)
  show "r_keys (exec_login env op r) (account_counter a)
      = (if fst (hit (op_time op) (account_counter a) (seconds ACCOUNT_WINDOW) (r_keys r)) \<ge> ACCOUNT_FAILURE_LIMIT
         then None else snd (hit (op_time op) (account_counter a) (seconds ACCOUNT_WINDOW) (r_keys r)) (account_counter a))"
    unfolding op exec_failure [OF up Some] failure_script_keys a
    by (simp add: count_failure_other ne count_failure_own(1) family_keys)
  show "r_keys (exec_login env op r) (account_lock a)
      = (if fst (hit (op_time op) (account_counter a) (seconds ACCOUNT_WINDOW) (r_keys r)) \<ge> ACCOUNT_FAILURE_LIMIT
         then Some \<lparr>e_value = 1, e_deadline = Some (op_time op + seconds ACCOUNT_LOCK)\<rparr>
         else r_keys r (account_lock a))"
    unfolding op exec_failure [OF up Some] failure_script_keys a
    by (simp add: count_failure_other ne count_failure_own(2) family_keys)
qed

definition exec_logins :: "limit_env \<Rightarrow> login_op list \<Rightarrow> redis \<Rightarrow> redis" where
  "exec_logins env ops r = fold (exec_login env) ops r"

lemma exec_logins_simps [simp]:
  "exec_logins env [] r = r" "exec_logins env (op # ops) r = exec_logins env ops (exec_login env op r)"
  "exec_logins env (ops @ later) r = exec_logins env later (exec_logins env ops r)"
  by (simp_all add: exec_logins_def)

interpretation logins: op_system "exec_login env" tidy
  by unfold_locales (rule tidy_exec)

lemma tidy_logins: "tidy r \<Longrightarrow> tidy (exec_logins env ops r)"
  unfolding exec_logins_def by (rule logins.run_good)

text \<open>A lock is never shortened.\<close>

definition locked_until_at :: "string \<Rightarrow> int \<Rightarrow> redis \<Rightarrow> bool" where
  "locked_until_at a d r \<longleftrightarrow> (\<exists>e d'. r_keys r (account_lock a) = Some e \<and> e_deadline e = Some d' \<and> d \<le> d')"

lemma lock_kept:
  "tidy r \<Longrightarrow> locked_until_at a d r \<Longrightarrow> \<forall>op\<in>set ops. d \<le> op_time op + seconds ACCOUNT_LOCK
   \<Longrightarrow> locked_until_at a d (exec_logins env ops r)"
proof (induction ops arbitrary: r)
  case (Cons op ops)
  have "locked_until_at a d (exec_login env op r)"
  proof (cases "own_failure env a op")
    case True
    from exec_own(2) [OF Cons.prems(1) True] Cons.prems show ?thesis by (auto simp: locked_until_at_def)
  next
    case False
    from exec_not_own [OF Cons.prems(1) False] Cons.prems(2) show ?thesis by (simp add: locked_until_at_def)
  qed
  with Cons tidy_exec show ?case by simp
qed simp

text \<open>\<open>n\<close> failures are on the counter, which lives until \<open>d\<close>; the missing ones come before \<open>d\<close>.\<close>

lemma counter_reaches_lock:
  assumes "tidy r" and "r_keys r (account_counter a) = Some \<lparr>e_value = n, e_deadline = Some d\<rparr>"
    and "n + int (length (own env a ops)) = ACCOUNT_FAILURE_LIMIT" and "\<forall>t\<in>set (own env a ops). t < d"
    and "own env a ops \<noteq> []" and "\<not> list_ex (own_success env a) ops"
  shows "locked_until_at a (last (own env a ops) + seconds ACCOUNT_LOCK) (exec_logins env ops r)"
  using assms
proof (induction ops arbitrary: r n)
  case (Cons op ops)
  show ?case
  proof (cases "own_failure env a op")
    case False
    from exec_not_own [OF Cons.prems(1) False] Cons tidy_exec [OF Cons.prems(1)] False
    show ?thesis by simp
  next
    case True
    let ?t = "op_time op" and ?c = "account_counter a"
    have keys: "tidy_keys (r_keys r)" using Cons.prems(1) by (simp add: tidy_def)
    have "live ?t ?c (r_keys r) = Some \<lparr>e_value = n, e_deadline = Some d\<rparr>"
      using Cons.prems(2,4) True keys by (simp add: live_tidy)
    from hit_live [OF keys this] have hit: "hit ?t ?c (seconds ACCOUNT_WINDOW) (r_keys r)
        = (n + 1, (r_keys r)(?c \<mapsto> \<lparr>e_value = n + 1, e_deadline = Some d\<rparr>))" by simp
    show ?thesis
    proof (cases "own env a ops = []")
      case last: True
      then have "n + 1 = ACCOUNT_FAILURE_LIMIT" using Cons.prems(3) True by simp
      with exec_own(2) [OF Cons.prems(1) True] hit
      have "locked_until_at a (?t + seconds ACCOUNT_LOCK) (exec_login env op r)" by (simp add: locked_until_at_def)
      moreover have "r_keys (exec_logins env ops s) (account_lock a) = r_keys s (account_lock a)" if "tidy s" for s
        using that last
      proof (induction ops arbitrary: s)
        case (Cons x xs)
        then have "\<not> own_failure env a x" by (auto split: if_splits)
        from exec_not_own [OF Cons.prems(1) this] Cons tidy_exec show ?case by (auto split: if_splits)
      qed simp
      ultimately show ?thesis using last True tidy_exec [OF Cons.prems(1)] by (simp add: locked_until_at_def)
    next
      case more: False
      then have "0 < length (own env a ops)" by (simp only: length_greater_0_conv not_False_eq_True)
      moreover have "n + 1 + int (length (own env a ops)) = ACCOUNT_FAILURE_LIMIT" using Cons.prems(3) True by simp
      ultimately have "n + 1 < ACCOUNT_FAILURE_LIMIT" by linarith
      with exec_own(1) [OF Cons.prems(1) True] hit
      have "r_keys (exec_login env op r) ?c = Some \<lparr>e_value = n + 1, e_deadline = Some d\<rparr>" by simp
      from Cons.IH [OF tidy_exec [OF Cons.prems(1)] this] Cons.prems more True show ?thesis by simp
    qed
  qed
qed simp

lemma first_failures_lock:
  assumes "tidy r" and "\<not> list_ex (own_success env a) ops"
    and "int (length (own env a ops)) = ACCOUNT_FAILURE_LIMIT"
    and "\<forall>t\<in>set (own env a ops). t < hd (own env a ops) + seconds ACCOUNT_WINDOW
           \<and> live t (account_counter a) (r_keys r) = None"
  shows "locked_until_at a (last (own env a ops) + seconds ACCOUNT_LOCK) (exec_logins env ops r)"
  using assms
proof (induction ops arbitrary: r)
  case Nil
  then show ?case by (simp add: ACCOUNT_FAILURE_LIMIT_def)
next
  case (Cons op ops)
  show ?case
  proof (cases "own_failure env a op")
    case False
    from exec_not_own [OF Cons.prems(1) False] Cons.prems(2)
    have "live t (account_counter a) (r_keys (exec_login env op r)) = live t (account_counter a) (r_keys r)" for t
      by (simp add: live_def)
    with Cons tidy_exec [OF Cons.prems(1)] False show ?thesis by simp
  next
    case True
    let ?t = "op_time op" and ?c = "account_counter a"
    have "live ?t ?c (r_keys r) = None" using Cons.prems(4) True by simp
    note hit = hit_new [OF this, of "seconds ACCOUNT_WINDOW"]
    from exec_own(1) [OF Cons.prems(1) True] hit
    have c: "r_keys (exec_login env op r) ?c = Some \<lparr>e_value = 1, e_deadline = Some (?t + seconds ACCOUNT_WINDOW)\<rparr>"
      by (simp add: ACCOUNT_FAILURE_LIMIT_def)
    have rest: "own env a ops \<noteq> []" using Cons.prems(3) True by (auto simp: ACCOUNT_FAILURE_LIMIT_def)
    from counter_reaches_lock [OF tidy_exec [OF Cons.prems(1)] c _ _ rest] Cons.prems True rest
    show ?thesis by simp
  qed
qed

lemma preflight_blocks:
  assumes "tidy r" and "normal_ip env ip \<noteq> None"
    and "\<And>k. k \<noteq> account_lock (account_of env email) \<Longrightarrow>
      1 \<le> time_left (secs env) now (account_lock (account_of env email)) (snd (hit now k (seconds IP_WINDOW) (r_keys r)))"
  shows "(\<exists>pf. fst (preflight env email ip now r) = Inr pf \<and> credentials_blocked pf)
    \<or> (\<exists>n. fst (preflight env email ip now r) = Inl (Limited n))"
proof -
  obtain k1 k2 k3 k4 where Some: "login_keys env email ip = Some (k1, k2, k3, k4)"
    using assms(2) login_keys_None [of env email ip] by auto
  note keys = login_keysD [OF Some]
  have "k1 \<noteq> account_lock (account_of env email)" using keys by (auto simp: account_lock_def)
  with assms(3) keys have "1 \<le> time_left (secs env) now k2 (snd (hit now k1 (seconds IP_WINDOW) (r_keys r)))" by simp
  then show ?thesis
    using assms(1) Some
    by (auto simp: preflight_def with_keys_def redis_eval_def tidy_def eff_defs preflight_script_def Let_def
        split: prod.splits)
qed

text \<open>
  When five failures of one account are recorded within a quarter of an hour, the first on an empty
  counter and none followed by a success of the account, then from the fifth until a second before a
  quarter of an hour has passed every \<open>preflight\<close> for that account reports its credentials blocked, or
  refuses the address, whatever is recorded in between, successes included.
\<close>

lemma account_lockout:
  assumes "tidy r" and "a = account_of env email"
    and "length (own env a ops) = 5" and "\<not> list_ex (own_success env a) ops"
    and "\<forall>t\<in>set (own env a ops). hd (own env a ops) \<le> t \<and> t < hd (own env a ops) + 900000"
    and "live (hd (own env a ops)) (account_counter a) (r_keys r) = None"
    and "\<forall>op\<in>set later. last (own env a ops) \<le> op_time op"
    and "\<forall>ms\<ge>1000. 1 \<le> secs env ms" and "normal_ip env ip \<noteq> None"
    and "now + 1000 \<le> last (own env a ops) + 900000"
  shows "(\<exists>pf. fst (preflight env email ip now (exec_logins env (ops @ later) r)) = Inr pf \<and> credentials_blocked pf)
    \<or> (\<exists>n. fst (preflight env email ip now (exec_logins env (ops @ later) r)) = Inl (Limited n))"
proof -
  let ?d = "last (own env a ops) + seconds ACCOUNT_LOCK" and ?s = "exec_logins env (ops @ later) r"
  have "locked_until_at a ?d (exec_logins env ops r)"
  proof (rule first_failures_lock)
    have keys: "tidy_keys (r_keys r)" using assms(1) by (simp add: tidy_def)
    have "live t (account_counter a) (r_keys r) = None" if "hd (own env a ops) \<le> t" for t
      using assms(6) that unfolding live_None_tidy [OF keys] by force
    then show "\<forall>t\<in>set (own env a ops). t < hd (own env a ops) + seconds ACCOUNT_WINDOW
        \<and> live t (account_counter a) (r_keys r) = None"
      using assms(5) by (simp add: ACCOUNT_WINDOW_def seconds_def)
  qed (use assms in \<open>simp_all add: ACCOUNT_FAILURE_LIMIT_def\<close>)
  then have "locked_until_at a ?d ?s"
    by (simp add: lock_kept tidy_logins assms(1,7))
  then have "1 \<le> time_left (secs env) now (account_lock a) (snd (hit now k (seconds IP_WINDOW) (r_keys ?s)))"
    if "k \<noteq> account_lock a" for k
    using assms(8,10) that hit_other [of "account_lock a" k]
    by (auto simp: locked_until_at_def time_left_def live_def seconds_def ACCOUNT_LOCK_def)
  then show ?thesis
    using tidy_logins [OF assms(1), of env "ops @ later"] preflight_blocks assms(2,9) by blast
qed

section \<open>Concrete runs\<close>

definition plain_limits :: limit_env where
  "plain_limits = \<lparr>hmac = (\<lambda>s. s), normal_ip = Some, secs = (\<lambda>ms. ms div 1000)\<rparr>"

definition empty_redis :: redis where
  "empty_redis = \<lparr>r_keys = Map.empty, r_link = Up\<rparr>"

definition guesses :: "login_op list" where
  "guesses = [Preflight ''a@b.co'' ''10.0.0.1'' 0, Failure ''a@b.co'' ''10.0.0.1'' 5, Failure ''A@b.co '' ''10.0.0.2'' 1000,
     Failure ''c@d.co'' ''10.0.0.2'' 2000, Success ''c@d.co'' ''10.0.0.2'' 2500, Failure ''a@b.co'' ''10.0.0.3'' 3000, Failure ''a@b.co'' ''10.0.0.4'' 4000,
     Failure ''a@b.co'' ''10.0.0.1'' 5000]"

lemma tidy_empty: "tidy empty_redis"
  by (simp add: tidy_def tidy_keys_def empty_redis_def)

lemma request_limits_hold_witness:
  "granted ingest_attempt (\<lambda>(o1, t1). Some (ingest_key o1 t1)) (ingest_key 1 2) (\<lambda>t. 0 \<le> t \<and> t < 0 + 1000)
      [((1, 2), 0), ((1, 2), 10), ((1, 2), 20)] empty_redis \<le> 4
   \<and> granted (session_attempt plain_limits) (\<lambda>i. Some (session_key i)) (ingest_key 1 2)
      (\<lambda>t. 0 \<le> t \<and> t < 0 + 60000) [(7, 0)] empty_redis \<le> 120"
  using request_limits_hold [OF tidy_empty, of "[((1, 2), 0), ((1, 2), 10), ((1, 2), 20)]" "[(7, 0)]" "[]" "[]"
      "ingest_key 1 2" 0 plain_limits]
  by simp

lemma no_success_guesses: "\<not> list_ex (own_success plain_limits (account_of plain_limits ''a@b.co'')) guesses"
  by code_simp

lemma own_guesses: "own plain_limits (account_of plain_limits ''a@b.co'') guesses = [5, 1000, 3000, 4000, 5000]"
  by code_simp

end
