(* ===== verification/Auth_Store.thy ===== *)
theory Auth_Store
  imports Redis_Limits
begin

text \<open>
  The tables of accounts, sessions and roles with their constraints and row policies, and the
  statements of \<open>backend/app/auth/postgres.py\<close>, class \<open>PostgresLoginRepository\<close>.

  A unit of work is a connection: the tables, the database role, the session settings
  (\<open>app.current_user_id\<close> and so on) that the row policies read, the instant of the transaction, and the
  attributes the repository keeps in Python. It commits or leaves the tables as they were. The
  policies are those in force after migration 0020; an UPDATE sees the rows that both its own policy
  and the policy for SELECT admit, as PostgreSQL does for a statement with a WHERE clause.
  Instants are microseconds.
\<close>

section \<open>Rows\<close>

record user_row =
  us_id :: uuid
  us_email :: string
  us_password :: string
  us_name :: string
  us_active :: bool
  us_failed :: int
  us_locked_until :: "int option"

record org_row =
  og_id :: uuid
  og_name :: string
  og_active :: bool

record member_row =
  mm_org :: uuid
  mm_user :: uuid
  mm_active :: bool

record session_row =
  ss_id :: uuid
  ss_org :: "uuid option"
  ss_user :: uuid
  ss_token :: bytes
  ss_csrf :: bytes
  ss_expires :: int
  ss_last_seen :: int
  ss_revoked :: bool
  ss_agent :: "string option"
  ss_ip :: "string option"
  ss_created :: int

record reset_row =
  rs_id :: uuid
  rs_user :: uuid
  rs_hash :: bytes
  rs_created :: int
  rs_expires :: int
  rs_used :: "int option"
  rs_revoked :: bool

record event_row =
  ev_id :: uuid
  ev_org :: "uuid option"
  ev_actor :: "uuid option"
  ev_actor_type :: string
  ev_ip :: "string option"
  ev_agent :: "string option"
  ev_action :: string
  ev_resource_type :: string
  ev_resource :: "uuid option"
  ev_status :: string
  ev_details :: "(string \<times> string) list"

record role_row =
  ro_id :: uuid
  ro_org :: "uuid option"
  ro_name :: string
  ro_system :: bool

record user_role_row =
  ur_org :: uuid
  ur_user :: uuid
  ur_scope :: uuid
  ur_role :: uuid

record role_permission_row =
  rp_scope :: uuid
  rp_role :: uuid
  rp_permission :: uuid

record permission_row =
  pm_id :: uuid
  pm_name :: string

record auth_db =
  online :: bool
  collation :: "string \<Rightarrow> nat"
  accounts :: "user_row list"
  orgs :: "org_row list"
  members :: "member_row list"
  sessions :: "session_row list"
  resets :: "reset_row list"
  events :: "(event_row \<times> int) list"
  roles :: "role_row list"
  user_roles :: "user_role_row list"
  role_permissions :: "role_permission_row list"
  permissions :: "permission_row list"

datatype auth_error =
    AuthenticationRejected | SessionRejected | CsrfRejected | SessionUnavailable
  | ContextSelectionRejected | PasswordResetRejected | PasswordResetUnavailable
  | LoginUnavailable | LimiterUnavailable | RequestLimited int | BadAddress
  | StatementFailed | ContextMissing | ConnectionFailed
  | AdministrationDenied | MembershipNotFound | InvalidRole | InvalidLimit

section \<open>The unit of work\<close>

datatype db_role = AuthUser | AppUser

record conn =
  c_db :: auth_db
  c_role :: db_role
  c_user :: "uuid option"
  c_token :: "bytes option"
  c_org :: "uuid option"
  c_clock :: int
  c_verified :: "uuid option"
  c_session :: "(uuid \<times> uuid) option"
  c_reset :: "(uuid \<times> uuid) option"
  c_reset_user :: "uuid option"

type_synonym 'a ceff = "(conn, auth_error, 'a) eff"
type_synonym 'a deff = "(auth_db, auth_error, 'a) eff"

definition fresh_conn :: "int \<Rightarrow> auth_db \<Rightarrow> conn" where
  "fresh_conn clock db = \<lparr>c_db = db, c_role = AuthUser, c_user = None, c_token = None, c_org = None,
     c_clock = clock, c_verified = None, c_session = None, c_reset = None, c_reset_user = None\<rparr>"

text \<open>\<open>async with repository_factory() as repository\<close>.\<close>

definition unit_of_work :: "int \<Rightarrow> 'a ceff \<Rightarrow> 'a deff" where
  "unit_of_work clock m db = (if \<not> online db then (Inl ConnectionFailed, db)
     else case m (fresh_conn clock db) of
       (Inl e, c) \<Rightarrow> (Inl e, db) | (Inr a, c) \<Rightarrow> (Inr a, c_db c))"

text \<open>The wrapper of every application service: named errors pass, any other becomes the service's own.\<close>

definition surfaces :: "auth_error set \<Rightarrow> auth_error \<Rightarrow> 'a deff \<Rightarrow> 'a deff" where
  "surfaces named fallback m = catchE m (\<lambda>e. raise (if e \<in> named then e else fallback))"

definition db_writes :: "(auth_db \<Rightarrow> auth_db) \<Rightarrow> unit ceff" where
  "db_writes g = writes (\<lambda>c. c\<lparr>c_db := g (c_db c)\<rparr>)"

section \<open>Row policies\<close>

definition own_membership :: "conn \<Rightarrow> member_row \<Rightarrow> bool" where
  "own_membership c m \<longleftrightarrow> c_user c = Some (mm_user m) \<and> mm_active m"

definition belongs_to :: "conn \<Rightarrow> uuid \<Rightarrow> bool" where
  "belongs_to c org \<longleftrightarrow> list_ex (\<lambda>m. own_membership c m \<and> mm_org m = org) (members (c_db c))"

definition visible_org :: "conn \<Rightarrow> org_row \<Rightarrow> bool" where
  "visible_org c g \<longleftrightarrow> og_active g \<and> belongs_to c (og_id g)"

definition visible_session :: "conn \<Rightarrow> session_row \<Rightarrow> bool" where
  "visible_session c s \<longleftrightarrow> c_token c = Some (ss_token s)"

definition updatable_session :: "conn \<Rightarrow> session_row \<Rightarrow> bool" where
  "updatable_session c s \<longleftrightarrow> c_user c = Some (ss_user s) \<and> c_token c = Some (ss_token s)"

definition insertable_session :: "conn \<Rightarrow> session_row \<Rightarrow> bool" where
  "insertable_session c s \<longleftrightarrow> c_user c = Some (ss_user s)
     \<and> (case ss_org s of None \<Rightarrow> True | Some org \<Rightarrow> belongs_to c org)"

definition global_auth_actions :: "string list" where
  "global_auth_actions = [''AUTH.LOGIN_SUCCESS'', ''AUTH.LOGIN_FAILURE'', ''AUTH.LOGIN_BLOCKED'', ''AUTH.LOGOUT'',
     ''AUTH.PASSWORD_RESET_REQUESTED'', ''AUTH.PASSWORD_RESET_SUCCESS'']"

definition insertable_event :: "conn \<Rightarrow> event_row \<Rightarrow> bool" where
  "insertable_event c e \<longleftrightarrow> (case c_role c of
     AuthUser \<Rightarrow> (case ev_org e of None \<Rightarrow> ev_action e \<in> set global_auth_actions | Some org \<Rightarrow> belongs_to c org)
   | AppUser \<Rightarrow> ev_org e \<noteq> None \<and> ev_org e = c_org c)"

section \<open>Constraints\<close>

definition user_checks :: "user_row \<Rightarrow> bool" where
  "user_checks u \<longleftrightarrow> 0 \<le> us_failed u \<and> us_failed u \<le> 5 \<and> take 10 (us_password u) = ''$argon2id$''
     \<and> us_email u = py_lower (btrim (us_email u)) \<and> 3 \<le> length (us_email u) \<and> length (us_email u) \<le> 255
     \<and> 1 \<le> length (btrim (us_name u)) \<and> length (btrim (us_name u)) \<le> 150"

definition session_checks :: "auth_db \<Rightarrow> session_row \<Rightarrow> bool" where
  "session_checks db s \<longleftrightarrow> ss_created s < ss_expires s \<and> ss_created s \<le> ss_last_seen s
     \<and> ss_user s \<in> us_id ` set (accounts db)
     \<and> (case ss_org s of None \<Rightarrow> True
        | Some org \<Rightarrow> (org, ss_user s) \<in> (\<lambda>m. (mm_org m, mm_user m)) ` set (members db))"

definition update_users :: "(user_row \<Rightarrow> bool) \<Rightarrow> (user_row \<Rightarrow> user_row) \<Rightarrow> nat ceff" where
  "update_users P f = bindE (reads (accounts \<circ> c_db)) (\<lambda>rows.
     if list_ex (\<lambda>u. P u \<and> \<not> user_checks (f u)) rows then raise StatementFailed
     else bindE (db_writes (\<lambda>db. db\<lparr>accounts := update_where P f (accounts db)\<rparr>)) (\<lambda>_. ret (rowcount P rows)))"

definition update_sessions :: "(session_row \<Rightarrow> bool) \<Rightarrow> (session_row \<Rightarrow> session_row) \<Rightarrow> nat ceff" where
  "update_sessions P f = bindE (reads id) (\<lambda>c.
     let Q = (\<lambda>s. P s \<and> visible_session c s \<and> updatable_session c s)
     in if list_ex (\<lambda>s. Q s \<and> \<not> session_checks (c_db c) (f s)) (sessions (c_db c)) then raise StatementFailed
        else bindE (db_writes (\<lambda>db. db\<lparr>sessions := update_where Q f (sessions db)\<rparr>))
          (\<lambda>_. ret (rowcount Q (sessions (c_db c)))))"

definition insert_session :: "session_row \<Rightarrow> unit ceff" where
  "insert_session s = bindE (reads id) (\<lambda>c.
     if \<not> insertable_session c s \<or> \<not> session_checks (c_db c) s
        \<or> list_ex (\<lambda>r. ss_id r = ss_id s \<or> ss_token r = ss_token s) (sessions (c_db c))
     then raise StatementFailed
     else db_writes (\<lambda>db. db\<lparr>sessions := sessions db @ [s]\<rparr>))"

definition update_resets :: "(reset_row \<Rightarrow> bool) \<Rightarrow> (reset_row \<Rightarrow> reset_row) \<Rightarrow> nat ceff" where
  "update_resets P f = bindE (reads (resets \<circ> c_db)) (\<lambda>rows.
     bindE (db_writes (\<lambda>db. db\<lparr>resets := update_where P f (resets db)\<rparr>)) (\<lambda>_. ret (rowcount P rows)))"

definition insert_reset :: "reset_row \<Rightarrow> unit ceff" where
  "insert_reset r = bindE (reads c_db) (\<lambda>db.
     if rs_id r \<in> rs_id ` set (resets db) \<or> \<not> rs_created r < rs_expires r \<or> rs_user r \<notin> us_id ` set (accounts db)
     then raise StatementFailed
     else db_writes (\<lambda>db. db\<lparr>resets := resets db @ [r]\<rparr>))"

text \<open>\<open>append_audit\<close>; the key of \<open>audit_logs\<close> is scope, identifier and the instant of the transaction.\<close>

definition append_event :: "event_row \<Rightarrow> unit ceff" where
  "append_event e = bindE (reads id) (\<lambda>c.
     if \<not> insertable_event c e \<or> (ev_org e \<noteq> None \<and> the (ev_org e) \<notin> og_id ` set (orgs (c_db c)))
        \<or> list_ex (\<lambda>(x, at). ev_org x = ev_org e \<and> ev_id x = ev_id e \<and> at = c_clock c) (events (c_db c))
     then raise StatementFailed
     else db_writes (\<lambda>db. db\<lparr>events := events db @ [(e, c_clock c)]\<rparr>))"

section \<open>The repository\<close>

definition MINUTE :: int where "MINUTE = 60 * 1000000"

record credential =
  cr_user :: uuid
  cr_password :: string
  cr_active :: bool
  cr_locked_until :: "int option"

definition find_by_email :: "string \<Rightarrow> credential option ceff" where
  "find_by_email email = reads (\<lambda>c. map_option
     (\<lambda>u. \<lparr>cr_user = us_id u, cr_password = us_password u, cr_active = us_active u,
           cr_locked_until = us_locked_until u\<rparr>)
     (first_row (select_where (\<lambda>u. us_email u = email) (accounts (c_db c)))))"

definition set_current_user :: "uuid \<Rightarrow> unit ceff" where
  "set_current_user u = writes (\<lambda>c. c\<lparr>c_user := Some u\<rparr>)"

text \<open>\<open>current_session_token_hash\<close> reads the setting as 64 hexadecimal digits.\<close>

definition set_current_token :: "bytes \<Rightarrow> unit ceff" where
  "set_current_token h = writes (\<lambda>c. c\<lparr>c_token := (if length h = 32 then Some h else None)\<rparr>)"

definition get_user_profile :: "uuid \<Rightarrow> (string \<times> string) ceff" where
  "get_user_profile u = bindE (set_current_user u) (\<lambda>_. bindE (reads id) (\<lambda>c.
     case first_row (select_where (\<lambda>r. us_id r = u \<and> us_active r) (accounts (c_db c))) of
       None \<Rightarrow> raise ContextMissing | Some r \<Rightarrow> ret (us_email r, us_name r)))"

text \<open>
  Memberships joined with organisations, both filtered by their policies, by name and then identifier;
  how names compare is the collation of the database.
\<close>

definition active_orgs :: "uuid \<Rightarrow> conn \<Rightarrow> (uuid \<times> string) list" where
  "active_orgs u c = map (\<lambda>g. (og_id g, og_name g)) (order_by (collation (c_db c) \<circ> og_name) (order_by og_id
     (concat (map (\<lambda>m. select_where (\<lambda>g. og_id g = mm_org m \<and> visible_org c g \<and> og_active g) (orgs (c_db c)))
        (select_where (\<lambda>m. own_membership c m \<and> mm_user m = u \<and> mm_active m) (members (c_db c)))))))"

definition list_active_for_user :: "uuid \<Rightarrow> (uuid \<times> string) list ceff" where
  "list_active_for_user u = bindE (set_current_user u) (\<lambda>_. bindE (reads (active_orgs u)) (\<lambda>rows.
     bindE (writes (\<lambda>c. c\<lparr>c_verified := Some u\<rparr>)) (\<lambda>_. ret rows)))"

record creation =
  cn_session :: uuid
  cn_user :: uuid
  cn_org :: "uuid option"
  cn_token :: bytes
  cn_csrf :: bytes
  cn_expires :: int
  cn_last_seen :: int
  cn_agent :: "string option"
  cn_address :: "string option"

definition replace_for_login :: "creation \<Rightarrow> bytes option \<Rightarrow> unit ceff" where
  "replace_for_login new previous = bindE (reads c_verified) (\<lambda>verified.
     if verified \<noteq> Some (cn_user new) then raise ContextMissing
     else bindE (case previous of None \<Rightarrow> ret ()
        | Some h \<Rightarrow> bindE (set_current_token h) (\<lambda>_.
            bindE (update_sessions (\<lambda>s. ss_user s = cn_user new \<and> \<not> ss_revoked s) (\<lambda>s. s\<lparr>ss_revoked := True\<rparr>))
              (\<lambda>_. ret ()))) (\<lambda>_.
       insert_session \<lparr>ss_id = cn_session new, ss_org = cn_org new, ss_user = cn_user new, ss_token = cn_token new,
         ss_csrf = cn_csrf new, ss_expires = cn_expires new, ss_last_seen = cn_last_seen new, ss_revoked = False,
         ss_agent = cn_agent new, ss_ip = cn_address new, ss_created = cn_last_seen new\<rparr>))"

definition after_failure :: "int \<Rightarrow> user_row \<Rightarrow> user_row" where
  "after_failure now u = (case us_locked_until u of
     Some l \<Rightarrow> if l > now then u else u\<lparr>us_failed := 1, us_locked_until := None\<rparr>
   | None \<Rightarrow> u\<lparr>us_failed := min (us_failed u + 1) 5,
       us_locked_until := (if us_failed u + 1 \<ge> 5 then Some (now + 15 * MINUTE) else None)\<rparr>)"

definition record_credential_failure :: "string \<Rightarrow> int \<Rightarrow> unit ceff" where
  "record_credential_failure email now =
     bindE (update_users (\<lambda>u. us_email u = email) (after_failure now)) (\<lambda>_. ret ())"

definition clear_credential_failures :: "string \<Rightarrow> unit ceff" where
  "clear_credential_failures email = bindE (update_users
     (\<lambda>u. us_email u = email \<and> (us_failed u \<noteq> 0 \<or> us_locked_until u \<noteq> None))
     (\<lambda>u. u\<lparr>us_failed := 0, us_locked_until := None\<rparr>)) (\<lambda>_. ret ())"

definition find_by_token_hash :: "bytes \<Rightarrow> session_row option ceff" where
  "find_by_token_hash h = bindE (set_current_token h) (\<lambda>_. bindE (reads id) (\<lambda>c.
     case first_row (select_where (visible_session c) (sessions (c_db c))) of
       None \<Rightarrow> ret None
     | Some s \<Rightarrow> bindE (writes (\<lambda>c. c\<lparr>c_session := Some (ss_id s, ss_user s)\<rparr>)) (\<lambda>_. ret (Some s))))"

definition touch_session :: "uuid \<Rightarrow> uuid \<Rightarrow> int \<Rightarrow> int \<Rightarrow> unit ceff" where
  "touch_session i u seen expires = bindE (reads c_session) (\<lambda>loaded.
     if loaded \<noteq> Some (i, u) then raise ContextMissing
     else bindE (set_current_user u) (\<lambda>_.
       bindE (update_sessions (\<lambda>s. ss_id s = i \<and> ss_user s = u \<and> \<not> ss_revoked s)
          (\<lambda>s. s\<lparr>ss_last_seen := seen, ss_expires := expires\<rparr>)) (\<lambda>n.
       if n \<noteq> 1 then raise ContextMissing else ret ())))"

definition revoke_current_session :: "uuid \<Rightarrow> uuid \<Rightarrow> unit ceff" where
  "revoke_current_session i u = bindE (reads c_session) (\<lambda>loaded.
     if loaded \<noteq> Some (i, u) then raise ContextMissing
     else bindE (update_sessions (\<lambda>s. ss_id s = i \<and> ss_user s = u \<and> \<not> ss_revoked s)
          (\<lambda>s. s\<lparr>ss_revoked := True\<rparr>)) (\<lambda>n.
       if n \<noteq> 1 then raise ContextMissing else ret ()))"

definition SYSTEM_SCOPE :: uuid where "SYSTEM_SCOPE = 0"

text \<open>
  \<open>load_permissions\<close> changes to the tenant role, whose policies show the roles of the tenant and the
  permissions of its own and of the system's roles.
\<close>

definition permission_names :: "uuid \<Rightarrow> uuid \<Rightarrow> auth_db \<Rightarrow> string set" where
  "permission_names u org db = set (map pm_name (filter (\<lambda>p.
     list_ex (\<lambda>a. ur_org a = org \<and> ur_user a = u \<and>
       list_ex (\<lambda>g. (rp_scope g = SYSTEM_SCOPE \<or> rp_scope g = org) \<and> rp_scope g = ur_scope a
          \<and> rp_role g = ur_role a \<and> rp_permission g = pm_id p) (role_permissions db)) (user_roles db))
     (permissions db)))"

definition load_permissions :: "uuid \<Rightarrow> uuid \<Rightarrow> string set ceff" where
  "load_permissions u org = bindE (reads c_session) (\<lambda>loaded.
     if loaded = None \<or> snd (the loaded) \<noteq> u then raise ContextMissing
     else bindE (writes (\<lambda>c. c\<lparr>c_role := AppUser, c_org := Some org\<rparr>)) (\<lambda>_.
       reads (permission_names u org \<circ> c_db)))"

definition lock_password_reset_token :: "uuid \<Rightarrow> reset_row option ceff" where
  "lock_password_reset_token i = bindE (reads c_db) (\<lambda>db.
     case first_row (select_where (\<lambda>r. rs_id r = i) (resets db)) of
       None \<Rightarrow> ret None
     | Some r \<Rightarrow> bindE (writes (\<lambda>c. c\<lparr>c_reset := Some (rs_id r, rs_user r)\<rparr>)) (\<lambda>_. ret (Some r)))"

definition consume_password_reset :: "uuid \<Rightarrow> uuid \<Rightarrow> string \<Rightarrow> int \<Rightarrow> unit ceff" where
  "consume_password_reset i u password used = bindE (reads c_reset) (\<lambda>loaded.
     if loaded \<noteq> Some (i, u) then raise ContextMissing
     else bindE (update_users (\<lambda>r. us_id r = u \<and> us_active r)
          (\<lambda>r. r\<lparr>us_password := password, us_failed := 0, us_locked_until := None\<rparr>)) (\<lambda>n.
     if n \<noteq> 1 then raise ContextMissing
     else bindE (update_resets (\<lambda>r. rs_id r = i \<and> rs_user r = u \<and> rs_used r = None \<and> \<not> rs_revoked r)
          (\<lambda>r. r\<lparr>rs_used := Some used\<rparr>)) (\<lambda>n.
     if n \<noteq> 1 then raise ContextMissing
     else bindE (update_resets (\<lambda>r. rs_user r = u \<and> rs_id r \<noteq> i \<and> rs_used r = None \<and> \<not> rs_revoked r)
          (\<lambda>r. r\<lparr>rs_revoked := True\<rparr>)) (\<lambda>_.
     bindE (update_sessions (\<lambda>s. ss_user s = u \<and> \<not> ss_revoked s) (\<lambda>s. s\<lparr>ss_revoked := True\<rparr>)) (\<lambda>_. ret ())))))"

definition find_active_reset_user_id :: "string \<Rightarrow> uuid option ceff" where
  "find_active_reset_user_id email = bindE (reads c_db) (\<lambda>db.
     case first_row (select_where (\<lambda>u. us_email u = email \<and> us_active u) (accounts db)) of
       None \<Rightarrow> ret None
     | Some u \<Rightarrow> bindE (writes (\<lambda>c. c\<lparr>c_reset_user := Some (us_id u)\<rparr>)) (\<lambda>_. ret (Some (us_id u))))"

definition replace_password_reset_token :: "uuid \<Rightarrow> uuid \<Rightarrow> bytes \<Rightarrow> int \<Rightarrow> int \<Rightarrow> unit ceff" where
  "replace_password_reset_token i u h created expires = bindE (reads c_reset_user) (\<lambda>verified.
     if verified \<noteq> Some u then raise ContextMissing
     else bindE (update_resets (\<lambda>r. rs_user r = u \<and> rs_used r = None \<and> \<not> rs_revoked r)
          (\<lambda>r. r\<lparr>rs_revoked := True\<rparr>)) (\<lambda>_.
       insert_reset \<lparr>rs_id = i, rs_user = u, rs_hash = h, rs_created = created, rs_expires = expires,
         rs_used = None, rs_revoked = False\<rparr>))"

section \<open>What every statement keeps\<close>

text \<open>
  A session keeps its identity and is never taken back from revocation; a reset token keeps its
  identity, its use and its revocation.
\<close>

definition session_step :: "session_row \<Rightarrow> session_row \<Rightarrow> bool" where
  "session_step s s' \<longleftrightarrow> ss_id s' = ss_id s \<and> ss_org s' = ss_org s \<and> ss_user s' = ss_user s \<and> ss_token s' = ss_token s
     \<and> ss_csrf s' = ss_csrf s \<and> ss_created s' = ss_created s \<and> (ss_revoked s \<longrightarrow> ss_revoked s')"

definition reset_step :: "reset_row \<Rightarrow> reset_row \<Rightarrow> bool" where
  "reset_step r r' \<longleftrightarrow> rs_id r' = rs_id r \<and> rs_user r' = rs_user r \<and> rs_hash r' = rs_hash r
     \<and> rs_created r' = rs_created r \<and> rs_expires r' = rs_expires r \<and> (rs_used r \<noteq> None \<longrightarrow> rs_used r' = rs_used r)
     \<and> (rs_revoked r \<longrightarrow> rs_revoked r')"

definition SESSION_IDLE :: int where "SESSION_IDLE = 60 * MINUTE"
definition SESSION_ABSOLUTE :: int where "SESSION_ABSOLUTE = 7 * 24 * 60 * MINUTE"

definition session_life_ok :: "session_row \<Rightarrow> bool" where
  "session_life_ok s \<longleftrightarrow> ss_created s < ss_expires s \<and> ss_created s \<le> ss_last_seen s
     \<and> ss_expires s \<le> ss_created s + SESSION_ABSOLUTE \<and> ss_expires s \<le> ss_last_seen s + SESSION_IDLE"

definition auth_ok :: "auth_db \<Rightarrow> bool" where
  "auth_ok db \<longleftrightarrow> distinct (map ss_id (sessions db)) \<and> distinct (map ss_token (sessions db))
     \<and> (\<forall>s\<in>set (sessions db). session_life_ok s) \<and> distinct (map rs_id (resets db))
     \<and> distinct (map us_id (accounts db)) \<and> distinct (map us_email (accounts db))
     \<and> (\<forall>u\<in>set (accounts db). user_checks u)"

text \<open>From \<open>old\<close> on, sessions only step or carry one of the \<open>issued\<close> tokens, reset tokens only step.\<close>

definition auth_upto :: "bytes set \<Rightarrow> auth_db \<Rightarrow> auth_db \<Rightarrow> bool" where
  "auth_upto issued old db \<longleftrightarrow>
     (\<forall>s'\<in>set (sessions db). (\<exists>s\<in>set (sessions old). session_step s s') \<or> ss_token s' \<in> issued)
     \<and> table_evolves reset_step (resets old) (resets db)"

definition sound :: "bytes set \<Rightarrow> auth_db \<Rightarrow> auth_db \<Rightarrow> bool" where
  "sound issued old db \<longleftrightarrow> auth_ok db \<and> auth_upto issued old db"

lemma session_step_refl [simp]: "session_step s s"
  by (simp add: session_step_def)

lemma session_step_trans: "session_step a b \<Longrightarrow> session_step b c \<Longrightarrow> session_step a c"
  by (auto simp: session_step_def)

lemma traced_step:
  assumes "(\<exists>a\<in>S. session_step a r) \<or> ss_token r \<in> issued" and step: "session_step r r'"
  shows "(\<exists>a\<in>S. session_step a r') \<or> ss_token r' \<in> issued"
proof -
  have "ss_token r' = ss_token r" using step by (simp add: session_step_def)
  with assms(1) session_step_trans [OF _ step] show ?thesis by metis
qed

lemma reset_step_refl [simp]: "reset_step r r"
  by (simp add: reset_step_def)

lemma reset_step_trans: "reset_step a b \<Longrightarrow> reset_step b c \<Longrightarrow> reset_step a c"
  by (auto simp: reset_step_def)

lemma auth_upto_refl: "auth_upto issued db db"
  using session_step_refl by (force simp: auth_upto_def intro: table_evolves_refl)

lemma auth_upto_trans:
  assumes "auth_upto issued a b" and "auth_upto issued b c"
  shows "auth_upto issued a c"
proof -
  have "(\<exists>s\<in>set (sessions a). session_step s s') \<or> ss_token s' \<in> issued" if "s' \<in> set (sessions c)" for s'
  proof (cases "ss_token s' \<in> issued")
    case False
    with assms(2) that obtain s where "s \<in> set (sessions b)" "session_step s s'" by (auto simp: auth_upto_def)
    then show ?thesis using assms(1) traced_step [of "set (sessions a)" s issued s'] by (auto simp: auth_upto_def)
  qed simp
  then show ?thesis using assms
    by (auto simp: auth_upto_def intro: table_evolves_trans [of reset_step] reset_step_trans)
qed

lemma auth_upto_mono: "auth_upto issued a b \<Longrightarrow> issued \<subseteq> wider \<Longrightarrow> auth_upto wider a b"
  by (auto simp: auth_upto_def)

text \<open>The property of connections that every operation is shown to keep.\<close>

abbreviation keeps_sound :: "bytes set \<Rightarrow> auth_db \<Rightarrow> 'a ceff \<Rightarrow> bool" where
  "keeps_sound issued old m \<equiv> keeps (\<lambda>c. sound issued old (c_db c)) m"

named_theorems sound_rules "operations that keep the tables of accounts sound"

lemma keeps_conn [sound_rules]:
  "(\<And>c. c_db (g c) = c_db c) \<Longrightarrow> keeps_sound issued old (writes g)"
  by (simp add: keeps_def writes_def)

lemma sound_same_tables:
  "sound issued old db \<Longrightarrow> sessions db' = sessions db \<Longrightarrow> resets db' = resets db \<Longrightarrow> accounts db' = accounts db
   \<Longrightarrow> sound issued old db'"
  by (simp add: sound_def auth_ok_def auth_upto_def)

lemma keeps_update_users [sound_rules]:
  assumes "\<And>u. us_id (f u) = us_id u" and "\<And>u. us_email (f u) = us_email u"
  shows "keeps_sound issued old (update_users P f)"
proof (rule keepsI)
  fix c :: conn
  assume ok: "sound issued old (c_db c)"
  have "sound issued old ((c_db c)\<lparr>accounts := update_where P f (accounts (c_db c))\<rparr>)"
    if "\<not> list_ex (\<lambda>u. P u \<and> \<not> user_checks (f u)) (accounts (c_db c))"
    using ok that assms
    by (auto simp: sound_def auth_ok_def auth_upto_def map_update_where set_update_where list_ex_iff)
  then show "wp (update_users P f) (\<lambda>_ c. sound issued old (c_db c)) (\<lambda>_ c. sound issued old (c_db c)) c"
    using ok by (simp add: update_users_def db_writes_def)
qed

lemma sound_sessions:
  assumes "sound issued old db" and "\<And>s. Q s \<Longrightarrow> session_step s (f s)"
    and "\<And>s. s \<in> set (sessions db) \<Longrightarrow> Q s \<Longrightarrow> session_life_ok (f s)"
  shows "sound issued old (db\<lparr>sessions := update_where Q f (sessions db)\<rparr>)"
proof -
  have same: "map ss_id (update_where Q f (sessions db)) = map ss_id (sessions db)"
    "map ss_token (update_where Q f (sessions db)) = map ss_token (sessions db)"
    using assms(2) by (auto intro!: map_update_where simp: session_step_def)
  have "(\<exists>s\<in>set (sessions old). session_step s (if Q r then f r else r)) \<or> ss_token (if Q r then f r else r) \<in> issued"
    if "r \<in> set (sessions db)" for r
  proof (rule traced_step)
    show "session_step r (if Q r then f r else r)" using assms(2) by simp
    show "(\<exists>s\<in>set (sessions old). session_step s r) \<or> ss_token r \<in> issued"
      using assms(1) that unfolding sound_def auth_upto_def by blast
  qed
  then have "\<forall>s'\<in>set (update_where Q f (sessions db)).
      (\<exists>s\<in>set (sessions old). session_step s s') \<or> ss_token s' \<in> issued"
    unfolding set_update_where by blast
  moreover have "\<forall>s\<in>set (update_where Q f (sessions db)). session_life_ok s"
    using assms(1,3) by (auto simp: set_update_where sound_def auth_ok_def)
  ultimately show ?thesis
    using assms(1) by (simp add: sound_def auth_ok_def auth_upto_def same)
qed

lemma keeps_revoke [sound_rules]: "keeps_sound issued old (update_sessions P (\<lambda>s. s\<lparr>ss_revoked := True\<rparr>))"
proof (rule keepsI)
  fix c :: conn
  assume ok: "sound issued old (c_db c)"
  have "sound issued old ((c_db c)\<lparr>sessions := update_where Q (\<lambda>s. s\<lparr>ss_revoked := True\<rparr>) (sessions (c_db c))\<rparr>)" for Q
    by (rule sound_sessions [OF ok]) (use ok in \<open>auto simp: session_step_def sound_def auth_ok_def session_life_ok_def\<close>)
  then show "wp (update_sessions P (\<lambda>s. s\<lparr>ss_revoked := True\<rparr>)) (\<lambda>_ c. sound issued old (c_db c))
      (\<lambda>_ c. sound issued old (c_db c)) c"
    using ok by (simp add: update_sessions_def db_writes_def Let_def)
qed

lemma keeps_insert_session [sound_rules]:
  assumes "ss_token s \<in> issued" and "session_life_ok s"
  shows "keeps_sound issued old (insert_session s)"
proof (rule keepsI)
  fix c :: conn
  assume ok: "sound issued old (c_db c)"
  then have "sound issued old ((c_db c)\<lparr>sessions := sessions (c_db c) @ [s]\<rparr>)"
    if "\<not> list_ex (\<lambda>r. ss_id r = ss_id s \<or> ss_token r = ss_token s) (sessions (c_db c))"
    using that assms by (fastforce simp: sound_def auth_ok_def auth_upto_def list_ex_iff)
  then show "wp (insert_session s) (\<lambda>_ c. sound issued old (c_db c)) (\<lambda>_ c. sound issued old (c_db c)) c"
    using ok by (simp add: insert_session_def db_writes_def)
qed

lemma keeps_append_event [sound_rules]: "keeps_sound issued old (append_event e)"
  by (rule keepsI) (auto simp: append_event_def db_writes_def elim: sound_same_tables)

lemma sound_resets:
  assumes "sound issued old db" and "table_evolves reset_step (resets db) rows" and "distinct (map rs_id rows)"
  shows "sound issued old (db\<lparr>resets := rows\<rparr>)"
  using assms by (auto simp: sound_def auth_ok_def auth_upto_def
      intro: table_evolves_trans [of reset_step] reset_step_trans)

lemma keeps_update_resets [sound_rules]:
  assumes "\<And>r. P r \<Longrightarrow> reset_step r (f r)"
  shows "keeps_sound issued old (update_resets P f)"
proof (rule keepsI)
  fix c :: conn
  assume ok: "sound issued old (c_db c)"
  have "map rs_id (update_where P f (resets (c_db c))) = map rs_id (resets (c_db c))"
    using assms by (intro map_update_where) (simp add: reset_step_def)
  then have "sound issued old ((c_db c)\<lparr>resets := update_where P f (resets (c_db c))\<rparr>)"
    using ok assms by (intro sound_resets [OF ok] table_evolves_update) (auto simp: sound_def auth_ok_def)
  then show "wp (update_resets P f) (\<lambda>_ c. sound issued old (c_db c)) (\<lambda>_ c. sound issued old (c_db c)) c"
    by (simp add: update_resets_def db_writes_def)
qed

lemma keeps_insert_reset [sound_rules]: "keeps_sound issued old (insert_reset r)"
proof (rule keepsI)
  fix c :: conn
  assume ok: "sound issued old (c_db c)"
  have "sound issued old ((c_db c)\<lparr>resets := resets (c_db c) @ [r]\<rparr>)" if "rs_id r \<notin> rs_id ` set (resets (c_db c))"
    by (rule sound_resets [OF ok table_evolves_append]) (use ok that in \<open>auto simp: sound_def auth_ok_def\<close>)
  then show "wp (insert_reset r) (\<lambda>_ c. sound issued old (c_db c)) (\<lambda>_ c. sound issued old (c_db c)) c"
    using ok by (simp add: insert_reset_def db_writes_def)
qed

lemmas flow_rules = keeps_ret keeps_raise keeps_reads keeps_bindE keeps_if keeps_option keeps_prod keeps_let

lemma keeps_set_user [sound_rules]: "keeps_sound issued old (set_current_user u)"
  by (simp add: set_current_user_def keeps_conn)

lemma keeps_set_token [sound_rules]: "keeps_sound issued old (set_current_token h)"
  by (simp add: set_current_token_def keeps_conn)

lemma keeps_find_by_email [sound_rules]: "keeps_sound issued old (find_by_email email)"
  by (simp add: find_by_email_def keeps_reads)

lemma keeps_profile [sound_rules]: "keeps_sound issued old (get_user_profile u)"
  by (auto simp: get_user_profile_def intro!: flow_rules sound_rules)

lemma keeps_list_active [sound_rules]: "keeps_sound issued old (list_active_for_user u)"
  by (auto simp: list_active_for_user_def intro!: flow_rules sound_rules)

lemma keeps_replace_for_login [sound_rules]:
  assumes "cn_token new \<in> issued" and "cn_expires new = cn_last_seen new + SESSION_IDLE"
  shows "keeps_sound issued old (replace_for_login new previous)"
proof -
  have "session_life_ok \<lparr>ss_id = cn_session new, ss_org = cn_org new, ss_user = cn_user new, ss_token = cn_token new,
         ss_csrf = cn_csrf new, ss_expires = cn_expires new, ss_last_seen = cn_last_seen new, ss_revoked = False,
         ss_agent = cn_agent new, ss_ip = cn_address new, ss_created = cn_last_seen new\<rparr>"
    by (simp add: session_life_ok_def assms(2) SESSION_IDLE_def SESSION_ABSOLUTE_def MINUTE_def)
  then show ?thesis
    unfolding replace_for_login_def using assms(1) by (auto intro!: flow_rules sound_rules)
qed

lemma after_failure_keeps [simp]:
  "us_id (after_failure now u) = us_id u" "us_email (after_failure now u) = us_email u"
  "us_active (after_failure now u) = us_active u" "us_password (after_failure now u) = us_password u"
  "us_name (after_failure now u) = us_name u"
  by (simp_all add: after_failure_def split: option.splits)

lemma keeps_record_failure [sound_rules]: "keeps_sound issued old (record_credential_failure email now)"
  unfolding record_credential_failure_def by (intro flow_rules sound_rules) simp_all

lemma keeps_clear_failures [sound_rules]: "keeps_sound issued old (clear_credential_failures email)"
  unfolding clear_credential_failures_def by (intro flow_rules sound_rules) simp_all

lemma keeps_find_token [sound_rules]: "keeps_sound issued old (find_by_token_hash h)"
  unfolding find_by_token_hash_def by (intro flow_rules sound_rules) simp_all

lemma keeps_revoke_current [sound_rules]: "keeps_sound issued old (revoke_current_session i u)"
  unfolding revoke_current_session_def by (intro flow_rules sound_rules)

lemma keeps_load_permissions [sound_rules]: "keeps_sound issued old (load_permissions u org)"
  unfolding load_permissions_def by (intro flow_rules sound_rules) simp_all

lemma keeps_lock_reset [sound_rules]: "keeps_sound issued old (lock_password_reset_token i)"
  unfolding lock_password_reset_token_def by (intro flow_rules sound_rules) simp_all

lemma keeps_find_reset_user [sound_rules]: "keeps_sound issued old (find_active_reset_user_id email)"
  unfolding find_active_reset_user_id_def by (intro flow_rules sound_rules) simp_all

lemma keeps_consume_reset [sound_rules]: "keeps_sound issued old (consume_password_reset i u password used)"
  unfolding consume_password_reset_def by (intro flow_rules sound_rules) (simp_all add: reset_step_def)

lemma keeps_replace_reset [sound_rules]: "keeps_sound issued old (replace_password_reset_token i u h created expires)"
  unfolding replace_password_reset_token_def by (intro flow_rules sound_rules) (simp_all add: reset_step_def)

subsection \<open>Units of work\<close>

lemma c_db_fresh [simp]: "c_db (fresh_conn at db) = db"
  by (simp add: fresh_conn_def)

lemma snd_surfaces [simp]: "snd (surfaces named fallback m db) = snd (m db)"
  by (simp add: surfaces_def eff_defs split: prod.splits sum.splits)

lemma surfaces_Inr [simp]: "surfaces named fallback m db = (Inr a, db') \<longleftrightarrow> m db = (Inr a, db')"
  by (auto simp: surfaces_def eff_defs split: prod.splits sum.splits)

lemma fst_surfaces_Inr [simp]: "fst (surfaces named fallback m db) = Inr a \<longleftrightarrow> fst (m db) = Inr a"
  by (auto simp: surfaces_def eff_defs split: prod.splits sum.splits)

lemma fst_surfaces_Inl:
  "fst (surfaces named fallback m db) = Inl e \<longleftrightarrow> (\<exists>e'. fst (m db) = Inl e' \<and> e = (if e' \<in> named then e' else fallback))"
  by (auto simp: surfaces_def eff_defs split: prod.splits sum.splits)

lemma unit_of_work_Inl: "fst (unit_of_work at m db) = Inl e \<Longrightarrow> snd (unit_of_work at m db) = db"
  by (auto simp: unit_of_work_def split: if_splits prod.splits sum.splits)

lemma surfaces_Inl_same:
  "fst (surfaces named fallback (unit_of_work at m) db) = Inl e
   \<Longrightarrow> snd (surfaces named fallback (unit_of_work at m) db) = db"
  by (auto simp: fst_surfaces_Inl dest: unit_of_work_Inl)

text \<open>What a unit of work does, from what its body does on a fresh connection.\<close>

lemma unit_of_work_wp:
  "wp (unit_of_work at m) Q E db = (if \<not> online db then E ConnectionFailed db
     else wp m (\<lambda>a c. Q a (c_db c)) (\<lambda>e c. E e db) (fresh_conn at db))"
  by (auto simp: wp_def unit_of_work_def split: prod.splits sum.splits)

lemma sound_unit:
  assumes "sound issued old db" and "wp m (\<lambda>_ c. sound issued old (c_db c)) (\<lambda>_ _. True) (fresh_conn at db)"
  shows "sound issued old (snd (unit_of_work at m db))"
  using assms by (auto simp: unit_of_work_def wp_def split: prod.splits sum.splits)

lemma sound_unit_keeps:
  assumes "sound issued old db" and "keeps_sound issued old m"
  shows "sound issued old (snd (unit_of_work at m db))"
proof (rule sound_unit [OF assms(1)])
  have "wp m (\<lambda>_ c. sound issued old (c_db c)) (\<lambda>_ c. sound issued old (c_db c)) (fresh_conn at db)"
    by (rule keeps_wp [OF assms(2)]) (simp add: assms(1))
  then show "wp m (\<lambda>_ c. sound issued old (c_db c)) (\<lambda>_ _. True) (fresh_conn at db)"
    by (rule wp_mono) auto
qed

end
