(* ===== verification/Auth_Sessions.thy ===== *)
theory Auth_Sessions
  imports Auth_Store
begin

text \<open>
  Sessions: \<open>backend/app/auth/session.py\<close> (authentication and renewal), \<open>auth/logout.py\<close>,
  \<open>auth/context.py\<close> (choice of an organisation, with a new session) and \<open>auth/session_tokens.py\<close>.

  SHA-256, the random identifiers and tokens, and the clock are parameters. \<open>at\<close> is the instant of the
  database transaction, \<open>now\<close> what the service's clock says.
\<close>

record auth_env = limit_env +
  sha256 :: "string \<Rightarrow> bytes"
  check_password :: "string \<Rightarrow> string \<Rightarrow> bool"
  reset_mac :: "string \<Rightarrow> bytes"
  parse_uuid :: "string \<Rightarrow> uuid option"

record session_secrets =
  sc_session :: uuid
  sc_token :: string
  sc_csrf :: string

record identity =
  id_session :: uuid
  id_org :: "uuid option"
  id_user :: uuid
  id_csrf :: bytes
  id_permissions :: "string set"

definition verify_token :: "auth_env \<Rightarrow> string \<Rightarrow> bytes \<Rightarrow> bool" where
  "verify_token env token expected \<longleftrightarrow> sha256 env token = expected"

definition verify_csrf :: "auth_env \<Rightarrow> identity \<Rightarrow> string option \<Rightarrow> string option \<Rightarrow> unit ceff" where
  "verify_csrf env idn cookie header =
     (if \<not> verify_token env (case cookie of None \<Rightarrow> [] | Some c \<Rightarrow> c) (id_csrf idn)
         \<or> \<not> verify_token env (case header of None \<Rightarrow> [] | Some h \<Rightarrow> h) (id_csrf idn)
      then raise CsrfRejected else ret ())"

section \<open>Authentication\<close>

definition session_invalid :: "int \<Rightarrow> bool \<Rightarrow> session_row \<Rightarrow> bool" where
  "session_invalid now require_organization s \<longleftrightarrow> ss_revoked s \<or> ss_expires s \<le> now
     \<or> ss_last_seen s + SESSION_IDLE \<le> now \<or> ss_created s + SESSION_ABSOLUTE \<le> now
     \<or> (require_organization \<and> ss_org s = None)"

definition authenticate_session :: "auth_env \<Rightarrow> string \<Rightarrow> int \<Rightarrow> bool \<Rightarrow> identity ceff" where
  "authenticate_session env token now require_organization =
     (if \<not> (1 \<le> length token \<and> length token \<le> 256) then raise SessionRejected
      else bindE (find_by_token_hash (sha256 env token)) (\<lambda>found. case found of
        None \<Rightarrow> raise SessionRejected
      | Some s \<Rightarrow> if session_invalid now require_organization s then raise SessionRejected
          else bindE (touch_session (ss_id s) (ss_user s) now
                 (min (now + SESSION_IDLE) (ss_created s + SESSION_ABSOLUTE))) (\<lambda>_.
            ret \<lparr>id_session = ss_id s, id_org = ss_org s, id_user = ss_user s, id_csrf = ss_csrf s,
                 id_permissions = {}\<rparr>)))"

definition session_authenticate :: "auth_env \<Rightarrow> string \<Rightarrow> int \<Rightarrow> bool \<Rightarrow> int \<Rightarrow> identity deff" where
  "session_authenticate env token now require_organization at =
     surfaces {SessionRejected} SessionUnavailable (unit_of_work at
       (bindE (authenticate_session env token now require_organization) (\<lambda>idn.
        case id_org idn of None \<Rightarrow> ret idn
        | Some org \<Rightarrow> bindE (load_permissions (id_user idn) org) (\<lambda>names. ret (idn\<lparr>id_permissions := names\<rparr>)))))"

record me_response =
  me_user :: uuid
  me_email :: string
  me_name :: string
  me_org :: "uuid option"
  me_permissions :: "string set"
  me_organizations :: "(uuid \<times> string) list"

definition get_me :: "auth_env \<Rightarrow> string \<Rightarrow> int \<Rightarrow> int \<Rightarrow> me_response deff" where
  "get_me env token now at = surfaces {SessionRejected} SessionUnavailable (unit_of_work at
     (bindE (authenticate_session env token now False) (\<lambda>idn.
      bindE (get_user_profile (id_user idn)) (\<lambda>(email, name).
      bindE (list_active_for_user (id_user idn)) (\<lambda>available.
      bindE (case id_org idn of None \<Rightarrow> ret {} | Some org \<Rightarrow> load_permissions (id_user idn) org) (\<lambda>names.
      ret \<lparr>me_user = id_user idn, me_email = email, me_name = name, me_org = id_org idn,
           me_permissions = names, me_organizations = available\<rparr>))))))"

section \<open>Logout\<close>

definition bounded_agent :: "string option \<Rightarrow> string option" where
  "bounded_agent agent = (case agent of None \<Rightarrow> None
     | Some a \<Rightarrow> let b = take 255 (py_strip a) in if b = [] then None else Some b)"

definition parse_address :: "auth_env \<Rightarrow> string \<Rightarrow> string ceff" where
  "parse_address env ip = (case normal_ip env ip of None \<Rightarrow> raise BadAddress | Some a \<Rightarrow> ret a)"

definition logout_service ::
  "auth_env \<Rightarrow> string \<Rightarrow> string option \<Rightarrow> string option \<Rightarrow> int \<Rightarrow> string option \<Rightarrow> string \<Rightarrow> uuid \<Rightarrow> unit ceff" where
  "logout_service env token cookie header now agent ip event_id =
     bindE (authenticate_session env token now False) (\<lambda>idn.
     bindE (verify_csrf env idn cookie header) (\<lambda>_.
     bindE (revoke_current_session (id_session idn) (id_user idn)) (\<lambda>_.
     bindE (parse_address env ip) (\<lambda>address.
     append_event \<lparr>ev_id = event_id, ev_org = id_org idn, ev_actor = Some (id_user idn), ev_actor_type = ''USER'',
       ev_ip = Some address, ev_agent = bounded_agent agent, ev_action = ''AUTH.LOGOUT'',
       ev_resource_type = ''SESSION'', ev_resource = Some (id_session idn), ev_status = ''SUCCESS'',
       ev_details = [(''result'', ''REVOKED'')]\<rparr>))))"

definition logout ::
  "auth_env \<Rightarrow> string \<Rightarrow> string option \<Rightarrow> string option \<Rightarrow> int \<Rightarrow> string option \<Rightarrow> string \<Rightarrow> uuid \<Rightarrow> int \<Rightarrow> unit deff" where
  "logout env token cookie header now agent ip event_id at =
     surfaces {CsrfRejected, SessionRejected} SessionUnavailable (unit_of_work at
       (logout_service env token cookie header now agent ip event_id))"

section \<open>Choice of an organisation\<close>

definition select_service ::
  "auth_env \<Rightarrow> session_secrets \<Rightarrow> string \<Rightarrow> string option \<Rightarrow> string option \<Rightarrow> uuid \<Rightarrow> int \<Rightarrow> string option \<Rightarrow> string
   \<Rightarrow> uuid \<Rightarrow> (uuid \<times> session_secrets) ceff" where
  "select_service env fresh token cookie header org now agent ip event_id =
     bindE (authenticate_session env token now False) (\<lambda>idn.
     bindE (verify_csrf env idn cookie header) (\<lambda>_.
     bindE (list_active_for_user (id_user idn)) (\<lambda>available.
     if org \<notin> fst ` set available then raise ContextSelectionRejected
     else bindE (parse_address env ip) (\<lambda>address.
     bindE (replace_for_login \<lparr>cn_session = sc_session fresh, cn_user = id_user idn, cn_org = Some org,
         cn_token = sha256 env (sc_token fresh), cn_csrf = sha256 env (sc_csrf fresh),
         cn_expires = now + SESSION_IDLE, cn_last_seen = now, cn_agent = bounded_agent agent,
         cn_address = Some address\<rparr> (Some (sha256 env token))) (\<lambda>_.
     bindE (append_event \<lparr>ev_id = event_id, ev_org = Some org, ev_actor = Some (id_user idn), ev_actor_type = ''USER'',
         ev_ip = Some address, ev_agent = bounded_agent agent, ev_action = ''AUTH.CONTEXT_SELECTED'',
         ev_resource_type = ''ORGANIZATION'', ev_resource = Some org, ev_status = ''SUCCESS'',
         ev_details = [(''result'', ''CONTEXT_SELECTED'')]\<rparr>) (\<lambda>_.
     ret (org, fresh)))))))"

definition select_context ::
  "auth_env \<Rightarrow> session_secrets \<Rightarrow> string \<Rightarrow> string option \<Rightarrow> string option \<Rightarrow> uuid \<Rightarrow> int \<Rightarrow> string option \<Rightarrow> string
   \<Rightarrow> uuid \<Rightarrow> int \<Rightarrow> (uuid \<times> session_secrets) deff" where
  "select_context env fresh token cookie header org now agent ip event_id at =
     surfaces {ContextSelectionRejected, CsrfRejected, SessionRejected} SessionUnavailable (unit_of_work at
       (select_service env fresh token cookie header org now agent ip event_id))"

section \<open>What authentication does\<close>

text \<open>The session a token names, and its renewal.\<close>

definition session_of :: "auth_env \<Rightarrow> string \<Rightarrow> auth_db \<Rightarrow> session_row option" where
  "session_of env token db = (if 1 \<le> length token \<and> length token \<le> 256
     then first_row (select_where (\<lambda>s. ss_token s = sha256 env token) (sessions db)) else None)"

definition renewed :: "int \<Rightarrow> session_row \<Rightarrow> session_row" where
  "renewed now s = s\<lparr>ss_last_seen := now, ss_expires := min (now + SESSION_IDLE) (ss_created s + SESSION_ABSOLUTE)\<rparr>"

definition identity_of :: "session_row \<Rightarrow> identity" where
  "identity_of s = \<lparr>id_session = ss_id s, id_org = ss_org s, id_user = ss_user s, id_csrf = ss_csrf s, id_permissions = {}\<rparr>"

definition with_session :: "session_row \<Rightarrow> (session_row \<Rightarrow> session_row) \<Rightarrow> auth_db \<Rightarrow> auth_db" where
  "with_session s f db = db\<lparr>sessions := update_where (\<lambda>r. r = s) f (sessions db)\<rparr>"

definition signed_in :: "int \<Rightarrow> int \<Rightarrow> session_row \<Rightarrow> auth_db \<Rightarrow> conn" where
  "signed_in at now s db = (fresh_conn at (with_session s (renewed now) db))
     \<lparr>c_user := Some (ss_user s), c_token := Some (ss_token s), c_session := Some (ss_id s, ss_user s)\<rparr>"

definition hashes_32 :: "auth_env \<Rightarrow> bool" where
  "hashes_32 env \<longleftrightarrow> (\<forall>t. length (sha256 env t) = 32)"

lemma session_of_mem: "session_of env token db = Some s \<Longrightarrow> s \<in> set (sessions db) \<and> ss_token s = sha256 env token"
  by (auto simp: session_of_def dest!: first_row_SomeD split: if_splits)

lemma distinct_key: "distinct (map k xs) \<Longrightarrow> x \<in> set xs \<Longrightarrow> y \<in> set xs \<Longrightarrow> k x = k y \<Longrightarrow> x = y"
  by (auto simp: distinct_map dest: inj_onD)

lemma session_of_unique:
  assumes "auth_ok db" and "s \<in> set (sessions db)" and "ss_token s = sha256 env token"
    and "1 \<le> length token" and "length token \<le> 256"
  shows "session_of env token db = Some s"
proof (cases "session_of env token db")
  case None
  with assms show ?thesis by (auto simp: session_of_def filter_empty_conv select_where_def)
next
  case (Some r)
  from session_of_mem [OF this] assms have "r = s"
    by (auto simp: auth_ok_def intro: distinct_key [of ss_token])
  with Some show ?thesis by simp
qed

text \<open>The statement that renews or revokes the session of the connection touches that row alone.\<close>

lemma update_own_session:
  assumes "auth_ok (c_db c)" and "s \<in> set (sessions (c_db c))" and "P s"
    and "c_user c = Some (ss_user s)" and "c_token c = Some (ss_token s)"
  shows "update_sessions P f c
    = (if session_checks (c_db c) (f s) then (Inr 1, c\<lparr>c_db := with_session s f (c_db c)\<rparr>) else (Inl StatementFailed, c))"
proof -
  let ?Q = "\<lambda>r. P r \<and> visible_session c r \<and> updatable_session c r"
  have dist: "distinct (map ss_token (sessions (c_db c)))" using assms(1) by (simp add: auth_ok_def)
  have Q: "?Q r \<longleftrightarrow> r = s" if "r \<in> set (sessions (c_db c))" for r
  proof
    assume "?Q r"
    then have "ss_token r = ss_token s" using assms(5) by (simp add: visible_session_def)
    then show "r = s" by (rule distinct_key [OF dist that assms(2)])
  next
    assume "r = s"
    then show "?Q r" using assms(3,4,5) by (simp add: visible_session_def updatable_session_def)
  qed
  have "?Q r \<longleftrightarrow> ss_token r = ss_token s" if "r \<in> set (sessions (c_db c))" for r
    using Q [OF that] distinct_key [OF dist that assms(2)] by blast
  then have "rowcount ?Q (sessions (c_db c)) = rowcount (\<lambda>r. ss_token r = ss_token s) (sessions (c_db c))"
    by (rule rowcount_cong)
  then have "rowcount ?Q (sessions (c_db c)) = 1" using rowcount_key [OF dist assms(2)] by simp
  moreover have "update_where ?Q f (sessions (c_db c)) = update_where (\<lambda>r. r = s) f (sessions (c_db c))"
    by (rule update_where_cong) (simp_all only: Q)
  moreover have "list_ex (\<lambda>r. ?Q r \<and> \<not> session_checks (c_db c) (f r)) (sessions (c_db c))
      \<longleftrightarrow> \<not> session_checks (c_db c) (f s)"
    unfolding list_ex_iff using Q assms(2) by metis
  ultimately show ?thesis
    by (simp add: update_sessions_def eff_defs db_writes_def with_session_def Let_def)
qed

lemma find_by_token_hash_run:
  assumes "hashes_32 env"
  shows "find_by_token_hash (sha256 env token) (fresh_conn at db)
    = (case first_row (select_where (\<lambda>s. ss_token s = sha256 env token) (sessions db)) of
         None \<Rightarrow> (Inr None, (fresh_conn at db)\<lparr>c_token := Some (sha256 env token)\<rparr>)
       | Some s \<Rightarrow> (Inr (Some s), (fresh_conn at db)\<lparr>c_token := Some (sha256 env token), c_session := Some (ss_id s, ss_user s)\<rparr>))"
proof -
  have "visible_session ((fresh_conn at db)\<lparr>c_token := Some (sha256 env token)\<rparr>) = (\<lambda>s. ss_token s = sha256 env token)"
    by (auto simp: visible_session_def)
  then show ?thesis using assms
    by (auto simp: find_by_token_hash_def set_current_token_def eff_defs hashes_32_def split: option.splits)
qed

lemma authenticate_run:
  assumes "hashes_32 env" and ok: "auth_ok db" and found: "session_of env token db = Some s"
    and valid: "\<not> session_invalid now req s"
  shows "session_checks db (renewed now s) \<Longrightarrow>
      authenticate_session env token now req (fresh_conn at db) = (Inr (identity_of s), signed_in at now s db)"
    and "\<not> session_checks db (renewed now s) \<Longrightarrow>
      fst (authenticate_session env token now req (fresh_conn at db)) = Inl StatementFailed"
proof -
  have len: "1 \<le> length token" "length token \<le> 256"
    and row: "first_row (select_where (\<lambda>s. ss_token s = sha256 env token) (sessions db)) = Some s"
    using found by (auto simp: session_of_def split: if_splits)
  from session_of_mem [OF found] have s: "s \<in> set (sessions db)" "ss_token s = sha256 env token" by auto
  let ?c = "(fresh_conn at db)\<lparr>c_token := Some (sha256 env token), c_session := Some (ss_id s, ss_user s)\<rparr>"
  have find: "find_by_token_hash (sha256 env token) (fresh_conn at db) = (Inr (Some s), ?c)"
    using find_by_token_hash_run [OF assms(1), of token at db] by (simp add: row)
  let ?f = "\<lambda>r. r\<lparr>ss_last_seen := now, ss_expires := min (now + SESSION_IDLE) (ss_created s + SESSION_ABSOLUTE)\<rparr>"
  have f: "with_session s ?f db = with_session s (renewed now) db"
  proof -
    have "update_where (\<lambda>r. r = s) ?f (sessions db) = update_where (\<lambda>r. r = s) (renewed now) (sessions db)"
      by (rule update_where_cong) (simp_all add: renewed_def)
    then show ?thesis by (simp add: with_session_def)
  qed
  have "\<not> ss_revoked s" using valid by (simp add: session_invalid_def)
  with update_own_session [of "?c\<lparr>c_user := Some (ss_user s)\<rparr>" s
      "\<lambda>r. ss_id r = ss_id s \<and> ss_user r = ss_user s \<and> \<not> ss_revoked r" ?f] ok s
  have upd: "update_sessions (\<lambda>r. ss_id r = ss_id s \<and> ss_user r = ss_user s \<and> \<not> ss_revoked r) ?f (?c\<lparr>c_user := Some (ss_user s)\<rparr>)
      = (if session_checks db (renewed now s) then (Inr 1, signed_in at now s db) else (Inl StatementFailed, ?c\<lparr>c_user := Some (ss_user s)\<rparr>))"
    by (simp add: f renewed_def signed_in_def s(2) fresh_conn_def)
  have touch: "touch_session (ss_id s) (ss_user s) now (min (now + SESSION_IDLE) (ss_created s + SESSION_ABSOLUTE)) ?c
      = (if session_checks db (renewed now s) then (Inr (), signed_in at now s db)
         else (Inl StatementFailed, ?c\<lparr>c_user := Some (ss_user s)\<rparr>))"
    by (simp add: touch_session_def set_current_user_def eff_defs upd)
  show "session_checks db (renewed now s) \<Longrightarrow>
      authenticate_session env token now req (fresh_conn at db) = (Inr (identity_of s), signed_in at now s db)"
    and "\<not> session_checks db (renewed now s) \<Longrightarrow>
      fst (authenticate_session env token now req (fresh_conn at db)) = Inl StatementFailed"
    using len valid by (simp_all add: authenticate_session_def identity_of_def bindE_def find touch ret_def)
qed

lemma authenticate_rejects:
  assumes "hashes_32 env" and "\<And>s. session_of env token db = Some s \<Longrightarrow> session_invalid now req s"
  shows "fst (authenticate_session env token now req (fresh_conn at db)) = Inl SessionRejected"
  using assms find_by_token_hash_run [OF assms(1), of token at db]
  by (auto simp: authenticate_session_def session_of_def eff_defs split: option.splits)

lemma with_session_same [simp]:
  "online (with_session s f db) = online db" "members (with_session s f db) = members db"
  "accounts (with_session s f db) = accounts db" "orgs (with_session s f db) = orgs db"
  "events (with_session s f db) = events db" "resets (with_session s f db) = resets db"
  "user_roles (with_session s f db) = user_roles db" "permissions (with_session s f db) = permissions db"
  "role_permissions (with_session s f db) = role_permissions db" "collation (with_session s f db) = collation db"
  by (simp_all add: with_session_def)

lemma session_checks_same [simp]: "session_checks (with_session s f db) r = session_checks db r"
  by (simp add: session_checks_def split: option.splits)

lemma permission_names_same [simp]: "permission_names u org (with_session s f db) = permission_names u org db"
  by (simp add: permission_names_def)

lemma renewed_same [simp]:
  "ss_id (renewed now s) = ss_id s" "ss_user (renewed now s) = ss_user s" "ss_token (renewed now s) = ss_token s"
  "ss_org (renewed now s) = ss_org s" "ss_revoked (renewed now s) = ss_revoked s" "ss_created (renewed now s) = ss_created s"
  "ss_csrf (renewed now s) = ss_csrf s"
  by (simp_all add: renewed_def)

lemma signed_in_fields [simp]:
  "c_db (signed_in at now s db) = with_session s (renewed now) db" "c_role (signed_in at now s db) = AuthUser"
  "c_user (signed_in at now s db) = Some (ss_user s)" "c_token (signed_in at now s db) = Some (ss_token s)"
  "c_session (signed_in at now s db) = Some (ss_id s, ss_user s)" "c_clock (signed_in at now s db) = at"
  by (simp_all add: signed_in_def fresh_conn_def)

lemma sound_renewed:
  assumes "sound issued old db" and "session_checks db (renewed now s)"
  shows "sound issued old (with_session s (renewed now) db)"
  unfolding with_session_def
proof (rule sound_sessions [OF assms(1)])
  show "session_step r (renewed now r)" if "r = s" for r
    by (simp add: session_step_def renewed_def)
  show "session_life_ok (renewed now r)" if "r \<in> set (sessions db)" "r = s" for r
    using assms(2) that by (auto simp: session_life_ok_def session_checks_def renewed_def)
qed

text \<open>A unit of work that begins with authentication keeps the tables sound if what follows does.\<close>

lemma sound_authenticated:
  assumes "sound issued old db" and "hashes_32 env" and rest: "\<And>idn. keeps_sound issued old (rest idn)"
  shows "sound issued old (snd (unit_of_work at (bindE (authenticate_session env token now req) rest) db))"
proof (rule sound_unit [OF assms(1)])
  let ?auth = "authenticate_session env token now req (fresh_conn at db)"
  have ok: "auth_ok db" using assms(1) by (simp add: sound_def)
  show "wp (bindE (authenticate_session env token now req) rest) (\<lambda>_ c. sound issued old (c_db c)) (\<lambda>_ _. True) (fresh_conn at db)"
  proof (cases "fst ?auth")
    case (Inl e)
    then show ?thesis by (auto simp: wp_def bindE_def split: prod.splits)
  next
    case (Inr idn)
    then obtain s where s: "session_of env token db = Some s" "\<not> session_invalid now req s"
      using authenticate_rejects [OF assms(2), of token db now req at] by fastforce
    note run = authenticate_run [OF assms(2) ok s, of at]
    have checks: "session_checks db (renewed now s)" by (rule ccontr) (use run(2) Inr in simp)
    with run(1) have "?auth = (Inr (identity_of s), signed_in at now s db)" by simp
    moreover have "wp (rest (identity_of s)) (\<lambda>_ c. sound issued old (c_db c)) (\<lambda>_ _. True) (signed_in at now s db)"
      by (rule wp_mono [OF keeps_wp [OF rest]]) (simp_all add: sound_renewed [OF assms(1) checks])
    ultimately show ?thesis by (simp add: wp_def bindE_def)
  qed
qed

lemma keeps_verify_csrf [sound_rules]: "keeps_sound issued old (verify_csrf env idn cookie header)"
  unfolding verify_csrf_def by (intro flow_rules)

lemma keeps_parse_address [sound_rules]: "keeps_sound issued old (parse_address env ip)"
  unfolding parse_address_def by (intro flow_rules)

lemma sound_authenticate:
  assumes "sound issued old db" and "hashes_32 env"
  shows "sound issued old (snd (session_authenticate env token now req at db))"
  unfolding session_authenticate_def snd_surfaces
  by (rule sound_authenticated [OF assms]) (intro flow_rules sound_rules)

lemma sound_get_me:
  assumes "sound issued old db" and "hashes_32 env"
  shows "sound issued old (snd (get_me env token now at db))"
  unfolding get_me_def snd_surfaces
  by (rule sound_authenticated [OF assms]) (intro flow_rules sound_rules)

lemma sound_logout:
  assumes "sound issued old db" and "hashes_32 env"
  shows "sound issued old (snd (logout env token cookie header now agent ip event_id at db))"
  unfolding logout_def logout_service_def snd_surfaces
  by (rule sound_authenticated [OF assms]) (intro flow_rules sound_rules)

lemma sound_select:
  assumes "sound issued old db" and "hashes_32 env" and "sha256 env (sc_token fresh) \<in> issued"
  shows "sound issued old (snd (select_context env fresh token cookie header org now agent ip event_id at db))"
  unfolding select_context_def select_service_def snd_surfaces
  by (rule sound_authenticated [OF assms(1,2)]) (intro flow_rules sound_rules; simp add: assms(3))

section \<open>Authentication, exactly\<close>

lemma session_authenticate_run:
  assumes "hashes_32 env" and ok: "auth_ok db" and "online db"
  shows "session_authenticate env token now req at db = (case session_of env token db of
       None \<Rightarrow> (Inl SessionRejected, db)
     | Some s \<Rightarrow> if session_invalid now req s then (Inl SessionRejected, db)
         else if \<not> session_checks db (renewed now s) then (Inl SessionUnavailable, db)
         else (Inr ((identity_of s)\<lparr>id_permissions := (case ss_org s of None \<Rightarrow> {} | Some org \<Rightarrow> permission_names (ss_user s) org db)\<rparr>),
               with_session s (renewed now) db))"
proof (cases "\<exists>s. session_of env token db = Some s \<and> \<not> session_invalid now req s")
  case False
  then have "fst (authenticate_session env token now req (fresh_conn at db)) = Inl SessionRejected"
    by (intro authenticate_rejects [OF assms(1)]) auto
  then show ?thesis using False assms(3)
    by (auto simp: session_authenticate_def surfaces_def unit_of_work_def eff_defs split: prod.splits option.splits sum.splits)
next
  case True
  then obtain s where s: "session_of env token db = Some s" "\<not> session_invalid now req s" by auto
  note run = authenticate_run [OF assms(1) ok s, of at]
  show ?thesis
  proof (cases "session_checks db (renewed now s)")
    case False
    then have "fst (authenticate_session env token now req (fresh_conn at db)) = Inl StatementFailed" by (rule run(2))
    then show ?thesis using False s assms(3)
      by (auto simp: session_authenticate_def surfaces_def unit_of_work_def eff_defs split: prod.splits sum.splits)
  next
    case True
    with run(1) have "authenticate_session env token now req (fresh_conn at db) = (Inr (identity_of s), signed_in at now s db)" by simp
    then show ?thesis using True s assms(3)
      by (simp add: session_authenticate_def surfaces_def unit_of_work_def eff_defs load_permissions_def identity_of_def
          split: option.splits)
  qed
qed

text \<open>
  Property C15. A request is authenticated exactly when its token is the one of a session that is not
  revoked, not past its expiry, not idle for an hour and not older than seven days (and, where one is
  needed, has an organisation); it then acts as the user and in the organisation of that row, with
  the permissions the roles of that user in that organisation give, and the only change is the
  renewal of that row, never beyond seven days after its creation. Every other token is refused with
  the same error and changes nothing.
\<close>

theorem session_authenticate_exact:
  assumes "hashes_32 env" and ok: "auth_ok db" and "online db"
  shows "session_authenticate env token now req at db = (case session_of env token db of
       None \<Rightarrow> (Inl SessionRejected, db)
     | Some s \<Rightarrow> if session_invalid now req s then (Inl SessionRejected, db)
         else if \<not> session_checks db (renewed now s) then (Inl SessionUnavailable, db)
         else (Inr ((identity_of s)\<lparr>id_permissions := (case ss_org s of None \<Rightarrow> {} | Some org \<Rightarrow> permission_names (ss_user s) org db)\<rparr>),
               with_session s (renewed now) db))"
  by (rule session_authenticate_run [OF assms])

section \<open>Revocation\<close>

definition revoked_now :: "int \<Rightarrow> session_row \<Rightarrow> session_row" where
  "revoked_now now s = (renewed now s)\<lparr>ss_revoked := True\<rparr>"

lemma with_session_twice:
  assumes "auth_ok db" and "s \<in> set (sessions db)"
  shows "with_session (renewed now s) f (with_session s (renewed now) db) = with_session s (\<lambda>r. f (renewed now r)) db"
proof -
  have "renewed now s = r \<longrightarrow> r = s" if "r \<in> set (sessions db)" for r
    using assms that distinct_key [of ss_token "sessions db" r s]
    by (metis auth_ok_def renewed_same(3))
  then show ?thesis by (auto simp: with_session_def update_where_def)
qed

lemma mem_with_session: "s \<in> set (sessions db) \<Longrightarrow> f s \<in> set (sessions (with_session s f db))"
  by (auto simp: with_session_def set_update_where)

lemma auth_ok_renewed: "auth_ok db \<Longrightarrow> session_checks db (renewed now s) \<Longrightarrow> auth_ok (with_session s (renewed now) db)"
  using sound_renewed [of UNIV db db now s] by (simp add: sound_def auth_upto_refl)

lemma revoke_run:
  assumes "auth_ok db" and "s \<in> set (sessions db)" and "session_checks db (renewed now s)" and "\<not> ss_revoked s"
  shows "revoke_current_session (ss_id s) (ss_user s) (signed_in at now s db)
    = (Inr (), (signed_in at now s db)\<lparr>c_db := with_session s (revoked_now now) db\<rparr>)"
proof -
  let ?c = "signed_in at now s db"
  have f: "(\<lambda>r. (renewed now r)\<lparr>ss_revoked := True\<rparr>) = revoked_now now" by (simp add: revoked_now_def fun_eq_iff)
  have "session_checks db ((renewed now s)\<lparr>ss_revoked := True\<rparr>)"
    using assms(3) by (simp add: session_checks_def split: option.splits)
  with update_own_session [of ?c "renewed now s" "\<lambda>r. ss_id r = ss_id s \<and> ss_user r = ss_user s \<and> \<not> ss_revoked r"
      "\<lambda>r. r\<lparr>ss_revoked := True\<rparr>"]
  have "update_sessions (\<lambda>r. ss_id r = ss_id s \<and> ss_user r = ss_user s \<and> \<not> ss_revoked r) (\<lambda>s. s\<lparr>ss_revoked := True\<rparr>) ?c
      = (Inr 1, ?c\<lparr>c_db := with_session s (revoked_now now) db\<rparr>)"
    using assms auth_ok_renewed mem_with_session [OF assms(2), of "renewed now"]
    by (simp add: with_session_twice f)
  then show ?thesis by (simp add: revoke_current_session_def eff_defs)
qed

text \<open>Where a request of a session stops before it has an effect.\<close>

definition usable :: "auth_env \<Rightarrow> string \<Rightarrow> int \<Rightarrow> auth_db \<Rightarrow> session_row \<Rightarrow> bool" where
  "usable env token now db s \<longleftrightarrow> session_of env token db = Some s \<and> \<not> session_invalid now False s
     \<and> session_checks db (renewed now s)"

definition csrf_matches :: "auth_env \<Rightarrow> string option \<Rightarrow> string option \<Rightarrow> session_row \<Rightarrow> bool" where
  "csrf_matches env cookie header s \<longleftrightarrow>
     sha256 env (case cookie of None \<Rightarrow> [] | Some c \<Rightarrow> c) = ss_csrf s
     \<and> sha256 env (case header of None \<Rightarrow> [] | Some h \<Rightarrow> h) = ss_csrf s"

lemma identity_fields [simp]:
  "id_session (identity_of s) = ss_id s" "id_org (identity_of s) = ss_org s" "id_user (identity_of s) = ss_user s"
  "id_csrf (identity_of s) = ss_csrf s"
  by (simp_all add: identity_of_def)

lemma verify_csrf_run: "verify_csrf env (identity_of s) cookie header c
    = (if csrf_matches env cookie header s then (Inr (), c) else (Inl CsrfRejected, c))"
  by (auto simp: verify_csrf_def verify_token_def csrf_matches_def eff_defs)

text \<open>A service that authenticates and checks the CSRF token first.\<close>

lemma unit_authenticated:
  assumes "hashes_32 env" and "auth_ok db" and "online db"
    and "unit_of_work at (bindE (authenticate_session env token now False) rest) db = (Inr a, db')"
  shows "\<exists>s c. usable env token now db s \<and> rest (identity_of s) (signed_in at now s db) = (Inr a, c) \<and> c_db c = db'"
proof -
  obtain idn c0 c where auth: "authenticate_session env token now False (fresh_conn at db) = (Inr idn, c0)"
    and rest: "rest idn c0 = (Inr a, c)" "c_db c = db'"
    using assms(3,4) by (auto simp: unit_of_work_def bindE_def split: prod.splits sum.splits)
  obtain s where s: "session_of env token db = Some s" "\<not> session_invalid now False s"
    using authenticate_rejects [OF assms(1), of token db now False at] auth by fastforce
  note run = authenticate_run [OF assms(1,2) s, of at]
  have checks: "session_checks db (renewed now s)" by (rule ccontr) (use run(2) auth in simp)
  from run(1) [OF checks] auth rest s checks show ?thesis by (auto simp: usable_def)
qed

lemma usableD: "usable env token now db s \<Longrightarrow> s \<in> set (sessions db) \<and> ss_token s = sha256 env token
    \<and> \<not> ss_revoked s \<and> session_checks db (renewed now s)"
  by (auto simp: usable_def session_invalid_def dest: session_of_mem)

text \<open>What a logout that answers has done.\<close>

lemma logout_effect:
  assumes "hashes_32 env" and "auth_ok db" and "online db"
    and "logout env token cookie header now agent ip event_id at db = (Inr (), db')"
  shows "\<exists>s. usable env token now db s \<and> csrf_matches env cookie header s
     \<and> sessions db' = sessions (with_session s (revoked_now now) db)"
proof -
  from unit_authenticated [OF assms(1-3) assms(4) [unfolded logout_def logout_service_def surfaces_Inr]]
  obtain s c where s: "usable env token now db s"
    and run: "bindE (verify_csrf env (identity_of s) cookie header) (\<lambda>_.
        bindE (revoke_current_session (id_session (identity_of s)) (id_user (identity_of s))) (\<lambda>_.
        bindE (parse_address env ip) (\<lambda>address.
        append_event \<lparr>ev_id = event_id, ev_org = id_org (identity_of s), ev_actor = Some (id_user (identity_of s)),
          ev_actor_type = ''USER'', ev_ip = Some address, ev_agent = bounded_agent agent, ev_action = ''AUTH.LOGOUT'',
          ev_resource_type = ''SESSION'', ev_resource = Some (id_session (identity_of s)), ev_status = ''SUCCESS'',
          ev_details = [(''result'', ''REVOKED'')]\<rparr>))) (signed_in at now s db) = (Inr (), c)" and db': "c_db c = db'"
    by blast
  note row = usableD [OF s]
  from run have csrf: "csrf_matches env cookie header s"
    by (auto simp: bindE_def verify_csrf_run split: if_splits)
  have "revoke_current_session (id_session (identity_of s)) (id_user (identity_of s)) (signed_in at now s db)
      = (Inr (), (signed_in at now s db)\<lparr>c_db := with_session s (revoked_now now) db\<rparr>)"
    using revoke_run [of db s now at] assms(2) row by simp
  with run csrf db' have "sessions db' = sessions (with_session s (revoked_now now) db)"
    by (auto simp: bindE_def verify_csrf_run parse_address_def append_event_def db_writes_def raise_def ret_def
        reads_def writes_def split: option.splits if_splits)
  with s csrf show ?thesis by blast
qed

text \<open>The token of a revoked session.\<close>

definition dead_token :: "bytes \<Rightarrow> auth_db \<Rightarrow> bool" where
  "dead_token h db \<longleftrightarrow> (\<forall>s\<in>set (sessions db). ss_token s = h \<longrightarrow> ss_revoked s)"

lemma dead_revoked:
  assumes "auth_ok db" and "s \<in> set (sessions db)"
  shows "dead_token (ss_token s) (db'\<lparr>sessions := sessions (with_session s (revoked_now now) db)\<rparr>)"
  using assms distinct_key [of ss_token "sessions db" _ s]
  by (auto simp: dead_token_def with_session_def set_update_where revoked_now_def auth_ok_def)

lemma dead_token_sessions: "sessions db = sessions db' \<Longrightarrow> dead_token h db = dead_token h db'"
  by (simp add: dead_token_def)

lemma dead_upto: "auth_upto issued db db' \<Longrightarrow> dead_token h db \<Longrightarrow> h \<notin> issued \<Longrightarrow> dead_token h db'"
  unfolding auth_upto_def dead_token_def session_step_def by metis

lemma dead_token_rejected:
  assumes "hashes_32 env" and "auth_ok db" and "online db" and "dead_token (sha256 env token) db"
  shows "session_authenticate env token now req at db = (Inl SessionRejected, db)"
proof -
  have "session_invalid now req s" if "session_of env token db = Some s" for s
    using session_of_mem [OF that] assms(4) by (auto simp: dead_token_def session_invalid_def)
  then show ?thesis using session_authenticate_run [OF assms(1-3)] by (auto split: option.splits)
qed

section \<open>Faults around deactivated members\<close>

text \<open>
  Property C19. A member whose membership is switched off cannot log out: a logout with a valid
  session of that organisation and matching CSRF tokens ends in SessionUnavailable and leaves every
  table as it was, because the audit row is refused by the row policy and takes the revocation with
  it; the same session goes on being authenticated, with all its permissions.
\<close>

theorem deactivated_member_stays_signed_in:
  assumes "hashes_32 env" and "auth_ok db" and "online db"
    and s: "usable env token now db s" and "ss_org s = Some org" and "csrf_matches env cookie header s"
    and off: "\<forall>m\<in>set (members db). mm_org m = org \<and> mm_user m = ss_user s \<longrightarrow> \<not> mm_active m"
  shows "logout env token cookie header now agent ip event_id at db = (Inl SessionUnavailable, db)
    \<and> session_authenticate env token now True at db
      = (Inr ((identity_of s)\<lparr>id_permissions := permission_names (ss_user s) org db\<rparr>), with_session s (renewed now) db)"
proof
  note row = usableD [OF s]
  from s have valid: "session_of env token db = Some s" "\<not> session_invalid now False s" by (simp_all add: usable_def)
  from valid(2) assms(5) have "\<not> session_invalid now True s" by (simp add: session_invalid_def)
  then show "session_authenticate env token now True at db
      = (Inr ((identity_of s)\<lparr>id_permissions := permission_names (ss_user s) org db\<rparr>), with_session s (renewed now) db)"
    using session_authenticate_run [OF assms(1-3), of token now True at] valid row assms(5) by simp
  let ?c = "(signed_in at now s db)\<lparr>c_db := with_session s (revoked_now now) db\<rparr>"
  have auth: "authenticate_session env token now False (fresh_conn at db) = (Inr (identity_of s), signed_in at now s db)"
    using authenticate_run(1) [OF assms(1,2) valid] row by blast
  have revoke: "revoke_current_session (ss_id s) (ss_user s) (signed_in at now s db) = (Inr (), ?c)"
    using revoke_run [of db s now at] assms(2) row by simp
  have "\<not> belongs_to ?c org"
    using off by (auto simp: belongs_to_def own_membership_def list_ex_iff)
  then have "\<not> insertable_event ?c e" if "ev_org e = Some org" for e
    using that by (simp add: insertable_event_def)
  then have "fst (logout_service env token cookie header now agent ip event_id (fresh_conn at db)) \<in> {Inl BadAddress, Inl StatementFailed}"
    using assms(5,6) by (auto simp: logout_service_def bindE_def auth verify_csrf_run revoke
        parse_address_def append_event_def eff_defs split: option.splits)
  then show "logout env token cookie header now agent ip event_id at db = (Inl SessionUnavailable, db)"
    using assms(3) by (auto simp: logout_def surfaces_def unit_of_work_def eff_defs split: prod.splits)
qed

section \<open>Choosing an organisation\<close>

lemma list_active_run: "list_active_for_user u c
    = (Inr (active_orgs u (c\<lparr>c_user := Some u\<rparr>)), c\<lparr>c_user := Some u, c_verified := Some u\<rparr>)"
  by (simp add: list_active_for_user_def set_current_user_def eff_defs)

lemma active_orgs_mem:
  assumes "c_user c = Some u"
  shows "(org, name) \<in> set (active_orgs u c) \<longleftrightarrow>
      (\<exists>m\<in>set (members (c_db c)). mm_org m = org \<and> mm_user m = u \<and> mm_active m)
      \<and> (\<exists>g\<in>set (orgs (c_db c)). og_id g = org \<and> og_name g = name \<and> og_active g)"
proof
  assume "(org, name) \<in> set (active_orgs u c)"
  then show "(\<exists>m\<in>set (members (c_db c)). mm_org m = org \<and> mm_user m = u \<and> mm_active m)
      \<and> (\<exists>g\<in>set (orgs (c_db c)). og_id g = org \<and> og_name g = name \<and> og_active g)"
    by (auto simp: active_orgs_def)
next
  assume "(\<exists>m\<in>set (members (c_db c)). mm_org m = org \<and> mm_user m = u \<and> mm_active m)
      \<and> (\<exists>g\<in>set (orgs (c_db c)). og_id g = org \<and> og_name g = name \<and> og_active g)"
  then obtain m g where mg: "m \<in> set (members (c_db c))" "mm_org m = org" "mm_user m = u" "mm_active m"
    "g \<in> set (orgs (c_db c))" "og_id g = org" "og_name g = name" "og_active g" by blast
  then have "own_membership c m" "visible_org c g"
    using assms by (auto simp: own_membership_def visible_org_def belongs_to_def list_ex_iff)
  then show "(org, name) \<in> set (active_orgs u c)"
    using mg by (force simp: active_orgs_def)
qed

definition new_session :: "auth_env \<Rightarrow> session_secrets \<Rightarrow> uuid \<Rightarrow> uuid option \<Rightarrow> int \<Rightarrow> string option \<Rightarrow> string option \<Rightarrow> session_row" where
  "new_session env fresh u org now agent address = \<lparr>ss_id = sc_session fresh, ss_org = org, ss_user = u,
     ss_token = sha256 env (sc_token fresh), ss_csrf = sha256 env (sc_csrf fresh), ss_expires = now + SESSION_IDLE,
     ss_last_seen = now, ss_revoked = False, ss_agent = agent, ss_ip = address, ss_created = now\<rparr>"

lemma replace_own_session:
  assumes "hashes_32 env" and "auth_ok (c_db c)" and "s \<in> set (sessions (c_db c))" and "ss_token s = sha256 env token"
    and "\<not> ss_revoked s" and "c_user c = Some (ss_user s)" and "c_verified c = Some (ss_user s)"
    and "session_checks (c_db c) s" and "cn_user new = ss_user s"
    and "replace_for_login new (Some (sha256 env token)) c = (Inr (), c')"
  shows "sessions (c_db c') = sessions (with_session s (\<lambda>r. r\<lparr>ss_revoked := True\<rparr>) (c_db c))
      @ [\<lparr>ss_id = cn_session new, ss_org = cn_org new, ss_user = cn_user new, ss_token = cn_token new,
         ss_csrf = cn_csrf new, ss_expires = cn_expires new, ss_last_seen = cn_last_seen new, ss_revoked = False,
         ss_agent = cn_agent new, ss_ip = cn_address new, ss_created = cn_last_seen new\<rparr>]"
proof -
  let ?c = "c\<lparr>c_token := Some (sha256 env token)\<rparr>"
  have "session_checks (c_db c) (s\<lparr>ss_revoked := True\<rparr>)"
    using assms(8) by (simp add: session_checks_def split: option.splits)
  with update_own_session [of ?c s "\<lambda>r. ss_user r = cn_user new \<and> \<not> ss_revoked r" "\<lambda>r. r\<lparr>ss_revoked := True\<rparr>"] assms
  have upd: "update_sessions (\<lambda>r. ss_user r = cn_user new \<and> \<not> ss_revoked r) (\<lambda>r. r\<lparr>ss_revoked := True\<rparr>) ?c
      = (Inr 1, ?c\<lparr>c_db := with_session s (\<lambda>r. r\<lparr>ss_revoked := True\<rparr>) (c_db c)\<rparr>)" by simp
  have "set_current_token (sha256 env token) c = (Inr (), ?c)"
    using assms(1) by (simp add: set_current_token_def writes_def hashes_32_def)
  with upd assms(7,9,10) show ?thesis
    by (auto simp: replace_for_login_def bindE_def reads_def ret_def insert_session_def db_writes_def writes_def raise_def
        split: if_splits)
qed

text \<open>
  Choosing an organisation rotates the session: when it answers, the presented token
  belonged to a usable session of a user with an active membership in that active organisation and
  both CSRF tokens matched; that session is revoked, and one new session, of the same user and bound
  to that organisation, is added with the fresh token; no other session changes.
\<close>

lemma select_context_run:
  assumes "hashes_32 env" and ok: "auth_ok db" and "online db"
    and "select_context env fresh token cookie header org now agent ip event_id at db = (Inr (org', secrets), db')"
  shows "\<exists>s address. usable env token now db s \<and> csrf_matches env cookie header s \<and> org' = org \<and> secrets = fresh
     \<and> list_ex (\<lambda>m. mm_org m = org \<and> mm_user m = ss_user s \<and> mm_active m) (members db)
     \<and> list_ex (\<lambda>g. og_id g = org \<and> og_active g) (orgs db) \<and> normal_ip env ip = Some address
     \<and> sessions db' = sessions (with_session s (revoked_now now) db)
          @ [new_session env fresh (ss_user s) (Some org) now (bounded_agent agent) (Some address)]"
proof -
  from unit_authenticated [OF assms(1-3) assms(4) [unfolded select_context_def select_service_def surfaces_Inr]]
  obtain s c where s: "usable env token now db s" and db': "c_db c = db'"
    and run: "bindE (verify_csrf env (identity_of s) cookie header) (\<lambda>_.
        bindE (list_active_for_user (id_user (identity_of s))) (\<lambda>available.
        if org \<notin> fst ` set available then raise ContextSelectionRejected
        else bindE (parse_address env ip) (\<lambda>address.
        bindE (replace_for_login \<lparr>cn_session = sc_session fresh, cn_user = id_user (identity_of s), cn_org = Some org,
            cn_token = sha256 env (sc_token fresh), cn_csrf = sha256 env (sc_csrf fresh),
            cn_expires = now + SESSION_IDLE, cn_last_seen = now, cn_agent = bounded_agent agent,
            cn_address = Some address\<rparr> (Some (sha256 env token))) (\<lambda>_.
        bindE (append_event \<lparr>ev_id = event_id, ev_org = Some org, ev_actor = Some (id_user (identity_of s)),
            ev_actor_type = ''USER'', ev_ip = Some address, ev_agent = bounded_agent agent,
            ev_action = ''AUTH.CONTEXT_SELECTED'', ev_resource_type = ''ORGANIZATION'', ev_resource = Some org,
            ev_status = ''SUCCESS'', ev_details = [(''result'', ''CONTEXT_SELECTED'')]\<rparr>) (\<lambda>_.
        ret (org, fresh)))))) (signed_in at now s db) = (Inr (org', secrets), c)"
    by blast
  note row = usableD [OF s]
  let ?c1 = "(signed_in at now s db)\<lparr>c_user := Some (ss_user s), c_verified := Some (ss_user s)\<rparr>"
  from run have csrf: "csrf_matches env cookie header s" by (auto simp: bindE_def verify_csrf_run split: if_splits)
  note run1 = run [unfolded bindE_def [of "verify_csrf _ _ _ _"] verify_csrf_run if_P [OF csrf], simplified]
  from run1 have member: "org \<in> fst ` set (active_orgs (ss_user s) ((signed_in at now s db)\<lparr>c_user := Some (ss_user s)\<rparr>))"
    by (auto simp: bindE_def list_active_run raise_def split: if_splits)
  then obtain name where "(org, name) \<in> set (active_orgs (ss_user s) ((signed_in at now s db)\<lparr>c_user := Some (ss_user s)\<rparr>))" by auto
  with active_orgs_mem [of "(signed_in at now s db)\<lparr>c_user := Some (ss_user s)\<rparr>" "ss_user s" org name]
  have active: "list_ex (\<lambda>m. mm_org m = org \<and> mm_user m = ss_user s \<and> mm_active m) (members db)"
    "list_ex (\<lambda>g. og_id g = org \<and> og_active g) (orgs db)"
    by (auto simp: list_ex_iff)
  obtain address where ip: "normal_ip env ip = Some address"
    using run1 member by (auto simp: bindE_def list_active_run parse_address_def raise_def split: option.splits if_splits)
  let ?new = "\<lparr>cn_session = sc_session fresh, cn_user = ss_user s, cn_org = Some org,
            cn_token = sha256 env (sc_token fresh), cn_csrf = sha256 env (sc_csrf fresh),
            cn_expires = now + SESSION_IDLE, cn_last_seen = now, cn_agent = bounded_agent agent,
            cn_address = Some address\<rparr>"
  obtain c2 where repl: "replace_for_login ?new (Some (sha256 env token)) ?c1 = (Inr (), c2)"
    and res: "org' = org" "secrets = fresh" "sessions (c_db c) = sessions (c_db c2)"
    using run1 member ip
    by (auto simp: bindE_def list_active_run parse_address_def raise_def ret_def append_event_def reads_def db_writes_def
        writes_def split: option.splits if_splits prod.splits sum.splits)
  have "sessions (c_db c2) = sessions (with_session (renewed now s) (\<lambda>r. r\<lparr>ss_revoked := True\<rparr>) (with_session s (renewed now) db))
      @ [new_session env fresh (ss_user s) (Some org) now (bounded_agent agent) (Some address)]"
    using replace_own_session [OF assms(1) _ _ _ _ _ _ _ _ repl, of "renewed now s"] row ok auth_ok_renewed
      mem_with_session [of s db "renewed now"]
    by (simp add: new_session_def)
  moreover have "(\<lambda>r. (renewed now r)\<lparr>ss_revoked := True\<rparr>) = revoked_now now" by (simp add: revoked_now_def fun_eq_iff)
  ultimately have "sessions db' = sessions (with_session s (revoked_now now) db)
          @ [new_session env fresh (ss_user s) (Some org) now (bounded_agent agent) (Some address)]"
    using res db' row ok by (simp add: with_session_twice)
  with s csrf res active ip show ?thesis by blast
qed

section \<open>Concrete runs\<close>

definition demo_env :: auth_env where
  "demo_env = \<lparr>hmac = (\<lambda>s. s), normal_ip = Some, secs = (\<lambda>ms. ms div 1000),
     sha256 = (\<lambda>s. take 32 (map (\<lambda>c. word_of_nat (ord_of c)) s @ replicate 32 0)),
     check_password = (\<lambda>p h. h = ''$argon2id$'' @ p), reset_mac = (\<lambda>s. map (\<lambda>c. word_of_nat (ord_of c)) s),
     parse_uuid = (\<lambda>s. if s = ''42'' then Some 42 else None)\<rparr>"

definition demo_user :: user_row where
  "demo_user = \<lparr>us_id = 1, us_email = ''a@b.co'', us_password = ''$argon2id$secret123456'', us_name = ''Ana'',
     us_active = True, us_failed = 0, us_locked_until = None\<rparr>"

definition demo_session :: session_row where
  "demo_session = \<lparr>ss_id = 5, ss_org = Some 10, ss_user = 1, ss_token = sha256 demo_env ''tok'',
     ss_csrf = sha256 demo_env ''csrf'', ss_expires = 1000000, ss_last_seen = 0, ss_revoked = False, ss_agent = None,
     ss_ip = None, ss_created = 0\<rparr>"

definition demo_reset :: reset_row where
  "demo_reset = \<lparr>rs_id = 42, rs_user = 1, rs_hash = reset_mac demo_env ''sesame'', rs_created = 0, rs_expires = 900000000,
     rs_used = None, rs_revoked = False\<rparr>"

definition demo_db :: "bool \<Rightarrow> auth_db" where
  "demo_db active = \<lparr>online = True, collation = length, accounts = [demo_user],
     orgs = [\<lparr>og_id = 10, og_name = ''Acme'', og_active = True\<rparr>],
     members = [\<lparr>mm_org = 10, mm_user = 1, mm_active = active\<rparr>], sessions = [demo_session], resets = [demo_reset],
     events = [], roles = [\<lparr>ro_id = 3, ro_org = None, ro_name = ''ADMIN'', ro_system = True\<rparr>],
     user_roles = [\<lparr>ur_org = 10, ur_user = 1, ur_scope = 0, ur_role = 3\<rparr>],
     role_permissions = [\<lparr>rp_scope = 0, rp_role = 3, rp_permission = 7\<rparr>],
     permissions = [\<lparr>pm_id = 7, pm_name = ''users:manage''\<rparr>]\<rparr>"

definition demo_fresh :: session_secrets where
  "demo_fresh = \<lparr>sc_session = 6, sc_token = ''new'', sc_csrf = ''new csrf''\<rparr>"

lemma demo_hashes: "hashes_32 demo_env"
  by (auto simp: hashes_32_def demo_env_def min_def)

lemma demo_ok: "auth_ok (demo_db b)"
  by (simp add: auth_ok_def demo_db_def session_life_ok_def demo_session_def demo_reset_def SESSION_IDLE_def
      SESSION_ABSOLUTE_def MINUTE_def user_checks_def demo_user_def btrim_def py_lower_def is_upper_def)

lemma demo_online: "online (demo_db b)"
  by (simp add: demo_db_def)

lemma run_of_fst: "fst p = x \<Longrightarrow> p = (x, snd p)"
  by auto

lemma demo_usable: "usable demo_env ''tok'' 100 (demo_db b) demo_session"
  by (cases b) code_simp+

lemma session_authenticate_exact_witness:
  "session_authenticate demo_env ''tok'' 100 True 0 (demo_db True)
    = (Inr ((identity_of demo_session)\<lparr>id_permissions := {''users:manage''}\<rparr>),
       with_session demo_session (renewed 100) (demo_db True))"
proof -
  have "session_of demo_env ''tok'' (demo_db True) = Some demo_session" "\<not> session_invalid 100 True demo_session"
    "session_checks (demo_db True) (renewed 100 demo_session)" "ss_org demo_session = Some 10"
    "permission_names (ss_user demo_session) 10 (demo_db True) = {''users:manage''}"
    by code_simp+
  then show ?thesis
    using session_authenticate_exact [OF demo_hashes demo_ok demo_online, of "''tok''" 100 True 0] by simp
qed

lemma deactivated_member_stays_signed_in_witness:
  "fst (logout demo_env ''tok'' (Some ''csrf'') (Some ''csrf'') 100 None ''10.0.0.1'' 9 0 (demo_db False)) = Inl SessionUnavailable
   \<and> fst (session_authenticate demo_env ''tok'' 100 True 0 (demo_db False))
     = Inr ((identity_of demo_session)\<lparr>id_permissions := {''users:manage''}\<rparr>)"
proof -
  have facts: "csrf_matches demo_env (Some ''csrf'') (Some ''csrf'') demo_session" "ss_org demo_session = Some 10"
    "permission_names (ss_user demo_session) 10 (demo_db False) = {''users:manage''}"
    by code_simp+
  have "\<forall>m\<in>set (members (demo_db False)). mm_org m = 10 \<and> mm_user m = ss_user demo_session \<longrightarrow> \<not> mm_active m"
    by (simp add: demo_db_def)
  from deactivated_member_stays_signed_in [OF demo_hashes demo_ok demo_online demo_usable facts(2,1) this,
      of None "''10.0.0.1''" 9 0] facts(3)
  show ?thesis by simp
qed

end
