(* ===== verification/Auth_Login.thy ===== *)
theory Auth_Login
  imports Auth_Sessions
begin

text \<open>
  Login and password reset: \<open>backend/app/auth/service.py\<close> (credentials), \<open>auth/login.py\<close>,
  \<open>auth/application.py\<close> (limits, transaction, audit, delay), \<open>auth/password_reset.py\<close> and
  \<open>auth/password_reset_request.py\<close>, with the input checks of \<open>auth/schemas.py\<close>.

  The state is the pair of Redis and the database, with the delays the service has slept. The three
  clocks (the service's, the database's, the one of Redis), the random identifiers and secrets and the
  hash of a new password are arguments. Text is ASCII, on which NFC normalisation is the identity.
\<close>

section \<open>Input\<close>

definition normalize_email :: "string \<Rightarrow> string" where
  "normalize_email email = py_lower (py_strip email)"

definition has_dots :: "string \<Rightarrow> bool" where
  "has_dots s \<longleftrightarrow> sublist ''..'' s"

fun split_at_sign :: "string \<Rightarrow> string \<times> string" where
  "split_at_sign [] = ([], [])"
| "split_at_sign (c # cs) = (if c = CHR ''@'' then ([], cs) else (c # fst (split_at_sign cs), snd (split_at_sign cs)))"

definition is_valid_email :: "string \<Rightarrow> bool" where
  "is_valid_email email \<longleftrightarrow> count_list email (CHR ''@'') = 1 \<and> \<not> list_ex py_space email
     \<and> (let (local, domain) = split_at_sign email
        in local \<noteq> [] \<and> domain \<noteq> [] \<and> length local \<le> 64 \<and> CHR ''.'' \<in> set domain
           \<and> hd local \<noteq> CHR ''.'' \<and> last local \<noteq> CHR ''.'' \<and> hd domain \<noteq> CHR ''.'' \<and> last domain \<noteq> CHR ''.''
           \<and> \<not> has_dots local \<and> \<not> has_dots domain)"

text \<open>\<open>LoginRequest\<close>: the e-mail address in normal form, or no request.\<close>

definition login_request :: "string \<Rightarrow> string \<Rightarrow> (string \<times> string) option" where
  "login_request email password = (let e = normalize_email email
     in if 3 \<le> length e \<and> length e \<le> 255 \<and> is_valid_email e \<and> 1 \<le> length password \<and> length password \<le> 1024
        then Some (e, password) else None)"

definition strong_password :: "string \<Rightarrow> bool" where
  "strong_password p \<longleftrightarrow> 12 \<le> length p \<and> length p \<le> 1024
     \<and> list_ex (\<lambda>c. is_lower c \<or> is_upper c) p \<and> list_ex is_digit p"

section \<open>Redis and the database together\<close>

record auth_world =
  aw_redis :: redis
  aw_db :: auth_db
  aw_slept :: "int list"

type_synonym 'a weff = "(auth_world, auth_error, 'a) eff"

fun limit_to_auth :: "limit_error \<Rightarrow> auth_error" where
  "limit_to_auth LimitUnavailable = LimiterUnavailable"
| "limit_to_auth (Limited n) = RequestLimited n"
| "limit_to_auth AddressError = BadAddress"

definition on_redis :: "'a leff \<Rightarrow> 'a weff" where
  "on_redis m w = (case m (aw_redis w) of
     (Inl e, r) \<Rightarrow> (Inl (limit_to_auth e), w\<lparr>aw_redis := r\<rparr>) | (Inr a, r) \<Rightarrow> (Inr a, w\<lparr>aw_redis := r\<rparr>))"

definition on_db :: "'a deff \<Rightarrow> 'a weff" where
  "on_db m w = (case m (aw_db w) of (res, db) \<Rightarrow> (res, w\<lparr>aw_db := db\<rparr>))"

definition sleep :: "int \<Rightarrow> unit weff" where
  "sleep ms = writes (\<lambda>w. w\<lparr>aw_slept := aw_slept w @ [ms]\<rparr>)"

record clocks =
  ck_now :: int
  ck_db :: int
  ck_redis :: int

section \<open>Credentials\<close>

text \<open>An unknown account is checked against a dummy hash, whose outcome has no effect but time.\<close>

definition authenticate_credential :: "auth_env \<Rightarrow> string \<Rightarrow> credential option \<Rightarrow> int \<Rightarrow> auth_error + uuid" where
  "authenticate_credential env password record now = (case record of
     None \<Rightarrow> Inl AuthenticationRejected
   | Some r \<Rightarrow>
       if \<not> check_password env password (cr_password r) \<or> \<not> cr_active r
          \<or> (case cr_locked_until r of None \<Rightarrow> False | Some l \<Rightarrow> l > now)
       then Inl AuthenticationRejected else Inr (cr_user r))"

datatype login_status = AUTHENTICATED | ORGANIZATION_SELECTION_REQUIRED

record login_result =
  lr_status :: login_status
  lr_organizations :: "(uuid \<times> string) list"
  lr_secrets :: session_secrets
  lr_user :: uuid
  lr_org :: "uuid option"

definition single_org :: "(uuid \<times> string) list \<Rightarrow> uuid option" where
  "single_org available = (if length available = 1 then Some (fst (hd available)) else None)"

definition status_of :: "uuid option \<Rightarrow> login_status" where
  "status_of org = (if org = None then ORGANIZATION_SELECTION_REQUIRED else AUTHENTICATED)"

record login_input =
  li_email :: string
  li_password :: string
  li_previous :: "string option"
  li_agent :: "string option"
  li_ip :: string

definition prepare_login ::
  "auth_env \<Rightarrow> session_secrets \<Rightarrow> login_input \<Rightarrow> int \<Rightarrow> uuid \<Rightarrow> (uuid \<times> string) list \<Rightarrow> string
   \<Rightarrow> login_result \<times> creation \<times> bytes option" where
  "prepare_login env fresh input now u available address =
     (\<lparr>lr_status = status_of (single_org available),
       lr_organizations = (if single_org available = None then available else []),
       lr_secrets = fresh, lr_user = u, lr_org = single_org available\<rparr>,
      \<lparr>cn_session = sc_session fresh, cn_user = u, cn_org = single_org available,
       cn_token = sha256 env (sc_token fresh), cn_csrf = sha256 env (sc_csrf fresh),
       cn_expires = now + SESSION_IDLE, cn_last_seen = now, cn_agent = bounded_agent (li_agent input),
       cn_address = Some address\<rparr>,
      map_option (sha256 env) (li_previous input))"

definition login_coordinator ::
  "auth_env \<Rightarrow> session_secrets \<Rightarrow> login_input \<Rightarrow> int \<Rightarrow> bool \<Rightarrow> login_result ceff" where
  "login_coordinator env fresh input now force =
     bindE (find_by_email (li_email input)) (\<lambda>record.
     case authenticate_credential env (li_password input) record now of
       Inl e \<Rightarrow> raise e
     | Inr u \<Rightarrow> if force then raise AuthenticationRejected
         else bindE (list_active_for_user u) (\<lambda>available.
           if available = [] then raise AuthenticationRejected
           else bindE (parse_address env (li_ip input)) (\<lambda>address.
             case prepare_login env fresh input now u available address of (result, new, previous) \<Rightarrow>
               bindE (replace_for_login new previous) (\<lambda>_. ret result))))"

section \<open>The login service\<close>

fun status_name :: "login_status \<Rightarrow> string" where
  "status_name AUTHENTICATED = ''AUTHENTICATED''"
| "status_name ORGANIZATION_SELECTION_REQUIRED = ''ORGANIZATION_SELECTION_REQUIRED''"

definition login_event ::
  "uuid \<Rightarrow> string \<Rightarrow> string \<Rightarrow> login_input \<Rightarrow> uuid option \<Rightarrow> uuid option \<Rightarrow> (string \<times> string) list \<Rightarrow> event_row" where
  "login_event i action st input actor org details = \<lparr>ev_id = i, ev_org = org, ev_actor = actor,
     ev_actor_type = (if actor = None then ''SYSTEM'' else ''USER''), ev_ip = Some (li_ip input),
     ev_agent = bounded_agent (li_agent input), ev_action = action, ev_resource_type = ''USER'',
     ev_resource = actor, ev_status = st, ev_details = details\<rparr>"

definition append_global_audit :: "int \<Rightarrow> event_row \<Rightarrow> (string \<times> int) option \<Rightarrow> unit deff" where
  "append_global_audit at event failed = surfaces {} LoginUnavailable (unit_of_work at
     (bindE (case failed of None \<Rightarrow> ret () | Some (email, now) \<Rightarrow> record_credential_failure email now)
        (\<lambda>_. append_event event)))"

definition login_transaction ::
  "auth_env \<Rightarrow> session_secrets \<Rightarrow> uuid \<Rightarrow> login_input \<Rightarrow> clocks \<Rightarrow> bool \<Rightarrow> login_result deff" where
  "login_transaction env fresh event_id input ck force = unit_of_work (ck_db ck)
     (bindE (login_coordinator env fresh input (ck_now ck) force) (\<lambda>result.
      bindE (clear_credential_failures (li_email input)) (\<lambda>_.
      bindE (append_event (login_event event_id ''AUTH.LOGIN_SUCCESS'' ''SUCCESS'' input (Some (lr_user result))
         (lr_org result) [(''result'', status_name (lr_status result))])) (\<lambda>_. ret result))))"

definition login :: "auth_env \<Rightarrow> session_secrets \<Rightarrow> uuid \<Rightarrow> login_input \<Rightarrow> clocks \<Rightarrow> login_result weff" where
  "login env fresh event_id input ck =
     bindE (catchE (on_redis (preflight (limit_env.truncate env) (li_email input) (li_ip input) (ck_redis ck))) (\<lambda>e. case e of
        RequestLimited n \<Rightarrow> bindE (on_db (append_global_audit (ck_db ck)
          (login_event event_id ''AUTH.LOGIN_BLOCKED'' ''DENIED'' input None None [(''reason'', ''IP_RATE_LIMIT'')]) None))
          (\<lambda>_. raise e)
      | _ \<Rightarrow> raise e)) (\<lambda>pf.
     bindE (catchE (on_db (login_transaction env fresh event_id input ck (credentials_blocked pf))) (\<lambda>e.
        if e = AuthenticationRejected then
          bindE (on_db (append_global_audit (ck_db ck)
            (login_event event_id (if credentials_blocked pf then ''AUTH.LOGIN_BLOCKED'' else ''AUTH.LOGIN_FAILURE'')
               (if credentials_blocked pf then ''DENIED'' else ''FAILURE'') input None None
               [(''reason'', ''INVALID_CREDENTIALS'')]) (Some (li_email input, ck_now ck)))) (\<lambda>_.
          bindE (on_redis (record_failure (limit_env.truncate env) (li_email input) (li_ip input) (ck_redis ck))) (\<lambda>delay.
          bindE (sleep delay) (\<lambda>_. raise e)))
        else raise LoginUnavailable)) (\<lambda>result.
     bindE (catchE (on_redis (record_success (limit_env.truncate env) (li_email input) (li_ip input)))
        (\<lambda>_. raise LoginUnavailable)) (\<lambda>_. ret result)))"

section \<open>Password reset\<close>

text \<open>\<open>parse_reset_token\<close>: an identifier, a dot, a secret without dots.\<close>

fun split_at_dot :: "string \<Rightarrow> (string \<times> string) option" where
  "split_at_dot [] = None"
| "split_at_dot (c # cs) = (if c = CHR ''.'' then Some ([], cs)
     else map_option (\<lambda>(a, b). (c # a, b)) (split_at_dot cs))"

definition parse_reset_token :: "auth_env \<Rightarrow> string \<Rightarrow> (uuid \<times> string) option" where
  "parse_reset_token env token = (case split_at_dot token of None \<Rightarrow> None
     | Some (i, secret) \<Rightarrow> (case parse_uuid env i of None \<Rightarrow> None
        | Some u \<Rightarrow> if secret = [] \<or> CHR ''.'' \<in> set secret then None else Some (u, secret)))"

definition reset_token_value :: "uuid \<Rightarrow> string \<Rightarrow> string" where
  "reset_token_value i secret = uuid_str i @ ''.'' @ secret"

definition RESET_LIFETIME :: int where "RESET_LIFETIME = 15 * MINUTE"

definition reset_event :: "uuid \<Rightarrow> string \<Rightarrow> uuid \<Rightarrow> string \<Rightarrow> string option \<Rightarrow> event_row" where
  "reset_event i action u ip agent = \<lparr>ev_id = i, ev_org = None, ev_actor = Some u, ev_actor_type = ''USER'',
     ev_ip = Some ip, ev_agent = bounded_agent agent, ev_action = action, ev_resource_type = ''USER'',
     ev_resource = Some u, ev_status = ''SUCCESS'', ev_details = []\<rparr>"

text \<open>The secret is hashed as ASCII before anything is looked up; other text raises there.\<close>

definition consume_reset ::
  "auth_env \<Rightarrow> string \<Rightarrow> string \<Rightarrow> string \<Rightarrow> string option \<Rightarrow> uuid \<Rightarrow> clocks \<Rightarrow> unit weff" where
  "consume_reset env token password_hash ip agent event_id ck =
     bindE (on_redis (preflight (limit_env.truncate env) ''password-reset'' ip (ck_redis ck))) (\<lambda>_.
     let parsed = parse_reset_token env token;
         (i, secret) = (case parsed of Some p \<Rightarrow> p | None \<Rightarrow> (0, ''invalid''))
     in if list_ex (\<lambda>c. ord_of c \<ge> 128) secret then raise StatementFailed
        else on_db (surfaces {PasswordResetRejected} PasswordResetUnavailable (unit_of_work (ck_db ck)
          (bindE (lock_password_reset_token i) (\<lambda>found. case found of
             None \<Rightarrow> raise PasswordResetRejected
           | Some r \<Rightarrow>
               if parsed = None \<or> rs_used r \<noteq> None \<or> rs_revoked r \<or> rs_expires r \<le> ck_now ck
                  \<or> rs_hash r \<noteq> reset_mac env secret
               then raise PasswordResetRejected
               else bindE (consume_password_reset (rs_id r) (rs_user r) password_hash (ck_now ck)) (\<lambda>_.
                 append_event (reset_event event_id ''AUTH.PASSWORD_RESET_SUCCESS'' (rs_user r) ip agent)))))))"

text \<open>\<open>None\<close> for an unknown or inactive account: the caller answers the same in both cases.\<close>

definition request_reset ::
  "auth_env \<Rightarrow> string \<Rightarrow> uuid \<Rightarrow> string \<Rightarrow> string \<Rightarrow> string option \<Rightarrow> uuid \<Rightarrow> clocks \<Rightarrow> (string \<times> string) option weff" where
  "request_reset env email token_id secret ip agent event_id ck =
     bindE (on_redis (preflight (limit_env.truncate env) email ip (ck_redis ck))) (\<lambda>_.
     bindE (on_db (surfaces {} PasswordResetUnavailable (unit_of_work (ck_db ck)
       (bindE (find_active_reset_user_id email) (\<lambda>found. case found of
          None \<Rightarrow> ret False
        | Some u \<Rightarrow> bindE (replace_password_reset_token token_id u (reset_mac env secret) (ck_now ck)
                (ck_now ck + RESET_LIFETIME)) (\<lambda>_.
            bindE (append_event (reset_event event_id ''AUTH.PASSWORD_RESET_REQUESTED'' u ip agent)) (\<lambda>_. ret True)))))))
       (\<lambda>issued. ret (if issued then Some (email, reset_token_value token_id secret) else None)))"

section \<open>What the services keep\<close>

abbreviation keeps_world :: "bytes set \<Rightarrow> auth_db \<Rightarrow> 'a weff \<Rightarrow> bool" where
  "keeps_world issued old m \<equiv> keeps (\<lambda>w. sound issued old (aw_db w)) m"

named_theorems world_rules "services that keep the tables of accounts sound"

lemma keeps_on_redis [world_rules]: "keeps_world issued old (on_redis m)"
  by (auto simp: keeps_def on_redis_def split: prod.splits sum.splits)

lemma keeps_on_db [world_rules]:
  "(\<And>db. sound issued old db \<Longrightarrow> sound issued old (snd (m db))) \<Longrightarrow> keeps_world issued old (on_db m)"
  unfolding keeps_def on_db_def by (auto split: prod.splits) (metis snd_conv)

lemma keeps_sleep [world_rules]: "keeps_world issued old (sleep ms)"
  by (simp add: sleep_def keeps_def writes_def)

lemma sound_surfaced_unit:
  assumes "sound issued old db" and "keeps_sound issued old m"
  shows "sound issued old (snd (surfaces named fallback (unit_of_work at m) db))"
  using sound_unit_keeps [OF assms] by simp

lemma keeps_login_coordinator [sound_rules]:
  assumes "sha256 env (sc_token fresh) \<in> issued"
  shows "keeps_sound issued old (login_coordinator env fresh input now force)"
  unfolding login_coordinator_def prepare_login_def prod.case by (intro flow_rules sound_rules keeps_sum) (simp_all add: assms)

lemma sound_login_transaction:
  assumes "sound issued old db" and "sha256 env (sc_token fresh) \<in> issued"
  shows "sound issued old (snd (login_transaction env fresh event_id input ck force db))"
  unfolding login_transaction_def
  by (rule sound_unit_keeps [OF assms(1)]) (intro flow_rules sound_rules assms(2))

lemma sound_global_audit:
  "sound issued old db \<Longrightarrow> sound issued old (snd (append_global_audit at event failed db))"
  unfolding append_global_audit_def by (rule sound_surfaced_unit) (auto intro!: flow_rules sound_rules)

lemma keeps_login [world_rules]:
  assumes "sha256 env (sc_token fresh) \<in> issued"
  shows "keeps_world issued old (login env fresh event_id input ck)"
proof -
  have audit: "keeps_world issued old (on_db (append_global_audit at event failed))" for at event failed
    by (rule keeps_on_db) (rule sound_global_audit)
  have transaction: "keeps_world issued old (on_db (login_transaction env fresh event_id input ck force))" for force
    by (rule keeps_on_db) (rule sound_login_transaction [OF _ assms])
  have blocked: "keeps_world issued old (case e of RequestLimited n \<Rightarrow> m n | _ \<Rightarrow> raise e)"
    if "\<And>n. keeps_world issued old (m n)" for e and m :: "int \<Rightarrow> login_preflight weff"
    using that by (cases e) auto
  show ?thesis unfolding login_def
    by (intro flow_rules keeps_catchE audit transaction blocked keeps_on_redis keeps_sleep)
qed

lemma keeps_consume [world_rules]: "keeps_world issued old (consume_reset env token password ip agent event_id ck)"
  unfolding consume_reset_def Let_def
  by (intro flow_rules keeps_on_redis keeps_on_db sound_surfaced_unit) (auto intro!: flow_rules sound_rules)

lemma keeps_request [world_rules]: "keeps_world issued old (request_reset env email i secret ip agent event_id ck)"
  unfolding request_reset_def
  by (intro flow_rules keeps_on_redis keeps_on_db sound_surfaced_unit) (auto intro!: flow_rules sound_rules)

section \<open>A login that answers\<close>

definition account_named :: "string \<Rightarrow> auth_db \<Rightarrow> user_row option" where
  "account_named email db = first_row (select_where (\<lambda>u. us_email u = email) (accounts db))"

definition may_log_in :: "auth_env \<Rightarrow> login_input \<Rightarrow> int \<Rightarrow> user_row \<Rightarrow> bool" where
  "may_log_in env input now u \<longleftrightarrow> us_email u = li_email input \<and> check_password env (li_password input) (us_password u)
     \<and> us_active u \<and> (case us_locked_until u of None \<Rightarrow> True | Some l \<Rightarrow> l \<le> now)"

text \<open>The sessions after a login: the presented one is revoked if it is the user's, one is added.\<close>

definition sessions_after_login ::
  "auth_env \<Rightarrow> session_secrets \<Rightarrow> login_input \<Rightarrow> int \<Rightarrow> string \<Rightarrow> uuid \<Rightarrow> uuid option \<Rightarrow> session_row list \<Rightarrow> session_row list" where
  "sessions_after_login env fresh input now address u org rows =
     update_where (\<lambda>s. map_option (sha256 env) (li_previous input) = Some (ss_token s) \<and> ss_user s = u \<and> \<not> ss_revoked s)
       (\<lambda>s. s\<lparr>ss_revoked := True\<rparr>) rows
     @ [new_session env fresh u org now (bounded_agent (li_agent input)) (Some address)]"

lemma account_namedD: "account_named email db = Some u \<Longrightarrow> u \<in> set (accounts db) \<and> us_email u = email"
  by (auto simp: account_named_def dest!: first_row_SomeD)

lemma authenticate_credential_Inr:
  "authenticate_credential env password (map_option
     (\<lambda>u. \<lparr>cr_user = us_id u, cr_password = us_password u, cr_active = us_active u, cr_locked_until = us_locked_until u\<rparr>) found) now
     = Inr i \<longleftrightarrow>
   (\<exists>u. found = Some u \<and> i = us_id u \<and> check_password env password (us_password u) \<and> us_active u
      \<and> (case us_locked_until u of None \<Rightarrow> True | Some l \<Rightarrow> l \<le> now))"
  by (auto simp: authenticate_credential_def split: option.splits)

lemma update_sessions_Inr:
  "update_sessions P f c = (Inr n, c') \<Longrightarrow>
   c' = c\<lparr>c_db := (c_db c)\<lparr>sessions := update_where (\<lambda>s. P s \<and> visible_session c s \<and> updatable_session c s) f (sessions (c_db c))\<rparr>\<rparr>"
  by (auto simp: update_sessions_def eff_defs db_writes_def Let_def split: if_splits)

lemma replace_for_login_sessions:
  assumes "replace_for_login new previous c = (Inr (), c')" and "c_user c = Some (cn_user new)"
    and "\<And>h. previous = Some h \<Longrightarrow> length h = 32"
  shows "sessions (c_db c') = update_where (\<lambda>s. previous = Some (ss_token s) \<and> ss_user s = cn_user new \<and> \<not> ss_revoked s)
       (\<lambda>s. s\<lparr>ss_revoked := True\<rparr>) (sessions (c_db c))
      @ [\<lparr>ss_id = cn_session new, ss_org = cn_org new, ss_user = cn_user new, ss_token = cn_token new,
         ss_csrf = cn_csrf new, ss_expires = cn_expires new, ss_last_seen = cn_last_seen new, ss_revoked = False,
         ss_agent = cn_agent new, ss_ip = cn_address new, ss_created = cn_last_seen new\<rparr>]"
proof (cases previous)
  case None
  with assms(1) show ?thesis
    by (auto simp: replace_for_login_def eff_defs insert_session_def db_writes_def update_where_def split: if_splits)
next
  case (Some h)
  have h: "length h = 32" using assms(3) Some by blast
  let ?c = "c\<lparr>c_token := Some h\<rparr>" and ?P = "\<lambda>s. ss_user s = cn_user new \<and> \<not> ss_revoked s"
    and ?f = "\<lambda>s. s\<lparr>ss_revoked := True\<rparr>"
  obtain n c2 where upd: "update_sessions ?P ?f ?c = (Inr n, c2)"
    and ins: "sessions (c_db c') = sessions (c_db c2) @ [\<lparr>ss_id = cn_session new, ss_org = cn_org new, ss_user = cn_user new,
         ss_token = cn_token new, ss_csrf = cn_csrf new, ss_expires = cn_expires new, ss_last_seen = cn_last_seen new,
         ss_revoked = False, ss_agent = cn_agent new, ss_ip = cn_address new, ss_created = cn_last_seen new\<rparr>]"
    using assms(1) Some h
    by (auto simp: replace_for_login_def bindE_def reads_def ret_def raise_def set_current_token_def writes_def
        insert_session_def db_writes_def split: if_splits prod.splits sum.splits)
  have "update_where (\<lambda>s. ?P s \<and> visible_session ?c s \<and> updatable_session ?c s) ?f (sessions (c_db c))
      = update_where (\<lambda>s. previous = Some (ss_token s) \<and> ss_user s = cn_user new \<and> \<not> ss_revoked s) ?f (sessions (c_db c))"
    by (rule update_where_cong) (use assms(2) Some in \<open>auto simp: visible_session_def updatable_session_def\<close>)
  with update_sessions_Inr [OF upd] ins show ?thesis by simp
qed

lemma login_coordinator_success:
  assumes "hashes_32 env" and "login_coordinator env fresh input now force (fresh_conn at db) = (Inr res, c)"
  shows "\<not> force \<and> (\<exists>u address. account_named (li_email input) db = Some u \<and> may_log_in env input now u
     \<and> normal_ip env (li_ip input) = Some address \<and> lr_user res = us_id u \<and> lr_secrets res = fresh
     \<and> (let available = active_orgs (us_id u) ((fresh_conn at db)\<lparr>c_user := Some (us_id u)\<rparr>)
        in available \<noteq> [] \<and> lr_org res = single_org available)
     \<and> sessions (c_db c) = sessions_after_login env fresh input now address (us_id u) (lr_org res) (sessions db))"
proof -
  let ?c = "fresh_conn at db"
  let ?found = "account_named (li_email input) db"
  let ?cred = "map_option (\<lambda>u. \<lparr>cr_user = us_id u, cr_password = us_password u, cr_active = us_active u,
           cr_locked_until = us_locked_until u\<rparr>) ?found"
  have find: "find_by_email (li_email input) ?c = (Inr ?cred, ?c)"
    by (simp add: find_by_email_def reads_def account_named_def)
  from assms(2) obtain i where i: "authenticate_credential env (li_password input) ?cred now = Inr i"
    by (cases "authenticate_credential env (li_password input) ?cred now")
      (auto simp: login_coordinator_def bindE_def find raise_def)
  then obtain u where u: "?found = Some u" "i = us_id u" "may_log_in env input now u"
    unfolding authenticate_credential_Inr by (auto simp: may_log_in_def dest: account_namedD)
  let ?c1 = "?c\<lparr>c_user := Some i\<rparr>" and ?av = "active_orgs i (?c\<lparr>c_user := Some i\<rparr>)"
  from assms(2) have force: "\<not> force" and av: "?av \<noteq> []"
    by (auto simp: login_coordinator_def bindE_def find i list_active_run raise_def split: if_splits)
  obtain address where ip: "normal_ip env (li_ip input) = Some address"
    using assms(2) force av
    by (auto simp: login_coordinator_def bindE_def find i list_active_run parse_address_def raise_def split: option.splits)
  let ?new = "\<lparr>cn_session = sc_session fresh, cn_user = i, cn_org = single_org ?av,
      cn_token = sha256 env (sc_token fresh), cn_csrf = sha256 env (sc_csrf fresh),
      cn_expires = now + SESSION_IDLE, cn_last_seen = now, cn_agent = bounded_agent (li_agent input),
      cn_address = Some address\<rparr>"
  have repl: "replace_for_login ?new (map_option (sha256 env) (li_previous input)) (?c1\<lparr>c_verified := Some i\<rparr>) = (Inr (), c)"
    and res: "lr_user res = i" "lr_secrets res = fresh" "lr_org res = single_org ?av"
    using assms(2) force av ip
    by (auto simp: login_coordinator_def prepare_login_def bindE_def find i list_active_run parse_address_def ret_def
        split: prod.splits sum.splits)
  have "sessions (c_db c) = sessions_after_login env fresh input now address i (lr_org res) (sessions db)"
    using replace_for_login_sessions [OF repl] assms(1) res(3)
    by (auto simp: hashes_32_def sessions_after_login_def new_session_def)
  with u force av ip res show ?thesis by (auto simp: Let_def)
qed

lemma run_on_redis:
  "on_redis m w = (Inr a, w') \<longleftrightarrow> (\<exists>r. m (aw_redis w) = (Inr a, r) \<and> w' = w\<lparr>aw_redis := r\<rparr>)"
  "on_redis m w = (Inl e, w') \<longleftrightarrow> (\<exists>e' r. m (aw_redis w) = (Inl e', r) \<and> e = limit_to_auth e' \<and> w' = w\<lparr>aw_redis := r\<rparr>)"
  by (auto simp: on_redis_def split: prod.splits sum.splits)

lemma run_on_db: "on_db m w = (res, w') \<longleftrightarrow> (\<exists>db. m (aw_db w) = (res, db) \<and> w' = w\<lparr>aw_db := db\<rparr>)"
  by (auto simp: on_db_def split: prod.splits)

lemma run_unit: "unit_of_work at m db = (Inr a, db') \<longleftrightarrow> online db \<and> (\<exists>c. m (fresh_conn at db) = (Inr a, c) \<and> db' = c_db c)"
  by (auto simp: unit_of_work_def split: prod.splits sum.splits)

lemma clear_failures_run: "clear_credential_failures email c = (Inr u, c') \<Longrightarrow> sessions (c_db c') = sessions (c_db c)"
  by (auto simp: clear_credential_failures_def update_users_def db_writes_def run_iffs split: if_splits)

lemma append_event_run: "append_event e c = (Inr u, c') \<Longrightarrow> sessions (c_db c') = sessions (c_db c)"
  by (auto simp: append_event_def db_writes_def run_iffs split: if_splits)

lemma login_transaction_success:
  assumes "hashes_32 env" and "login_transaction env fresh event_id input ck force db = (Inr res, db')"
  shows "online db \<and> \<not> force \<and> (\<exists>u address. account_named (li_email input) db = Some u \<and> may_log_in env input (ck_now ck) u
     \<and> normal_ip env (li_ip input) = Some address \<and> lr_user res = us_id u \<and> lr_secrets res = fresh
     \<and> (let available = active_orgs (us_id u) ((fresh_conn (ck_db ck) db)\<lparr>c_user := Some (us_id u)\<rparr>)
        in available \<noteq> [] \<and> lr_org res = single_org available)
     \<and> sessions db' = sessions_after_login env fresh input (ck_now ck) address (us_id u) (lr_org res) (sessions db))"
proof -
  obtain c where c: "login_coordinator env fresh input (ck_now ck) force (fresh_conn (ck_db ck) db) = (Inr res, c)"
    and "online db" "sessions db' = sessions (c_db c)"
    using assms(2)
    by (auto simp: login_transaction_def run_unit run_iffs dest!: clear_failures_run append_event_run)
  with login_coordinator_success [OF assms(1) c] show ?thesis by simp
qed

lemma run_limited: "(case e of RequestLimited n \<Rightarrow> m n | _ \<Rightarrow> raise e) s = res
    \<longleftrightarrow> (\<exists>n. e = RequestLimited n \<and> m n s = res) \<or> ((\<forall>n. e \<noteq> RequestLimited n) \<and> raise e s = res)"
  by (cases e) auto

lemma limit_to_auth_not [simp]: "limit_to_auth e \<noteq> AuthenticationRejected" "AuthenticationRejected \<noteq> limit_to_auth e"
  by (cases e; simp)+

lemma global_audit_not: "append_global_audit at event failed db \<noteq> (Inl AuthenticationRejected, db')"
proof
  assume "append_global_audit at event failed db = (Inl AuthenticationRejected, db')"
  then have "fst (append_global_audit at event failed db) = Inl AuthenticationRejected" by simp
  then show False by (simp add: append_global_audit_def fst_surfaces_Inl)
qed

lemma login_success_parts:
  assumes "login env fresh event_id input ck w = (Inr res, w')"
  shows "\<exists>pf r. preflight (limit_env.truncate env) (li_email input) (li_ip input) (ck_redis ck) (aw_redis w) = (Inr pf, r)
     \<and> login_transaction env fresh event_id input ck (credentials_blocked pf) (aw_db w) = (Inr res, aw_db w')"
  using assms unfolding login_def
  by (auto simp: run_iffs run_on_redis run_on_db run_limited sleep_def split: if_splits)

text \<open>
  Property C12. A login succeeds only for an existing active account whose stored hash accepts the
  password, that is not locked, and whose credentials the limiter does not block; the session it
  opens is the only new one, is bound to an organisation only if it is the single active one of the
  user, carries the fresh token, and the session presented with the request, if it was the user's,
  is revoked; no other session changes.
\<close>

theorem login_needs_credentials:
  assumes "hashes_32 env" and "login env fresh event_id input ck w = (Inr res, w')"
  shows "\<exists>u address. account_named (li_email input) (aw_db w) = Some u \<and> may_log_in env input (ck_now ck) u
     \<and> lr_user res = us_id u \<and> lr_secrets res = fresh
     \<and> (\<exists>pf. fst (preflight (limit_env.truncate env) (li_email input) (li_ip input) (ck_redis ck) (aw_redis w)) = Inr pf
          \<and> \<not> credentials_blocked pf)
     \<and> (case lr_org res of None \<Rightarrow> True
        | Some org \<Rightarrow> {m \<in> set (members (aw_db w)). mm_user m = us_id u \<and> mm_active m
             \<and> mm_org m \<in> og_id ` {g \<in> set (orgs (aw_db w)). og_active g}} \<noteq> {}
           \<and> mm_org ` {m \<in> set (members (aw_db w)). mm_user m = us_id u \<and> mm_active m
             \<and> mm_org m \<in> og_id ` {g \<in> set (orgs (aw_db w)). og_active g}} = {org})
     \<and> sessions (aw_db w') = sessions_after_login env fresh input (ck_now ck) address (us_id u) (lr_org res) (sessions (aw_db w))"
proof -
  from login_success_parts [OF assms(2)] obtain pf r
    where pf: "preflight (limit_env.truncate env) (li_email input) (li_ip input) (ck_redis ck) (aw_redis w) = (Inr pf, r)"
      and run: "login_transaction env fresh event_id input ck (credentials_blocked pf) (aw_db w) = (Inr res, aw_db w')"
    by blast
  from login_transaction_success [OF assms(1) run] obtain u address
    where u: "account_named (li_email input) (aw_db w) = Some u" "may_log_in env input (ck_now ck) u"
      "lr_user res = us_id u" "lr_secrets res = fresh" "\<not> credentials_blocked pf"
      "lr_org res = single_org (active_orgs (us_id u) ((fresh_conn (ck_db ck) (aw_db w))\<lparr>c_user := Some (us_id u)\<rparr>))"
      "sessions (aw_db w') = sessions_after_login env fresh input (ck_now ck) address (us_id u) (lr_org res) (sessions (aw_db w))"
    by (auto simp: Let_def)
  let ?orgs = "mm_org ` {m \<in> set (members (aw_db w)). mm_user m = us_id u \<and> mm_active m
             \<and> mm_org m \<in> og_id ` {g \<in> set (orgs (aw_db w)). og_active g}}"
  let ?av = "active_orgs (us_id u) ((fresh_conn (ck_db ck) (aw_db w))\<lparr>c_user := Some (us_id u)\<rparr>)"
  have mem: "(org, name) \<in> set ?av \<longleftrightarrow>
      (\<exists>m\<in>set (members (aw_db w)). mm_org m = org \<and> mm_user m = us_id u \<and> mm_active m)
      \<and> (\<exists>g\<in>set (orgs (aw_db w)). og_id g = org \<and> og_name g = name \<and> og_active g)" for org name
    using active_orgs_mem [of "(fresh_conn (ck_db ck) (aw_db w))\<lparr>c_user := Some (us_id u)\<rparr>" "us_id u"] by simp
  have av: "fst ` set ?av = ?orgs"
  proof (intro equalityI subsetI)
    fix org assume "org \<in> fst ` set ?av"
    then obtain name where "(org, name) \<in> set ?av" by force
    then obtain m g where "m \<in> set (members (aw_db w))" "mm_org m = org" "mm_user m = us_id u" "mm_active m"
      "g \<in> set (orgs (aw_db w))" "og_id g = org" "og_active g" unfolding mem by blast
    then show "org \<in> ?orgs" by force
  next
    fix org assume "org \<in> ?orgs"
    then obtain m g where "m \<in> set (members (aw_db w))" "mm_org m = org" "mm_user m = us_id u" "mm_active m"
      "g \<in> set (orgs (aw_db w))" "og_id g = org" "og_active g" by auto
    then have "(org, og_name g) \<in> set ?av" unfolding mem by blast
    then show "org \<in> fst ` set ?av" by force
  qed
  have orgs: "?orgs = {org}" if "lr_org res = Some org" for org
  proof -
    have len: "length ?av = 1" and hd: "fst (hd ?av) = org"
      using that u(6) by (simp_all add: single_org_def split: if_splits)
    then obtain p where p: "?av = [p]" by (cases ?av) auto
    with hd have "fst p = org" by simp
    then show ?thesis unfolding av [symmetric] p by simp
  qed
  moreover from orgs have "{m \<in> set (members (aw_db w)). mm_user m = us_id u \<and> mm_active m
             \<and> mm_org m \<in> og_id ` {g \<in> set (orgs (aw_db w)). og_active g}} \<noteq> {}" if "lr_org res = Some org" for org
    using that by blast
  ultimately show ?thesis using u pf by (auto split: option.split)
qed

lemma login_rejected_parts:
  assumes "login env fresh event_id input ck w = (Inl AuthenticationRejected, w')"
  shows "\<exists>pf r delay. preflight (limit_env.truncate env) (li_email input) (li_ip input) (ck_redis ck) (aw_redis w) = (Inr pf, r)
     \<and> record_failure (limit_env.truncate env) (li_email input) (li_ip input) (ck_redis ck) r = (Inr delay, aw_redis w')
     \<and> aw_slept w' = aw_slept w @ [delay]"
  using assms unfolding login_def
  by (auto simp: run_iffs run_on_redis run_on_db run_limited global_audit_not sleep_def split: if_splits)

text \<open>
  The refusals of a login cannot be told apart: an unknown address, a wrong password, an
  inactive or locked account, a user without an organisation and a blocked pair all give the same
  error, and two refused attempts on the same state of Redis leave Redis the same and wait the same
  time, whatever the two databases hold.
\<close>

theorem rejections_look_alike:
  assumes "login env fresh event_id input ck w = (Inl AuthenticationRejected, w')"
    and "login env fresh2 event_id2 input2 ck v = (Inl AuthenticationRejected, v')"
    and "li_email input2 = li_email input" and "li_ip input2 = li_ip input"
    and "aw_redis v = aw_redis w" and "aw_slept v = aw_slept w"
  shows "aw_redis v' = aw_redis w' \<and> aw_slept v' = aw_slept w'"
  using login_rejected_parts [OF assms(1)] login_rejected_parts [OF assms(2)] assms(3-6) by auto

text \<open>A blocked pair or account is never logged in, right password or not.\<close>

lemma blocked_login_fails:
  assumes "(\<exists>pf. fst (preflight (limit_env.truncate env) (li_email input) (li_ip input) (ck_redis ck) (aw_redis w)) = Inr pf
         \<and> credentials_blocked pf)
     \<or> (\<exists>n. fst (preflight (limit_env.truncate env) (li_email input) (li_ip input) (ck_redis ck) (aw_redis w)) = Inl (Limited n))"
    and "login env fresh event_id input ck w = (Inr res, w')" and "hashes_32 env"
  shows False
proof -
  obtain pf r where pf: "preflight (limit_env.truncate env) (li_email input) (li_ip input) (ck_redis ck) (aw_redis w) = (Inr pf, r)"
    and t: "login_transaction env fresh event_id input ck (credentials_blocked pf) (aw_db w) = (Inr res, aw_db w')"
    using login_success_parts [OF assms(2)] by blast
  from login_transaction_success [OF assms(3) t] have "\<not> credentials_blocked pf" by blast
  with assms(1) pf show False by auto
qed

text \<open>
  Property C13. Brute force against an account is stopped wherever it comes from. Let five failures of one
  account be recorded within a quarter of an hour, the first when none is counted, without a success
  of that account among them, from whatever addresses and between whatever other calls of the
  limiter. Then from the fifth until a second before a quarter of an hour has passed, no login for
  that account succeeds, from any address that can be read, with the right password or not, whatever
  calls come in between. Redis is taken to be reachable, and to round times to live of a second or more
  to at least one.
\<close>

theorem locked_account_cannot_login:
  assumes "hashes_32 env" and "tidy r" and "a = account_of (limit_env.truncate env) (li_email input)"
    and "length (own (limit_env.truncate env) a ops) = 5"
    and "\<not> list_ex (own_success (limit_env.truncate env) a) ops"
    and "\<forall>t\<in>set (own (limit_env.truncate env) a ops).
           hd (own (limit_env.truncate env) a ops) \<le> t \<and> t < hd (own (limit_env.truncate env) a ops) + 900000"
    and "live (hd (own (limit_env.truncate env) a ops)) (account_counter a) (r_keys r) = None"
    and "\<forall>op\<in>set later. last (own (limit_env.truncate env) a ops) \<le> op_time op"
    and "\<forall>ms\<ge>1000. 1 \<le> secs env ms" and "normal_ip env (li_ip input) \<noteq> None"
    and "ck_redis ck + 1000 \<le> last (own (limit_env.truncate env) a ops) + 900000"
    and "aw_redis w = exec_logins (limit_env.truncate env) (ops @ later) r"
  shows "fst (login env fresh event_id input ck w) \<noteq> Inr res"
proof
  assume "fst (login env fresh event_id input ck w) = Inr res"
  then obtain w' where run: "login env fresh event_id input ck w = (Inr res, w')" by (metis prod.collapse)
  have "\<forall>ms\<ge>1000. 1 \<le> secs (limit_env.truncate env) ms" "normal_ip (limit_env.truncate env) (li_ip input) \<noteq> None"
    using assms(9,10) by (simp_all add: limit_env.defs)
  note lock = account_lockout [OF assms(2-8) this assms(11)]
  show False
    by (rule blocked_login_fails [OF _ run assms(1)]) (use lock assms(12) in simp)
qed

section \<open>Password reset: what it does\<close>

definition usable_reset :: "auth_env \<Rightarrow> string \<Rightarrow> int \<Rightarrow> reset_row \<Rightarrow> bool" where
  "usable_reset env token now r \<longleftrightarrow> (\<exists>secret. parse_reset_token env token = Some (rs_id r, secret) \<and> rs_hash r = reset_mac env secret)
     \<and> rs_used r = None \<and> \<not> rs_revoked r \<and> now < rs_expires r"

definition spent :: "reset_row \<Rightarrow> bool" where
  "spent r \<longleftrightarrow> rs_used r \<noteq> None \<or> rs_revoked r"

text \<open>No setting of the connection shows a session, so this UPDATE changes none.\<close>

lemma update_sessions_unseen:
  assumes "c_token c = None"
  shows "update_sessions P f c = (Inr (rowcount (\<lambda>_. False) (sessions (c_db c))), c)"
proof -
  have "update_where (\<lambda>s. False) f (sessions (c_db c)) = sessions (c_db c)" by (simp add: update_where_def)
  then show ?thesis using assms
    by (simp add: update_sessions_def eff_defs db_writes_def visible_session_def list_ex_iff Let_def)
qed

lemma update_users_run: "update_users P f c = (Inr n, c') \<longleftrightarrow> \<not> list_ex (\<lambda>u. P u \<and> \<not> user_checks (f u)) (accounts (c_db c))
    \<and> n = rowcount P (accounts (c_db c)) \<and> c' = c\<lparr>c_db := (c_db c)\<lparr>accounts := update_where P f (accounts (c_db c))\<rparr>\<rparr>"
  by (auto simp: update_users_def db_writes_def eff_defs)

lemma update_resets_run: "update_resets P f c = (Inr (rowcount P (resets (c_db c))),
    c\<lparr>c_db := (c_db c)\<lparr>resets := update_where P f (resets (c_db c))\<rparr>\<rparr>)"
  by (simp add: update_resets_def db_writes_def eff_defs)

lemma consume_password_reset_run:
  assumes "consume_password_reset i u password used c = (Inr (), c')" and "c_token c = None"
  shows "sessions (c_db c') = sessions (c_db c)
    \<and> accounts (c_db c') = update_where (\<lambda>r. us_id r = u \<and> us_active r)
        (\<lambda>r. r\<lparr>us_password := password, us_failed := 0, us_locked_until := None\<rparr>) (accounts (c_db c))
    \<and> (\<exists>r\<in>set (accounts (c_db c)). us_id r = u \<and> us_active r)
    \<and> (\<forall>r\<in>set (resets (c_db c')). rs_user r = u \<longrightarrow> spent r)"
proof -
  let ?f = "\<lambda>r. r\<lparr>us_password := password, us_failed := 0, us_locked_until := None\<rparr>"
  let ?P = "\<lambda>r. us_id r = u \<and> us_active r"
  let ?Q1 = "\<lambda>r. rs_id r = i \<and> rs_user r = u \<and> rs_used r = None \<and> \<not> rs_revoked r"
  let ?Q2 = "\<lambda>r. rs_user r = u \<and> rs_id r \<noteq> i \<and> rs_used r = None \<and> \<not> rs_revoked r"
  let ?rest = "\<lambda>n. if n \<noteq> 1 then raise ContextMissing else bindE (update_resets ?Q1 (\<lambda>r. r\<lparr>rs_used := Some used\<rparr>)) (\<lambda>n.
       if n \<noteq> 1 then raise ContextMissing
       else bindE (update_resets ?Q2 (\<lambda>r. r\<lparr>rs_revoked := True\<rparr>)) (\<lambda>_.
       bindE (update_sessions (\<lambda>s. ss_user s = u \<and> \<not> ss_revoked s) (\<lambda>s. s\<lparr>ss_revoked := True\<rparr>)) (\<lambda>_. ret ())))"
  have "bindE (update_users ?P ?f) ?rest c = (Inr (), c')"
    using assms(1) unfolding consume_password_reset_def bindE_def [of "reads c_reset"]
    by (simp add: reads_def raise_def split: if_splits)
  then obtain n c1 where upd: "update_users ?P ?f c = (Inr n, c1)" and rest: "?rest n c1 = (Inr (), c')"
    unfolding run_bindE by blast
  from upd have n: "n = rowcount ?P (accounts (c_db c))"
    and c1: "c1 = c\<lparr>c_db := (c_db c)\<lparr>accounts := update_where ?P ?f (accounts (c_db c))\<rparr>\<rparr>"
    by (simp_all add: update_users_run)
  from rest n have count: "rowcount ?P (accounts (c_db c)) = 1"
    by (simp add: raise_def split: if_splits)
  from rest n c1 count assms(2) have c': "c' = c\<lparr>c_db := (c_db c)\<lparr>accounts := update_where ?P ?f (accounts (c_db c)),
      resets := update_where ?Q2 (\<lambda>r. r\<lparr>rs_revoked := True\<rparr>)
        (update_where ?Q1 (\<lambda>r. r\<lparr>rs_used := Some used\<rparr>) (resets (c_db c)))\<rparr>\<rparr>"
    by (simp add: bindE_def update_resets_run update_sessions_unseen ret_def raise_def split: if_splits)
  from count have "\<exists>r\<in>set (accounts (c_db c)). ?P r"
    by (auto simp: rowcount_def filter_eq_Cons_iff length_Suc_conv)
  moreover have "spent r" if "r \<in> set (resets (c_db c'))" "rs_user r = u" for r
  proof -
    from that(1) have "r \<in> set (update_where ?Q2 (\<lambda>r. r\<lparr>rs_revoked := True\<rparr>)
        (update_where ?Q1 (\<lambda>r. r\<lparr>rs_used := Some used\<rparr>) (resets (c_db c))))" by (simp add: c')
    then obtain r0 r1 where r1: "r1 = (if ?Q1 r0 then r0\<lparr>rs_used := Some used\<rparr> else r0)"
      and r: "r = (if ?Q2 r1 then r1\<lparr>rs_revoked := True\<rparr> else r1)"
      unfolding set_update_where by (elim imageE) blast
    show ?thesis
    proof (cases "?Q2 r1")
      case True
      then show ?thesis by (simp add: r spent_def)
    next
      case False
      with r that(2) have "r = r1" "\<not> ?Q2 r" by simp_all
      with that(2) r1 show ?thesis by (cases "?Q1 r0") (auto simp: spent_def)
    qed
  qed
  ultimately show ?thesis by (simp add: c')
qed

lemma fresh_token [simp]: "c_token (fresh_conn at db) = None"
  by (simp add: fresh_conn_def)

lemma consume_reset_parts:
  assumes "consume_reset env token password ip agent event_id ck w = (Inr (), w')"
  shows "\<exists>r c. r \<in> set (resets (aw_db w)) \<and> usable_reset env token (ck_now ck) r
     \<and> consume_password_reset (rs_id r) (rs_user r) password (ck_now ck)
         ((fresh_conn (ck_db ck) (aw_db w))\<lparr>c_reset := Some (rs_id r, rs_user r)\<rparr>) = (Inr (), c)
     \<and> sessions (aw_db w') = sessions (c_db c) \<and> accounts (aw_db w') = accounts (c_db c)
     \<and> resets (aw_db w') = resets (c_db c)"
proof (cases "parse_reset_token env token")
  case None
  with assms show ?thesis
    by (auto simp: consume_reset_def Let_def run_iffs run_on_redis run_on_db run_unit split: if_splits option.splits)
next
  case (Some p)
  obtain i secret where p: "p = (i, secret)" by (cases p)
  from assms obtain db where
    run: "surfaces {PasswordResetRejected} PasswordResetUnavailable (unit_of_work (ck_db ck)
          (bindE (lock_password_reset_token i) (\<lambda>found. case found of
             None \<Rightarrow> raise PasswordResetRejected
           | Some r \<Rightarrow>
               if parse_reset_token env token = None \<or> rs_used r \<noteq> None \<or> rs_revoked r \<or> rs_expires r \<le> ck_now ck
                  \<or> rs_hash r \<noteq> reset_mac env secret
               then raise PasswordResetRejected
               else bindE (consume_password_reset (rs_id r) (rs_user r) password (ck_now ck)) (\<lambda>_.
                 append_event (reset_event event_id ''AUTH.PASSWORD_RESET_SUCCESS'' (rs_user r) ip agent))))) (aw_db w) = (Inr (), db)"
    and w': "aw_db w' = db"
    unfolding consume_reset_def Some p Let_def run_bindE run_on_redis
    by (auto simp: run_basic run_on_db split: if_splits)
  show ?thesis
  proof (cases "first_row (select_where (\<lambda>r. rs_id r = i) (resets (aw_db w)))")
    case None
    with run show ?thesis
      by (auto simp: run_unit run_bindE lock_password_reset_token_def run_basic)
  next
    case (Some r)
    then have r: "r \<in> set (resets (aw_db w))" "rs_id r = i" by (auto dest!: first_row_SomeD)
    let ?c = "(fresh_conn (ck_db ck) (aw_db w))\<lparr>c_reset := Some (rs_id r, rs_user r)\<rparr>"
    have lock: "lock_password_reset_token i (fresh_conn (ck_db ck) (aw_db w)) = (Inr (Some r), ?c)"
      by (simp add: lock_password_reset_token_def bindE_def reads_def Some writes_def ret_def)
    obtain c1 c where cons: "consume_password_reset (rs_id r) (rs_user r) password (ck_now ck) ?c = (Inr (), c1)"
      and "append_event (reset_event event_id ''AUTH.PASSWORD_RESET_SUCCESS'' (rs_user r) ip agent) c1 = (Inr (), c)"
      and "db = c_db c" and "usable_reset env token (ck_now ck) r"
      using run \<open>parse_reset_token env token = Some p\<close> p r(2)
      by (auto simp: run_unit bindE_def lock raise_def usable_reset_def split: if_splits prod.splits sum.splits)
    moreover have "sessions (c_db c) = sessions (c_db c1) \<and> accounts (c_db c) = accounts (c_db c1) \<and> resets (c_db c) = resets (c_db c1)"
      using calculation(2) by (auto simp: append_event_def db_writes_def run_iffs split: if_splits)
    ultimately show ?thesis using r(1) w' by metis
  qed
qed

text \<open>
  A password reset that answers used a token that was neither used nor revoked nor
  expired and whose secret fits; it sets the password of that token's active user, lifts the lock,
  and leaves every reset token of the user spent. But it closes no session: the statement that
  should revoke the user's sessions runs on a connection whose settings show none of them, so
  whoever is signed in with the old password stays signed in.
\<close>

theorem password_reset_effect:
  assumes "consume_reset env token password ip agent event_id ck w = (Inr (), w')"
  shows "(\<exists>r\<in>set (resets (aw_db w)). usable_reset env token (ck_now ck) r
     \<and> list_ex (\<lambda>u. us_id u = rs_user r \<and> us_active u) (accounts (aw_db w))
     \<and> accounts (aw_db w') = update_where (\<lambda>u. us_id u = rs_user r \<and> us_active u)
          (\<lambda>u. u\<lparr>us_password := password, us_failed := 0, us_locked_until := None\<rparr>) (accounts (aw_db w))
     \<and> list_all (\<lambda>r'. rs_user r' \<noteq> rs_user r \<or> spent r') (resets (aw_db w')))
   \<and> sessions (aw_db w') = sessions (aw_db w)"
proof -
  from consume_reset_parts [OF assms] obtain r c where r: "r \<in> set (resets (aw_db w))" "usable_reset env token (ck_now ck) r"
    and run: "consume_password_reset (rs_id r) (rs_user r) password (ck_now ck)
         ((fresh_conn (ck_db ck) (aw_db w))\<lparr>c_reset := Some (rs_id r, rs_user r)\<rparr>) = (Inr (), c)"
    and w': "sessions (aw_db w') = sessions (c_db c)" "accounts (aw_db w') = accounts (c_db c)" "resets (aw_db w') = resets (c_db c)"
    by blast
  from consume_password_reset_run [OF run] r w' show ?thesis
    by (auto simp: list_ex_iff list_all_iff intro!: bexI [of _ r])
qed

text \<open>A token some row has spent is refused for ever: nothing but the answer of the limiter changes.\<close>

lemma spent_token_rejected:
  assumes "auth_ok (aw_db w)" and "r \<in> set (resets (aw_db w))" and "spent r"
    and "parse_reset_token env token = Some (rs_id r, secret)"
  shows "fst (consume_reset env token password ip agent event_id ck w) \<noteq> Inr ()"
proof
  assume "fst (consume_reset env token password ip agent event_id ck w) = Inr ()"
  then obtain w' where "consume_reset env token password ip agent event_id ck w = (Inr (), w')" by (metis prod.collapse)
  from consume_reset_parts [OF this] obtain r' where "r' \<in> set (resets (aw_db w))" "usable_reset env token (ck_now ck) r'"
    by blast
  moreover from this assms have "r' = r"
    by (auto simp: usable_reset_def auth_ok_def intro: distinct_key [of rs_id])
  ultimately show False using assms(3) by (auto simp: usable_reset_def spent_def)
qed

section \<open>Concrete runs\<close>

definition demo_input :: "string \<Rightarrow> string \<Rightarrow> login_input" where
  "demo_input email password = \<lparr>li_email = email, li_password = password, li_previous = Some ''tok'', li_agent = None,
     li_ip = ''10.0.0.9''\<rparr>"

definition demo_clocks :: clocks where
  "demo_clocks = \<lparr>ck_now = 100, ck_db = 100, ck_redis = 600000\<rparr>"

definition demo_world :: auth_world where
  "demo_world = \<lparr>aw_redis = empty_redis, aw_db = demo_db True, aw_slept = []\<rparr>"

definition demo_login :: "string \<Rightarrow> string \<Rightarrow> (auth_error + login_result) \<times> auth_world" where
  "demo_login email password = login demo_env demo_fresh 9 (demo_input email password) demo_clocks demo_world"

lemma demo_login_answers:
  "case fst (demo_login ''a@b.co'' ''secret123456'') of Inl e \<Rightarrow> False | Inr res \<Rightarrow> lr_org res = Some 10"
  by code_simp

lemma login_needs_credentials_witness:
  "\<exists>res u. fst (demo_login ''a@b.co'' ''secret123456'') = Inr res \<and> account_named ''a@b.co'' (demo_db True) = Some u
     \<and> may_log_in demo_env (demo_input ''a@b.co'' ''secret123456'') 100 u \<and> lr_user res = us_id u"
proof -
  obtain res where res: "fst (demo_login ''a@b.co'' ''secret123456'') = Inr res" using demo_login_answers
    by (cases "fst (demo_login ''a@b.co'' ''secret123456'')") simp_all
  from login_needs_credentials [OF demo_hashes run_of_fst [OF res [unfolded demo_login_def]]] res show ?thesis
    by (auto simp: demo_world_def demo_input_def demo_clocks_def)
qed

lemma rejections_look_alike_witness:
  "aw_redis (snd (demo_login ''a@b.co'' ''wrong'')) = aw_redis (snd (demo_login ''a@b.co'' ''bad guess''))
   \<and> aw_slept (snd (demo_login ''a@b.co'' ''wrong'')) = aw_slept (snd (demo_login ''a@b.co'' ''bad guess''))"
proof -
  have "fst (demo_login ''a@b.co'' ''wrong'') = Inl AuthenticationRejected"
    "fst (demo_login ''a@b.co'' ''bad guess'') = Inl AuthenticationRejected"
    by code_simp+
  note runs = this [unfolded demo_login_def, THEN run_of_fst]
  show ?thesis unfolding demo_login_def
    by (rule rejections_look_alike [OF runs(2,1)]) (simp_all add: demo_input_def)
qed

lemma locked_account_cannot_login_witness:
  "\<nexists>res. fst (login demo_env demo_fresh 9 (demo_input ''a@b.co'' ''secret123456'') demo_clocks
     (demo_world\<lparr>aw_redis := exec_logins (limit_env.truncate demo_env) (guesses @ []) empty_redis\<rparr>)) = Inr res"
proof -
  have env: "limit_env.truncate demo_env = plain_limits" by (simp add: limit_env.defs demo_env_def plain_limits_def)
  have input: "li_email (demo_input ''a@b.co'' ''secret123456'') = ''a@b.co''" by (simp add: demo_input_def)
  have "fst (login demo_env demo_fresh 9 (demo_input ''a@b.co'' ''secret123456'') demo_clocks
     (demo_world\<lparr>aw_redis := exec_logins (limit_env.truncate demo_env) (guesses @ []) empty_redis\<rparr>)) \<noteq> Inr res" for res
  proof (rule locked_account_cannot_login [OF demo_hashes tidy_empty refl, where ops = guesses and later = "[]"])
    show "length (own (limit_env.truncate demo_env) (account_of (limit_env.truncate demo_env)
        (li_email (demo_input ''a@b.co'' ''secret123456''))) guesses) = 5"
      unfolding env input own_guesses by simp
    show "ck_redis demo_clocks + 1000 \<le> last (own (limit_env.truncate demo_env) (account_of (limit_env.truncate demo_env)
        (li_email (demo_input ''a@b.co'' ''secret123456''))) guesses) + 900000"
      unfolding env input own_guesses by (simp add: demo_clocks_def)
    show "\<not> list_ex (own_success (limit_env.truncate demo_env) (account_of (limit_env.truncate demo_env)
        (li_email (demo_input ''a@b.co'' ''secret123456'')))) guesses"
      unfolding env input by (rule no_success_guesses)
    show "\<forall>t\<in>set (own (limit_env.truncate demo_env) (account_of (limit_env.truncate demo_env)
        (li_email (demo_input ''a@b.co'' ''secret123456''))) guesses).
      hd (own (limit_env.truncate demo_env) (account_of (limit_env.truncate demo_env)
        (li_email (demo_input ''a@b.co'' ''secret123456''))) guesses) \<le> t
      \<and> t < hd (own (limit_env.truncate demo_env) (account_of (limit_env.truncate demo_env)
        (li_email (demo_input ''a@b.co'' ''secret123456''))) guesses) + 900000"
      unfolding env input own_guesses by simp
    show "live (hd (own (limit_env.truncate demo_env) (account_of (limit_env.truncate demo_env)
        (li_email (demo_input ''a@b.co'' ''secret123456''))) guesses))
      (account_counter (account_of (limit_env.truncate demo_env)
        (li_email (demo_input ''a@b.co'' ''secret123456'')))) (r_keys empty_redis) = None"
      by (simp add: empty_redis_def live_def)
  qed (simp_all add: demo_env_def demo_input_def demo_world_def zdiv_mono1 [of 1000 _ 1000, simplified])
  then show ?thesis by blast
qed

lemma password_reset_effect_witness:
  "(\<exists>r\<in>set (resets (demo_db True)). usable_reset demo_env ''42.sesame'' 100 r)
   \<and> fst (consume_reset demo_env ''42.sesame'' ''$argon2id$other'' ''10.0.0.9'' None 9 demo_clocks demo_world) = Inr ()
   \<and> sessions (aw_db (snd (consume_reset demo_env ''42.sesame'' ''$argon2id$other'' ''10.0.0.9'' None 9 demo_clocks demo_world)))
     = sessions (demo_db True)"
proof -
  have run: "fst (consume_reset demo_env ''42.sesame'' ''$argon2id$other'' ''10.0.0.9'' None 9 demo_clocks demo_world) = Inr ()"
    by code_simp
  from password_reset_effect [OF run_of_fst [OF run]] run show ?thesis
    by (auto simp: demo_world_def demo_clocks_def)
qed

end
