(* ===== verification/Auth_Users.thy ===== *)
theory Auth_Users
  imports Auth_Login
begin

text \<open>
  Administration of the users of an organisation: \<open>backend/app/users/postgres.py\<close>, class
  \<open>PostgresUserDirectory\<close>, and the database functions of migration 0022 it calls.

  The functions run with the rights of the role that owns the schema, past the row policies, so they
  check the caller themselves; the audit row is written by the tenant role under its policy. Rows of
  other tables that refer to a membership (tickets, comments, remote actions, assignments made) forbid
  its deletion; whether there are any is an argument, as is which addresses the type \<open>inet\<close> takes.
\<close>

section \<open>The unit of work of a tenant\<close>

definition as_tenant :: "uuid \<Rightarrow> 'a ceff \<Rightarrow> 'a ceff" where
  "as_tenant org m = bindE (writes (\<lambda>c. c\<lparr>c_role := AppUser, c_org := Some org\<rparr>)) (\<lambda>_. m)"

record user_context =
  uc_actor :: uuid
  uc_ip :: "string option"
  uc_agent :: "string option"
  uc_event :: uuid
  uc_inet :: "string \<Rightarrow> bool"

definition append_user_audit ::
  "uuid \<Rightarrow> user_context \<Rightarrow> string \<Rightarrow> uuid \<Rightarrow> (string \<times> string) list \<Rightarrow> unit ceff" where
  "append_user_audit org cx action resource details =
     (if (case uc_ip cx of None \<Rightarrow> False | Some ip \<Rightarrow> \<not> uc_inet cx ip) then raise StatementFailed
      else append_event \<lparr>ev_id = uc_event cx, ev_org = Some org, ev_actor = Some (uc_actor cx), ev_actor_type = ''USER'',
        ev_ip = uc_ip cx, ev_agent = uc_agent cx, ev_action = action, ev_resource_type = ''USER_MEMBERSHIP'',
        ev_resource = Some resource, ev_status = ''SUCCESS'', ev_details = details\<rparr>)"

section \<open>The database functions\<close>

definition membership :: "uuid \<Rightarrow> uuid \<Rightarrow> member_row \<Rightarrow> bool" where
  "membership org u m \<longleftrightarrow> mm_org m = org \<and> mm_user m = u"

definition may_manage :: "uuid \<Rightarrow> uuid \<Rightarrow> auth_db \<Rightarrow> bool" where
  "may_manage org actor db \<longleftrightarrow>
     list_ex (\<lambda>m. membership org actor m \<and> mm_active m) (members db)
     \<and> list_ex (\<lambda>u. us_id u = actor \<and> us_active u) (accounts db)
     \<and> list_ex (\<lambda>a. ur_org a = org \<and> ur_user a = actor \<and>
         list_ex (\<lambda>g. rp_scope g = ur_scope a \<and> rp_role g = ur_role a \<and>
           list_ex (\<lambda>p. pm_id p = rp_permission g \<and> pm_name p = ''users:manage'') (permissions db))
         (role_permissions db)) (user_roles db)"

definition assert_tenant_user_manager :: "uuid \<Rightarrow> uuid \<Rightarrow> unit ceff" where
  "assert_tenant_user_manager org actor = bindE (reads id) (\<lambda>c.
     if c_org c \<noteq> Some org \<or> \<not> may_manage org actor (c_db c) then raise AdministrationDenied else ret ())"

record user_summary =
  sm_id :: uuid
  sm_email :: string
  sm_name :: string
  sm_active :: bool

definition account_summary :: "user_row \<Rightarrow> bool \<Rightarrow> user_summary" where
  "account_summary u active = \<lparr>sm_id = us_id u, sm_email = us_email u, sm_name = us_name u, sm_active = active\<rparr>"

definition tenant_users :: "uuid \<Rightarrow> uuid option \<Rightarrow> auth_db \<Rightarrow> user_summary list" where
  "tenant_users org after db = order_by sm_id (concat (map (\<lambda>m. map (\<lambda>u. account_summary u (us_active u \<and> mm_active m))
       (select_where (\<lambda>u. us_id u = mm_user m \<and> (case after of None \<Rightarrow> True | Some a \<Rightarrow> a < us_id u)) (accounts db)))
     (select_where (\<lambda>m. mm_org m = org) (members db))))"

definition list_tenant_users :: "uuid \<Rightarrow> uuid \<Rightarrow> uuid option \<Rightarrow> int \<Rightarrow> user_summary list ceff" where
  "list_tenant_users org actor after fetch_limit =
     bindE (assert_tenant_user_manager org actor) (\<lambda>_.
     if fetch_limit < 1 \<or> fetch_limit > 101 then raise InvalidLimit
     else reads (\<lambda>c. take (nat fetch_limit) (tenant_users org after (c_db c))))"

definition role_scope :: "role_row \<Rightarrow> uuid" where
  "role_scope r = (case ro_org r of None \<Rightarrow> SYSTEM_SCOPE | Some org \<Rightarrow> org)"

definition system_role :: "string \<Rightarrow> auth_db \<Rightarrow> role_row option" where
  "system_role name db = first_row (select_where (\<lambda>r. ro_name r = py_upper name \<and> ro_system r \<and> ro_org r = None) (roles db))"

definition insert_user :: "user_row \<Rightarrow> unit ceff" where
  "insert_user u = bindE (reads c_db) (\<lambda>db.
     if \<not> user_checks u \<or> us_id u \<in> us_id ` set (accounts db) \<or> us_email u \<in> us_email ` set (accounts db)
     then raise StatementFailed
     else db_writes (\<lambda>db. db\<lparr>accounts := accounts db @ [u]\<rparr>))"

text \<open>\<open>INSERT ... ON CONFLICT (organization_id, user_id) DO UPDATE SET is_active = true\<close>.\<close>

definition with_member :: "uuid \<Rightarrow> uuid \<Rightarrow> auth_db \<Rightarrow> auth_db" where
  "with_member org u db = (if list_ex (membership org u) (members db)
     then db\<lparr>members := update_where (membership org u) (\<lambda>m. m\<lparr>mm_active := True\<rparr>) (members db)\<rparr>
     else db\<lparr>members := members db @ [\<lparr>mm_org = org, mm_user = u, mm_active = True\<rparr>]\<rparr>)"

definition upsert_member :: "uuid \<Rightarrow> uuid \<Rightarrow> unit ceff" where
  "upsert_member org u = bindE (reads c_db) (\<lambda>db.
     if org \<notin> og_id ` set (orgs db) \<or> u \<notin> us_id ` set (accounts db) then raise StatementFailed
     else db_writes (with_member org u))"

definition is_system_role :: "auth_db \<Rightarrow> user_role_row \<Rightarrow> bool" where
  "is_system_role db a \<longleftrightarrow> list_ex (\<lambda>r. role_scope r = ur_scope a \<and> ro_id r = ur_role a \<and> ro_system r) (roles db)"

definition insert_user_role :: "user_role_row \<Rightarrow> unit ceff" where
  "insert_user_role a = bindE (reads c_db) (\<lambda>db.
     if list_ex (\<lambda>b. ur_org b = ur_org a \<and> ur_user b = ur_user a \<and> ur_role b = ur_role a) (user_roles db)
     then raise StatementFailed
     else db_writes (\<lambda>db. db\<lparr>user_roles := user_roles db @ [a]\<rparr>))"

definition create_tenant_user_membership ::
  "uuid \<Rightarrow> uuid \<Rightarrow> uuid \<Rightarrow> string \<Rightarrow> string \<Rightarrow> string \<Rightarrow> string \<Rightarrow> user_summary ceff" where
  "create_tenant_user_membership org actor new_id email password full_name role_name =
     bindE (assert_tenant_user_manager org actor) (\<lambda>_.
     bindE (reads (system_role role_name \<circ> c_db)) (\<lambda>selected. case selected of
       None \<Rightarrow> raise InvalidRole
     | Some role \<Rightarrow>
       bindE (reads (account_named (py_lower (btrim email)) \<circ> c_db)) (\<lambda>found.
       bindE (case found of
           Some u \<Rightarrow> ret u
         | None \<Rightarrow> let u = \<lparr>us_id = new_id, us_email = py_lower (btrim email), us_password = password,
               us_name = btrim full_name, us_active = True, us_failed = 0, us_locked_until = None\<rparr>
             in bindE (insert_user u) (\<lambda>_. ret u)) (\<lambda>target.
       bindE (upsert_member org (us_id target)) (\<lambda>_.
       bindE (db_writes (\<lambda>db. db\<lparr>user_roles := delete_where
           (\<lambda>a. ur_org a = org \<and> ur_user a = us_id target \<and> is_system_role db a) (user_roles db)\<rparr>)) (\<lambda>_.
       bindE (insert_user_role \<lparr>ur_org = org, ur_user = us_id target, ur_scope = role_scope role, ur_role = ro_id role\<rparr>) (\<lambda>_.
       ret (account_summary target (us_active target)))))))))"

definition set_tenant_user_membership_active :: "uuid \<Rightarrow> uuid \<Rightarrow> uuid \<Rightarrow> bool \<Rightarrow> user_summary ceff" where
  "set_tenant_user_membership_active org actor u active =
     bindE (assert_tenant_user_manager org actor) (\<lambda>_.
     bindE (reads (members \<circ> c_db)) (\<lambda>rows.
     if \<not> list_ex (membership org u) rows then raise MembershipNotFound
     else bindE (db_writes (\<lambda>db. db\<lparr>members := update_where (membership org u) (\<lambda>m. m\<lparr>mm_active := active\<rparr>) (members db)\<rparr>)) (\<lambda>_.
     bindE (reads (\<lambda>c. first_row (select_where (\<lambda>r. us_id r = u) (accounts (c_db c))))) (\<lambda>found. case found of
       None \<Rightarrow> raise StatementFailed
     | Some r \<Rightarrow> ret (account_summary r (us_active r \<and> active))))))"

definition open_session :: "uuid \<Rightarrow> uuid \<Rightarrow> session_row \<Rightarrow> bool" where
  "open_session org u s \<longleftrightarrow> ss_org s = Some org \<and> ss_user s = u \<and> \<not> ss_revoked s"

definition close_sessions :: "uuid \<Rightarrow> uuid \<Rightarrow> nat ceff" where
  "close_sessions org u = bindE (reads (sessions \<circ> c_db)) (\<lambda>rows.
     bindE (db_writes (\<lambda>db. db\<lparr>sessions := update_where (open_session org u) (\<lambda>s. s\<lparr>ss_revoked := True\<rparr>) (sessions db)\<rparr>))
       (\<lambda>_. ret (rowcount (open_session org u) rows)))"

definition revoke_tenant_user_sessions :: "uuid \<Rightarrow> uuid \<Rightarrow> uuid \<Rightarrow> nat ceff" where
  "revoke_tenant_user_sessions org actor u =
     bindE (assert_tenant_user_manager org actor) (\<lambda>_.
     bindE (reads (members \<circ> c_db)) (\<lambda>rows.
     if \<not> list_ex (membership org u) rows then raise MembershipNotFound else close_sessions org u))"

text \<open>A membership takes its sessions and its roles along.\<close>

definition without_member :: "uuid \<Rightarrow> uuid \<Rightarrow> auth_db \<Rightarrow> auth_db" where
  "without_member org u db = db\<lparr>members := delete_where (membership org u) (members db),
     sessions := delete_where (\<lambda>s. ss_org s = Some org \<and> ss_user s = u) (sessions db),
     user_roles := delete_where (\<lambda>a. ur_org a = org \<and> ur_user a = u) (user_roles db)\<rparr>"

definition delete_tenant_user_membership :: "(uuid \<Rightarrow> uuid \<Rightarrow> bool) \<Rightarrow> uuid \<Rightarrow> uuid \<Rightarrow> uuid \<Rightarrow> bool ceff" where
  "delete_tenant_user_membership referenced org actor u =
     bindE (assert_tenant_user_manager org actor) (\<lambda>_.
     bindE (close_sessions org u) (\<lambda>_.
     bindE (reads (members \<circ> c_db)) (\<lambda>rows.
     if \<not> list_ex (membership org u) rows then ret False
     else if referenced org u then raise StatementFailed
     else bindE (db_writes (without_member org u)) (\<lambda>_. ret True))))"

section \<open>The directory\<close>

definition list_users :: "uuid \<Rightarrow> uuid \<Rightarrow> int \<Rightarrow> uuid option \<Rightarrow> int \<Rightarrow> (user_summary list \<times> uuid option) deff" where
  "list_users org actor limit after at = bindE (unit_of_work at (as_tenant org (list_tenant_users org actor after (limit + 1))))
     (\<lambda>rows. let items = take (nat limit) rows in
        ret (items, if int (length rows) > limit \<and> items \<noteq> [] then Some (sm_id (last items)) else None))"

definition create_user ::
  "uuid \<Rightarrow> user_context \<Rightarrow> uuid \<Rightarrow> string \<Rightarrow> string \<Rightarrow> string \<Rightarrow> string \<Rightarrow> int \<Rightarrow> user_summary deff" where
  "create_user org cx new_id email full_name password role_name at =
     unit_of_work at (as_tenant org (bindE (create_tenant_user_membership org (uc_actor cx) new_id
         (py_lower (py_strip email)) password (py_strip full_name) (py_upper role_name)) (\<lambda>row.
      bindE (append_user_audit org cx ''USER.MEMBERSHIP_CREATED'' (sm_id row)
         [(''email'', sm_email row), (''role'', py_upper role_name)]) (\<lambda>_. ret row))))"

definition toggle_user_active :: "uuid \<Rightarrow> user_context \<Rightarrow> uuid \<Rightarrow> bool \<Rightarrow> int \<Rightarrow> user_summary deff" where
  "toggle_user_active org cx u active at =
     unit_of_work at (as_tenant org (bindE (set_tenant_user_membership_active org (uc_actor cx) u active) (\<lambda>row.
      bindE (append_user_audit org cx ''USER.MEMBERSHIP_STATUS_CHANGED'' u
         [(''is_active'', if active then ''true'' else ''false'')]) (\<lambda>_. ret row))))"

definition revoke_user_sessions :: "uuid \<Rightarrow> user_context \<Rightarrow> uuid \<Rightarrow> int \<Rightarrow> nat deff" where
  "revoke_user_sessions org cx u at =
     unit_of_work at (as_tenant org (bindE (revoke_tenant_user_sessions org (uc_actor cx) u) (\<lambda>n.
      bindE (append_user_audit org cx ''USER.SESSIONS_REVOKED'' u [(''revoked_sessions'', int_str (int n))])
         (\<lambda>_. ret n))))"

definition delete_user :: "(uuid \<Rightarrow> uuid \<Rightarrow> bool) \<Rightarrow> uuid \<Rightarrow> user_context \<Rightarrow> uuid \<Rightarrow> int \<Rightarrow> bool deff" where
  "delete_user referenced org cx u at =
     unit_of_work at (as_tenant org (bindE (delete_tenant_user_membership referenced org (uc_actor cx) u) (\<lambda>deleted.
      if deleted then bindE (append_user_audit org cx ''USER.MEMBERSHIP_DELETED'' u []) (\<lambda>_. ret True)
      else ret False)))"

section \<open>What the administration keeps\<close>

lemma keeps_as_tenant [sound_rules]: "keeps_sound issued old m \<Longrightarrow> keeps_sound issued old (as_tenant org m)"
  unfolding as_tenant_def by (intro flow_rules sound_rules) simp

lemma keeps_user_audit [sound_rules]: "keeps_sound issued old (append_user_audit org cx action resource details)"
  unfolding append_user_audit_def by (intro flow_rules sound_rules)

lemma keeps_assert_manager [sound_rules]: "keeps_sound issued old (assert_tenant_user_manager org actor)"
  unfolding assert_tenant_user_manager_def by (intro flow_rules)

lemma keeps_same_tables:
  assumes "\<And>db. sessions (g db) = sessions db" "\<And>db. resets (g db) = resets db" "\<And>db. accounts (g db) = accounts db"
  shows "keeps_sound issued old (db_writes g)"
  unfolding db_writes_def keeps_def writes_def using sound_same_tables assms by auto

lemma keeps_insert_user [sound_rules]: "keeps_sound issued old (insert_user u)"
proof (rule keepsI)
  fix c :: conn
  assume ok: "sound issued old (c_db c)"
  then have "sound issued old ((c_db c)\<lparr>accounts := accounts (c_db c) @ [u]\<rparr>)"
    if "user_checks u" "us_id u \<notin> us_id ` set (accounts (c_db c))" "us_email u \<notin> us_email ` set (accounts (c_db c))"
    using that by (auto simp: sound_def auth_ok_def auth_upto_def)
  then show "wp (insert_user u) (\<lambda>_ c. sound issued old (c_db c)) (\<lambda>_ c. sound issued old (c_db c)) c"
    using ok by (simp add: insert_user_def db_writes_def)
qed

lemma keeps_upsert_member [sound_rules]: "keeps_sound issued old (upsert_member org u)"
  unfolding upsert_member_def by (intro flow_rules keeps_same_tables) (simp_all add: with_member_def)

lemma keeps_insert_role [sound_rules]: "keeps_sound issued old (insert_user_role a)"
  unfolding insert_user_role_def by (intro flow_rules keeps_same_tables) simp_all

lemma keeps_close_sessions [sound_rules]: "keeps_sound issued old (close_sessions org u)"
proof (rule keepsI)
  fix c :: conn
  assume ok: "sound issued old (c_db c)"
  have "sound issued old ((c_db c)\<lparr>sessions := update_where (open_session org u) (\<lambda>s. s\<lparr>ss_revoked := True\<rparr>) (sessions (c_db c))\<rparr>)"
    by (rule sound_sessions [OF ok]) (use ok in \<open>auto simp: session_step_def sound_def auth_ok_def session_life_ok_def\<close>)
  then show "wp (close_sessions org u) (\<lambda>_ c. sound issued old (c_db c)) (\<lambda>_ c. sound issued old (c_db c)) c"
    by (simp add: close_sessions_def db_writes_def)
qed

lemma keeps_without_member [sound_rules]: "keeps_sound issued old (db_writes (without_member org u))"
  unfolding db_writes_def
proof (rule keepsI)
  fix c :: conn
  assume "sound issued old (c_db c)"
  then have "sound issued old (without_member org u (c_db c))"
    by (auto simp: sound_def auth_ok_def auth_upto_def without_member_def distinct_map_delete_where)
  then show "wp (writes (\<lambda>c. c\<lparr>c_db := without_member org u (c_db c)\<rparr>)) (\<lambda>_ c. sound issued old (c_db c)) (\<lambda>_ c. sound issued old (c_db c)) c"
    by simp
qed

section \<open>One administration operation\<close>

datatype admin_op =
    ListUsers int "uuid option"
  | CreateUser uuid string string string string
  | ToggleUser uuid bool
  | RevokeSessions uuid
  | DeleteUser uuid

definition run_admin :: "(uuid \<Rightarrow> uuid \<Rightarrow> bool) \<Rightarrow> uuid \<Rightarrow> user_context \<Rightarrow> int \<Rightarrow> admin_op \<Rightarrow> unit deff" where
  "run_admin referenced org cx at op = (case op of
     ListUsers limit after \<Rightarrow> bindE (list_users org (uc_actor cx) limit after at) (\<lambda>_. ret ())
   | CreateUser i email name password role \<Rightarrow> bindE (create_user org cx i email name password role at) (\<lambda>_. ret ())
   | ToggleUser u active \<Rightarrow> bindE (toggle_user_active org cx u active at) (\<lambda>_. ret ())
   | RevokeSessions u \<Rightarrow> bindE (revoke_user_sessions org cx u at) (\<lambda>_. ret ())
   | DeleteUser u \<Rightarrow> bindE (delete_user referenced org cx u at) (\<lambda>_. ret ()))"

lemma snd_then_unit: "snd (bindE m (\<lambda>_. ret ()) s) = snd (m s)"
  by (simp add: bindE_def ret_def split: prod.splits sum.splits)

lemma sound_admin:
  assumes "sound issued old db"
  shows "sound issued old (snd (run_admin referenced org cx at op db))"
proof (cases op)
  case (ListUsers limit after)
  have "sound issued old (snd (unit_of_work at (as_tenant org (list_tenant_users org (uc_actor cx) after (limit + 1))) db))"
    by (rule sound_unit_keeps [OF assms]) (unfold list_tenant_users_def, intro flow_rules sound_rules)
  then show ?thesis
    by (auto simp: ListUsers run_admin_def snd_then_unit list_users_def bindE_def ret_def Let_def split: prod.splits sum.splits)
next
  case (CreateUser i email name password role)
  have "keeps_sound issued old (create_tenant_user_membership org actor i email' password' name' role')" for actor email' password' name' role'
    unfolding create_tenant_user_membership_def Let_def
    by (intro flow_rules sound_rules keeps_same_tables) simp_all
  then show ?thesis unfolding CreateUser run_admin_def admin_op.case snd_then_unit create_user_def
    by (intro sound_unit_keeps [OF assms] flow_rules sound_rules)
next
  case (ToggleUser u active)
  have "keeps_sound issued old (set_tenant_user_membership_active org actor u active)" for actor
    unfolding set_tenant_user_membership_active_def
    by (intro flow_rules sound_rules keeps_same_tables) simp_all
  then show ?thesis unfolding ToggleUser run_admin_def admin_op.case snd_then_unit toggle_user_active_def
    by (intro sound_unit_keeps [OF assms] flow_rules sound_rules)
next
  case (RevokeSessions u)
  have "keeps_sound issued old (revoke_tenant_user_sessions org actor u)" for actor
    unfolding revoke_tenant_user_sessions_def by (intro flow_rules sound_rules)
  then show ?thesis unfolding RevokeSessions run_admin_def admin_op.case snd_then_unit revoke_user_sessions_def
    by (intro sound_unit_keeps [OF assms] flow_rules sound_rules)
next
  case (DeleteUser u)
  have "keeps_sound issued old (delete_tenant_user_membership referenced org actor u)" for actor
    unfolding delete_tenant_user_membership_def by (intro flow_rules sound_rules)
  then show ?thesis unfolding DeleteUser run_admin_def admin_op.case snd_then_unit delete_user_def
    by (intro sound_unit_keeps [OF assms] flow_rules sound_rules)
qed

section \<open>Tenants are kept apart\<close>

text \<open>What an administrator of \<open>org\<close> may change: rows of that organisation, new accounts, its audit.\<close>

definition confined :: "uuid \<Rightarrow> auth_db \<Rightarrow> auth_db \<Rightarrow> bool" where
  "confined org old db \<longleftrightarrow>
     select_where (\<lambda>m. mm_org m \<noteq> org) (members db) = select_where (\<lambda>m. mm_org m \<noteq> org) (members old)
     \<and> select_where (\<lambda>s. ss_org s \<noteq> Some org) (sessions db) = select_where (\<lambda>s. ss_org s \<noteq> Some org) (sessions old)
     \<and> select_where (\<lambda>a. ur_org a \<noteq> org) (user_roles db) = select_where (\<lambda>a. ur_org a \<noteq> org) (user_roles old)
     \<and> (\<exists>new. accounts db = accounts old @ new) \<and> (\<exists>new. events db = events old @ new \<and> list_all (\<lambda>(e, _). ev_org e = Some org) new)
     \<and> resets db = resets old \<and> orgs db = orgs old \<and> roles db = roles old \<and> role_permissions db = role_permissions old
     \<and> permissions db = permissions old \<and> online db = online old"

lemma confined_refl [simp]: "confined org db db"
  by (simp add: confined_def)

abbreviation keeps_confined :: "uuid \<Rightarrow> auth_db \<Rightarrow> 'a ceff \<Rightarrow> bool" where
  "keeps_confined org old m \<equiv> keeps (\<lambda>c. confined org old (c_db c)) m"

named_theorems confined_rules "statements that stay within one organisation"

lemma confined_conn [confined_rules]: "(\<And>c. c_db (g c) = c_db c) \<Longrightarrow> keeps_confined org old (writes g)"
  by (simp add: keeps_def writes_def)

lemma confined_write: "(\<And>db. confined org old db \<Longrightarrow> confined org old (g db)) \<Longrightarrow> keeps_confined org old (db_writes g)"
  by (simp add: keeps_def db_writes_def writes_def)

lemma confined_as_tenant [confined_rules]: "keeps_confined org old m \<Longrightarrow> keeps_confined org old (as_tenant org' m)"
  unfolding as_tenant_def by (intro flow_rules confined_rules) simp

lemma confined_audit [confined_rules]: "keeps_confined org old (append_user_audit org cx action resource details)"
  unfolding append_user_audit_def append_event_def
  by (intro flow_rules, rule keepsI) (auto simp: confined_def db_writes_def)

lemma confined_assert [confined_rules]: "keeps_confined org old (assert_tenant_user_manager org actor)"
  unfolding assert_tenant_user_manager_def by (intro flow_rules)

lemma confined_insert_user [confined_rules]: "keeps_confined org old (insert_user u)"
  unfolding insert_user_def by (intro flow_rules confined_write) (auto simp: confined_def)

lemma others_update:
  "(\<And>r. P r \<Longrightarrow> k r = v) \<Longrightarrow> (\<And>r. k (f r) = k r) \<Longrightarrow>
   select_where (\<lambda>r. k r \<noteq> v) (update_where P f t) = select_where (\<lambda>r. k r \<noteq> v) t"
  by (induction t) (auto simp: select_where_def update_where_def)

lemma others_delete:
  "(\<And>r. P r \<Longrightarrow> k r = v) \<Longrightarrow> select_where (\<lambda>r. k r \<noteq> v) (delete_where P t) = select_where (\<lambda>r. k r \<noteq> v) t"
  by (induction t) (auto simp: select_where_def delete_where_def)

lemma other_tenants:
  "select_where (\<lambda>m. mm_org m \<noteq> org) (update_where (membership org u) (\<lambda>m. m\<lparr>mm_active := b\<rparr>) ms) = select_where (\<lambda>m. mm_org m \<noteq> org) ms"
  "select_where (\<lambda>m. mm_org m \<noteq> org) (delete_where (membership org u) ms) = select_where (\<lambda>m. mm_org m \<noteq> org) ms"
  "select_where (\<lambda>s. ss_org s \<noteq> Some org) (update_where (open_session org u) (\<lambda>s. s\<lparr>ss_revoked := True\<rparr>) ss) = select_where (\<lambda>s. ss_org s \<noteq> Some org) ss"
  "select_where (\<lambda>s. ss_org s \<noteq> Some org) (delete_where (\<lambda>s. ss_org s = Some org \<and> ss_user s = u) ss) = select_where (\<lambda>s. ss_org s \<noteq> Some org) ss"
  "select_where (\<lambda>a. ur_org a \<noteq> org) (delete_where (\<lambda>a. ur_org a = org \<and> ur_user a = u) rs) = select_where (\<lambda>a. ur_org a \<noteq> org) rs"
  "select_where (\<lambda>a. ur_org a \<noteq> org) (delete_where (\<lambda>a. ur_org a = org \<and> ur_user a = u \<and> P a) rs) = select_where (\<lambda>a. ur_org a \<noteq> org) rs"
  "select_where (\<lambda>m. mm_org m \<noteq> org) (ms @ [\<lparr>mm_org = org, mm_user = u, mm_active = b\<rparr>]) = select_where (\<lambda>m. mm_org m \<noteq> org) ms"
  by (intro others_update others_delete; simp add: membership_def open_session_def)+
    (simp add: select_where_def)

lemma confined_upsert [confined_rules]: "keeps_confined org old (upsert_member org u)"
  unfolding upsert_member_def
  by (intro flow_rules confined_write)
    (simp_all add: confined_def with_member_def other_tenants)

lemma confined_set_active [confined_rules]:
  "keeps_confined org old (db_writes (\<lambda>db. db\<lparr>members := update_where (membership org u) (\<lambda>m. m\<lparr>mm_active := b\<rparr>) (members db)\<rparr>))"
  by (rule confined_write) (simp_all add: confined_def without_member_def other_tenants)

lemma confined_drop_roles [confined_rules]:
  "keeps_confined org old (db_writes (\<lambda>db. db\<lparr>user_roles := delete_where
     (\<lambda>a. ur_org a = org \<and> ur_user a = u \<and> P db a) (user_roles db)\<rparr>))"
  by (rule confined_write) (simp_all add: confined_def without_member_def other_tenants)

lemma confined_insert_role [confined_rules]: "ur_org a = org \<Longrightarrow> keeps_confined org old (insert_user_role a)"
  unfolding insert_user_role_def by (intro flow_rules confined_write) (simp add: confined_def select_where_def)

lemma confined_close [confined_rules]: "keeps_confined org old (close_sessions org u)"
  unfolding close_sessions_def
  by (intro flow_rules confined_write)
    (simp_all add: confined_def without_member_def other_tenants)

lemma confined_without [confined_rules]: "keeps_confined org old (db_writes (without_member org u))"
  by (rule confined_write) (simp_all add: confined_def without_member_def other_tenants)

text \<open>Every operation of the directory asks first.\<close>

definition tenant_conn :: "int \<Rightarrow> uuid \<Rightarrow> auth_db \<Rightarrow> conn" where
  "tenant_conn at org db = (fresh_conn at db)\<lparr>c_role := AppUser, c_org := Some org\<rparr>"

lemma tenant_conn_fields [simp]:
  "c_db (tenant_conn at org db) = db" "c_org (tenant_conn at org db) = Some org" "c_role (tenant_conn at org db) = AppUser"
  "c_clock (tenant_conn at org db) = at"
  by (simp_all add: tenant_conn_def fresh_conn_def)

definition guarded :: "uuid \<Rightarrow> uuid \<Rightarrow> 'a ceff \<Rightarrow> bool" where
  "guarded org actor m \<longleftrightarrow> (\<forall>c a c'. c_org c = Some org \<longrightarrow> m c = (Inr a, c') \<longrightarrow> may_manage org actor (c_db c))"

lemma guarded_assert: "guarded org actor (bindE (assert_tenant_user_manager org actor) k)"
  by (auto simp: guarded_def assert_tenant_user_manager_def run_bindE run_basic split: if_splits)

lemma guarded_bindE: "guarded org actor m \<Longrightarrow> guarded org actor (bindE m k)"
  by (auto simp: guarded_def run_bindE)

lemma as_tenant_run: "as_tenant org m (fresh_conn at db) = m (tenant_conn at org db)"
  by (simp add: as_tenant_def bindE_def writes_def tenant_conn_def)

lemma unit_tenant: "unit_of_work at (as_tenant org m) db = (Inr a, db') \<longleftrightarrow>
    online db \<and> (\<exists>c. m (tenant_conn at org db) = (Inr a, c) \<and> db' = c_db c)"
  by (simp add: run_unit as_tenant_run)

lemma tenant_unit_confined:
  assumes "guarded org actor m" and "\<And>old. keeps_confined org old m"
  shows "(\<exists>e. unit_of_work at (as_tenant org m) db = (Inl e, db))
    \<or> may_manage org actor db \<and> confined org db (snd (unit_of_work at (as_tenant org m) db))"
proof (cases "fst (unit_of_work at (as_tenant org m) db)")
  case (Inl e)
  with unit_of_work_Inl [OF Inl] show ?thesis by (metis prod.collapse)
next
  case (Inr a)
  then obtain db' where run: "unit_of_work at (as_tenant org m) db = (Inr a, db')" by (metis prod.collapse)
  then obtain c where c: "m (tenant_conn at org db) = (Inr a, c)" "db' = c_db c" unfolding unit_tenant by blast
  with assms(1) have "may_manage org actor db" by (force simp: guarded_def)
  moreover have "confined org db (c_db c)"
    using keepsD [OF assms(2) [of db], of "tenant_conn at org db"] c(1) by simp
  ultimately show ?thesis using run c(2) by simp
qed

lemma then_unit_confined:
  "(\<exists>e. m db = (Inl e, db)) \<or> M \<and> confined org db (snd (m db)) \<Longrightarrow>
   (\<exists>e. bindE m (\<lambda>_. ret ()) db = (Inl e, db)) \<or> M \<and> confined org db (snd (bindE m (\<lambda>_. ret ()) db))"
  by (auto simp: bindE_def ret_def split: prod.splits sum.splits)

text \<open>
  Property C14. Administration stays within the tenant: an operation on the users of an organisation
  either fails and changes nothing, or the caller is an active member of that organisation with an
  active account and the permission \<open>users:manage\<close>, and the operation changes only memberships,
  sessions and role assignments of that organisation, adds accounts but touches no existing one, and
  writes audit rows of that organisation only.
\<close>

theorem admin_confined:
  "(\<exists>e. run_admin referenced org cx at op db = (Inl e, db))
   \<or> may_manage org (uc_actor cx) db \<and> confined org db (snd (run_admin referenced org cx at op db))"
proof (cases op)
  case (ListUsers limit after)
  have "(\<exists>e. unit_of_work at (as_tenant org (list_tenant_users org (uc_actor cx) after (limit + 1))) db = (Inl e, db))
    \<or> may_manage org (uc_actor cx) db
      \<and> confined org db (snd (unit_of_work at (as_tenant org (list_tenant_users org (uc_actor cx) after (limit + 1))) db))"
    unfolding list_tenant_users_def
    by (intro tenant_unit_confined guarded_assert flow_rules confined_rules)
  then show ?thesis
    by (auto simp: ListUsers run_admin_def list_users_def bindE_def ret_def Let_def split: prod.splits sum.splits)
next
  case (CreateUser i email name password role)
  show ?thesis unfolding CreateUser run_admin_def admin_op.case create_user_def
    create_tenant_user_membership_def Let_def
    by (intro then_unit_confined tenant_unit_confined guarded_bindE guarded_assert flow_rules confined_rules) simp_all
next
  case (ToggleUser u active)
  show ?thesis unfolding ToggleUser run_admin_def admin_op.case toggle_user_active_def
    set_tenant_user_membership_active_def
    by (intro then_unit_confined tenant_unit_confined guarded_bindE guarded_assert flow_rules confined_rules)
next
  case (RevokeSessions u)
  show ?thesis unfolding RevokeSessions run_admin_def admin_op.case revoke_user_sessions_def
    revoke_tenant_user_sessions_def
    by (intro then_unit_confined tenant_unit_confined guarded_bindE guarded_assert flow_rules confined_rules)
next
  case (DeleteUser u)
  show ?thesis unfolding DeleteUser run_admin_def admin_op.case delete_user_def
    delete_tenant_user_membership_def
    by (intro then_unit_confined tenant_unit_confined guarded_bindE guarded_assert flow_rules confined_rules)
qed

section \<open>Revocation and removal\<close>

definition no_open_session :: "uuid \<Rightarrow> uuid \<Rightarrow> auth_db \<Rightarrow> bool" where
  "no_open_session org u db \<longleftrightarrow> \<not> list_ex (open_session org u) (sessions db)"

definition audited :: "auth_db \<Rightarrow> auth_db \<Rightarrow> bool" where
  "audited db db' \<longleftrightarrow> (\<exists>new. db' = db\<lparr>events := events db @ new\<rparr>)"

lemma audited_refl [simp]: "audited db db"
  unfolding audited_def by (rule exI [of _ "[]"]) simp

lemma audited_same: "audited db db' \<Longrightarrow> members db' = members db \<and> sessions db' = sessions db
    \<and> user_roles db' = user_roles db \<and> accounts db' = accounts db \<and> roles db' = roles db"
  by (auto simp: audited_def)

lemma user_audit_run: "append_user_audit org cx action resource details c = (Inr x, c') \<Longrightarrow> audited (c_db c) (c_db c')"
  unfolding audited_def
  by (auto simp: append_user_audit_def append_event_def db_writes_def run_iffs split: if_splits)

lemma assert_manager_run: "assert_tenant_user_manager org actor c = (Inr x, c') \<longleftrightarrow>
    c' = c \<and> c_org c = Some org \<and> may_manage org actor (c_db c)"
  by (auto simp: assert_tenant_user_manager_def run_iffs split: if_splits)

lemma close_sessions_run: "close_sessions org u c = (Inr n, c') \<longleftrightarrow>
    n = rowcount (open_session org u) (sessions (c_db c)) \<and> c' = c\<lparr>c_db := (c_db c)\<lparr>sessions :=
      update_where (open_session org u) (\<lambda>s. s\<lparr>ss_revoked := True\<rparr>) (sessions (c_db c))\<rparr>\<rparr>"
  by (auto simp: close_sessions_def db_writes_def eff_defs)

lemma closed: "no_open_session org u (db\<lparr>sessions := update_where (open_session org u) (\<lambda>s. s\<lparr>ss_revoked := True\<rparr>) rows\<rparr>)"
  by (induction rows) (auto simp: no_open_session_def update_where_def open_session_def)

lemma revoke_user_sessions_effect:
  assumes "revoke_user_sessions org cx u at db = (Inr n, db')"
  shows "n = rowcount (open_session org u) (sessions db) \<and> no_open_session org u db'
    \<and> sessions db' = update_where (open_session org u) (\<lambda>s. s\<lparr>ss_revoked := True\<rparr>) (sessions db)"
proof -
  obtain c where run: "revoke_tenant_user_sessions org (uc_actor cx) u (tenant_conn at org db) = (Inr n, c)"
    and db': "audited (c_db c) db'"
    using assms by (auto simp: revoke_user_sessions_def unit_tenant run_iffs dest!: user_audit_run)
  from run have "n = rowcount (open_session org u) (sessions db) \<and> c_db c = db\<lparr>sessions :=
      update_where (open_session org u) (\<lambda>s. s\<lparr>ss_revoked := True\<rparr>) (sessions db)\<rparr>"
    by (auto simp: revoke_tenant_user_sessions_def run_iffs assert_manager_run close_sessions_run split: if_splits)
  then show ?thesis using audited_same [OF db'] closed [of org u "sessions db" db] by (simp add: no_open_session_def)
qed

lemma delete_user_effect:
  assumes "delete_user referenced org cx u at db = (Inr deleted, db')"
  shows "no_open_session org u db' \<and> \<not> list_ex (membership org u) (members db')
    \<and> (deleted \<longrightarrow> \<not> list_ex (\<lambda>a. ur_org a = org \<and> ur_user a = u) (user_roles db'))"
proof -
  let ?rows = "update_where (open_session org u) (\<lambda>s. s\<lparr>ss_revoked := True\<rparr>) (sessions db)"
  obtain c where run: "delete_tenant_user_membership referenced org (uc_actor cx) u (tenant_conn at org db) = (Inr deleted, c)"
    and db': "audited (c_db c) db'"
    using assms
    by (auto simp: delete_user_def unit_tenant run_iffs split: if_splits dest!: user_audit_run)
  show ?thesis
  proof (cases deleted)
    case True
    then have "c_db c = without_member org u (db\<lparr>sessions := ?rows\<rparr>)"
      using run by (auto simp: delete_tenant_user_membership_def run_iffs assert_manager_run close_sessions_run db_writes_def
          split: if_splits)
    then show ?thesis using audited_same [OF db']
      by (auto simp: without_member_def no_open_session_def list_ex_iff open_session_def)
  next
    case False
    then have "c_db c = db\<lparr>sessions := ?rows\<rparr>" "\<not> list_ex (membership org u) (members db)"
      using run by (auto simp: delete_tenant_user_membership_def run_iffs assert_manager_run close_sessions_run db_writes_def
          split: if_splits)
    then show ?thesis using audited_same [OF db'] False closed [of org u "sessions db" db] by (simp add: no_open_session_def)
  qed
qed

text \<open>A session an administrator has closed authenticates nobody.\<close>

lemma closed_session_rejected:
  assumes "hashes_32 env" and "auth_ok db" and "online db" and "no_open_session org u db"
    and "case session_of env token db of None \<Rightarrow> True | Some s \<Rightarrow> ss_org s = Some org \<and> ss_user s = u"
  shows "session_authenticate env token now req at db = (Inl SessionRejected, db)"
proof -
  have "session_invalid now req s" if "session_of env token db = Some s" for s
  proof -
    from assms(5) that have s: "ss_org s = Some org" "ss_user s = u" by simp_all
    from session_of_mem [OF that] have mem: "s \<in> set (sessions db)" by blast
    have "ss_revoked s"
    proof (rule ccontr)
      assume "\<not> ss_revoked s"
      with s have "open_session org u s" by (simp add: open_session_def)
      with mem assms(4) show False by (auto simp: no_open_session_def list_ex_iff)
    qed
    then show ?thesis by (simp add: session_invalid_def)
  qed
  then show ?thesis using session_authenticate_run [OF assms(1-3)] by (auto split: option.splits)
qed

section \<open>Creation\<close>

definition new_account :: "uuid \<Rightarrow> string \<Rightarrow> string \<Rightarrow> string \<Rightarrow> user_row" where
  "new_account i email password name = \<lparr>us_id = i, us_email = email, us_password = password, us_name = name,
     us_active = True, us_failed = 0, us_locked_until = None\<rparr>"

lemma insert_user_run: "insert_user u c = (Inr x, c') \<Longrightarrow>
    u \<notin> set (accounts (c_db c)) \<and> c' = c\<lparr>c_db := (c_db c)\<lparr>accounts := accounts (c_db c) @ [u]\<rparr>\<rparr>"
  by (auto simp: insert_user_def db_writes_def run_iffs split: if_splits)

lemma upsert_member_run: "upsert_member org u c = (Inr x, c') \<Longrightarrow> c' = c\<lparr>c_db := with_member org u (c_db c)\<rparr>"
  by (auto simp: upsert_member_def db_writes_def run_iffs split: if_splits)

lemma insert_user_role_run: "insert_user_role a c = (Inr x, c') \<Longrightarrow>
    c' = c\<lparr>c_db := (c_db c)\<lparr>user_roles := user_roles (c_db c) @ [a]\<rparr>\<rparr>"
  by (auto simp: insert_user_role_def db_writes_def run_iffs split: if_splits)

lemma with_member_same [simp]:
  "accounts (with_member org u db) = accounts db" "user_roles (with_member org u db) = user_roles db"
  "roles (with_member org u db) = roles db"
  by (simp_all add: with_member_def)

lemma with_member_active: "list_ex (\<lambda>m. membership org u m \<and> mm_active m) (members (with_member org u db))"
proof (cases "list_ex (membership org u) (members db)")
  case True
  then obtain m where m: "m \<in> set (members db)" "membership org u m" by (auto simp: list_ex_iff)
  then have "m\<lparr>mm_active := True\<rparr> \<in> set (members (with_member org u db))"
    using True by (force simp: with_member_def set_update_where)
  with m(2) show ?thesis unfolding list_ex_iff by (intro bexI) (simp_all add: membership_def)
qed (simp add: with_member_def membership_def)

lemma is_system_role_cong: "roles db = roles db' \<Longrightarrow> is_system_role db = is_system_role db'"
  by (simp add: is_system_role_def fun_eq_iff)

lemma system_role_is: "system_role name db = Some role \<Longrightarrow>
    is_system_role db \<lparr>ur_org = org, ur_user = u, ur_scope = role_scope role, ur_role = ro_id role\<rparr>"
  by (auto simp: system_role_def is_system_role_def list_ex_iff dest!: first_row_SomeD)

definition granted_role :: "uuid \<Rightarrow> uuid \<Rightarrow> role_row \<Rightarrow> auth_db \<Rightarrow> auth_db" where
  "granted_role org u role db = db\<lparr>user_roles := delete_where
     (\<lambda>a. ur_org a = org \<and> ur_user a = u \<and> is_system_role db a) (user_roles db)
     @ [\<lparr>ur_org = org, ur_user = u, ur_scope = role_scope role, ur_role = ro_id role\<rparr>]\<rparr>"

lemma create_membership_run:
  assumes "create_tenant_user_membership org actor i email password name role_name c = (Inr row, c')"
  shows "\<exists>role u db. may_manage org actor (c_db c) \<and> system_role role_name (c_db c) = Some role
    \<and> (account_named (py_lower (btrim email)) (c_db c) = Some u \<and> db = c_db c
       \<or> u \<notin> set (accounts (c_db c)) \<and> u = new_account i (py_lower (btrim email)) password (btrim name)
         \<and> db = (c_db c)\<lparr>accounts := accounts (c_db c) @ [u]\<rparr>)
    \<and> row = account_summary u (us_active u)
    \<and> c_db c' = granted_role org (us_id u) role (with_member org (us_id u) db)"
proof -
  let ?email = "py_lower (btrim email)"
  let ?u = "new_account i ?email password (btrim name)"
  obtain role where may: "may_manage org actor (c_db c)" and role: "system_role role_name (c_db c) = Some role"
    using assms by (auto simp: create_tenant_user_membership_def run_iffs assert_manager_run split: option.splits)
  let ?rest = "\<lambda>target. bindE (upsert_member org (us_id target)) (\<lambda>_.
       bindE (db_writes (\<lambda>db. db\<lparr>user_roles := delete_where
           (\<lambda>a. ur_org a = org \<and> ur_user a = us_id target \<and> is_system_role db a) (user_roles db)\<rparr>)) (\<lambda>_.
       bindE (insert_user_role \<lparr>ur_org = org, ur_user = us_id target, ur_scope = role_scope role, ur_role = ro_id role\<rparr>) (\<lambda>_.
       ret (account_summary target (us_active target)))))"
  have "bindE (case account_named ?email (c_db c) of Some u \<Rightarrow> ret u | None \<Rightarrow> bindE (insert_user ?u) (\<lambda>_. ret ?u)) ?rest c
      = (Inr row, c')"
    using assms role unfolding create_tenant_user_membership_def Let_def new_account_def
    by (auto simp: run_bindE(1) [of "assert_tenant_user_manager _ _"] run_bindE(1) [of "reads _"] run_basic assert_manager_run)
  then obtain u c1 where u: "(case account_named ?email (c_db c) of Some u \<Rightarrow> ret u | None \<Rightarrow> bindE (insert_user ?u) (\<lambda>_. ret ?u)) c = (Inr u, c1)"
    and rest: "?rest u c1 = (Inr row, c')" unfolding run_bindE by blast
  have acc: "account_named ?email (c_db c) = Some u \<and> c_db c1 = c_db c
      \<or> u \<notin> set (accounts (c_db c)) \<and> u = ?u \<and> c_db c1 = (c_db c)\<lparr>accounts := accounts (c_db c) @ [u]\<rparr>"
    using u by (auto simp: run_iffs dest!: insert_user_run split: option.splits)
  from rest have "row = account_summary u (us_active u)"
    and "c_db c' = granted_role org (us_id u) role (with_member org (us_id u) (c_db c1))"
    by (auto simp: run_bindE run_basic db_writes_def granted_role_def is_system_role_def
        dest!: upsert_member_run insert_user_role_run)
  with acc may role show ?thesis by blast
qed

text \<open>
  Creating a user gives exactly the access that was asked for: when it answers, the
  caller may manage users there, the account is the existing one of that address, untouched, or a
  new active one with the given hash, its membership in the organisation is active, and of the
  system's roles it has in that organisation exactly the one named.
\<close>

theorem create_user_effect:
  assumes "create_user org cx i email name password role_name at db = (Inr row, db')"
  shows "may_manage org (uc_actor cx) db
    \<and> (\<exists>u role. u \<in> set (accounts db') \<and> row = account_summary u (us_active u)
       \<and> us_email u = py_lower (btrim (py_lower (py_strip email)))
       \<and> (u \<in> set (accounts db) \<and> accounts db' = accounts db
          \<or> u \<notin> set (accounts db) \<and> accounts db' = accounts db @ [u] \<and> us_active u \<and> us_password u = password)
       \<and> list_ex (\<lambda>m. membership org (us_id u) m \<and> mm_active m) (members db')
       \<and> system_role (py_upper role_name) db = Some role
       \<and> select_where (\<lambda>a. ur_org a = org \<and> ur_user a = us_id u \<and> is_system_role db a) (user_roles db')
         = [\<lparr>ur_org = org, ur_user = us_id u, ur_scope = role_scope role, ur_role = ro_id role\<rparr>])"
proof -
  let ?email = "py_lower (btrim (py_lower (py_strip email)))"
  obtain c where run: "create_tenant_user_membership org (uc_actor cx) i (py_lower (py_strip email)) password
        (py_strip name) (py_upper role_name) (tenant_conn at org db) = (Inr row, c)"
    and db': "audited (c_db c) db'"
    using assms by (auto simp: create_user_def unit_tenant run_iffs dest!: user_audit_run)
  from create_membership_run [OF run] obtain role u db1 where
    may: "may_manage org (uc_actor cx) db" and role: "system_role (py_upper role_name) db = Some role"
    and acc: "account_named ?email db = Some u \<and> db1 = db
       \<or> u \<notin> set (accounts db) \<and> u = new_account i ?email password (btrim (py_strip name))
         \<and> db1 = db\<lparr>accounts := accounts db @ [u]\<rparr>"
    and row: "row = account_summary u (us_active u)"
    and c: "c_db c = granted_role org (us_id u) role (with_member org (us_id u) db1)" by auto
  have same: "roles db1 = roles db" "user_roles db1 = user_roles db" using acc by auto
  have sys: "is_system_role (with_member org (us_id u) db1) = is_system_role db"
    by (rule is_system_role_cong) (simp add: same)
  note db' = audited_same [OF db']
  have "select_where (\<lambda>a. ur_org a = org \<and> ur_user a = us_id u \<and> is_system_role db a) (user_roles db')
         = [\<lparr>ur_org = org, ur_user = us_id u, ur_scope = role_scope role, ur_role = ro_id role\<rparr>]"
    using db' system_role_is [OF role]
    by (simp add: c granted_role_def sys same select_where_def delete_where_def)
  moreover have "list_ex (\<lambda>m. membership org (us_id u) m \<and> mm_active m) (members db')"
    using db' with_member_active [of org "us_id u" db1] by (simp add: c granted_role_def)
  moreover have "accounts db' = accounts db1" using db' by (simp add: c granted_role_def)
  moreover have "us_email u = ?email" using acc account_namedD by (auto simp: new_account_def)
  ultimately show ?thesis using acc may role row by (auto simp: new_account_def dest: account_namedD)
qed

section \<open>Concrete runs\<close>

definition demo_context :: user_context where
  "demo_context = \<lparr>uc_actor = 1, uc_ip = None, uc_agent = None, uc_event = 11, uc_inet = (\<lambda>_. True)\<rparr>"

lemma create_user_effect_witness:
  "fst (create_user 10 demo_context 2 ''Eva@b.co'' ''Eva'' ''$argon2id$x'' ''admin'' 0 (demo_db True))
     = Inr \<lparr>sm_id = 2, sm_email = ''eva@b.co'', sm_name = ''Eva'', sm_active = True\<rparr>
   \<and> may_manage 10 1 (demo_db True)
   \<and> (\<exists>u role. u \<in> set (accounts (snd (create_user 10 demo_context 2 ''Eva@b.co'' ''Eva'' ''$argon2id$x'' ''admin'' 0 (demo_db True))))
      \<and> us_email u = py_lower (btrim (py_lower (py_strip ''Eva@b.co''))) \<and> system_role (py_upper ''admin'') (demo_db True) = Some role)"
proof -
  have run: "fst (create_user 10 demo_context 2 ''Eva@b.co'' ''Eva'' ''$argon2id$x'' ''admin'' 0 (demo_db True))
     = Inr \<lparr>sm_id = 2, sm_email = ''eva@b.co'', sm_name = ''Eva'', sm_active = True\<rparr>"
    by code_simp
  have actor: "uc_actor demo_context = 1" by (simp add: demo_context_def)
  from create_user_effect [OF run_of_fst [OF run]] run show ?thesis unfolding actor by blast
qed

end
