(* ===== verification/Auth_System.thy ===== *)
theory Auth_System
  imports Auth_Users
begin

text \<open>
  All operations on accounts and sessions together, in any order: logins, password resets, requests of
  sessions, logouts, the choice of an organisation and the administration of users. A history variable
  collects the hashes of the session tokens handed out, so that what one operation keeps holds over
  runs (locale \<open>monotone_system\<close>).
\<close>

datatype auth_op =
    Login session_secrets uuid login_input clocks
  | RequestReset string uuid string string "string option" uuid clocks
  | ConsumeReset string string string "string option" uuid clocks
  | Authenticate string int bool int
  | GetMe string int int
  | Logout string "string option" "string option" int "string option" string uuid int
  | SelectContext session_secrets string "string option" "string option" uuid int "string option" string uuid int
  | Administer uuid user_context int admin_op

fun exec_auth :: "auth_env \<Rightarrow> (uuid \<Rightarrow> uuid \<Rightarrow> bool) \<Rightarrow> auth_op \<Rightarrow> auth_world \<Rightarrow> auth_world" where
  "exec_auth env ref (Login fresh i input ck) w = snd (login env fresh i input ck w)"
| "exec_auth env ref (RequestReset email t secret ip agent i ck) w = snd (request_reset env email t secret ip agent i ck w)"
| "exec_auth env ref (ConsumeReset token password ip agent i ck) w = snd (consume_reset env token password ip agent i ck w)"
| "exec_auth env ref (Authenticate token now req at) w = snd (on_db (session_authenticate env token now req at) w)"
| "exec_auth env ref (GetMe token now at) w = snd (on_db (get_me env token now at) w)"
| "exec_auth env ref (Logout token cookie header now agent ip i at) w
     = snd (on_db (logout env token cookie header now agent ip i at) w)"
| "exec_auth env ref (SelectContext fresh token cookie header org now agent ip i at) w
     = snd (on_db (select_context env fresh token cookie header org now agent ip i at) w)"
| "exec_auth env ref (Administer org cx at op) w = snd (on_db (run_admin ref org cx at op) w)"

fun issues :: "auth_env \<Rightarrow> auth_op \<Rightarrow> bytes set" where
  "issues env (Login fresh i input ck) = {sha256 env (sc_token fresh)}"
| "issues env (SelectContext fresh token cookie header org now agent ip i at) = {sha256 env (sc_token fresh)}"
| "issues env _ = {}"

definition run_auth :: "auth_env \<Rightarrow> (uuid \<Rightarrow> uuid \<Rightarrow> bool) \<Rightarrow> auth_op list \<Rightarrow> auth_world \<Rightarrow> auth_world" where
  "run_auth env ref ops w = fold (exec_auth env ref) ops w"

definition issued_by :: "auth_env \<Rightarrow> auth_op list \<Rightarrow> bytes set" where
  "issued_by env ops = \<Union> (set (map (issues env) ops))"

section \<open>The system as a monotone system\<close>

definition exec_issuing ::
  "auth_env \<Rightarrow> (uuid \<Rightarrow> uuid \<Rightarrow> bool) \<Rightarrow> auth_op \<Rightarrow> bytes set \<times> auth_world \<Rightarrow> bytes set \<times> auth_world" where
  "exec_issuing env ref op = (\<lambda>(issued, w). (issued \<union> issues env op, exec_auth env ref op w))"

definition auth_good :: "auth_env \<Rightarrow> bytes set \<times> auth_world \<Rightarrow> bool" where
  "auth_good env = (\<lambda>(issued, w). hashes_32 env \<and> auth_ok (aw_db w))"

definition auth_later :: "bytes set \<times> auth_world \<Rightarrow> bytes set \<times> auth_world \<Rightarrow> bool" where
  "auth_later = (\<lambda>(issued, w) (issued', w'). issued \<subseteq> issued' \<and> auth_upto issued' (aw_db w) (aw_db w'))"

lemma snd_on_db [simp]: "aw_db (snd (on_db m w)) = snd (m (aw_db w))"
  by (simp add: on_db_def split: prod.splits)

lemma exec_auth_sound:
  assumes "hashes_32 env" and "auth_ok (aw_db w)"
  shows "sound (issues env op) (aw_db w) (aw_db (exec_auth env ref op w))"
proof -
  have start: "sound issued (aw_db w) (aw_db w)" for issued
    using assms(2) by (simp add: sound_def auth_upto_refl)
  have world: "sound issued (aw_db w) (aw_db (snd (m w)))" if "keeps_world issued (aw_db w) m" for issued and m :: "'a weff"
    using keepsD [OF that, of w] start by simp
  show ?thesis
    by (cases op)
      (simp_all add: world keeps_login keeps_consume keeps_request start assms(1)
        sound_authenticate sound_get_me sound_logout sound_select sound_admin)
qed

interpretation auth: monotone_system "exec_issuing env ref" "auth_good env" auth_later
proof unfold_locales
  show "auth_good env (exec_issuing env ref p s)" if "auth_good env s" for p s
    using that exec_auth_sound [of env _ p ref] by (auto simp: auth_good_def exec_issuing_def sound_def split: prod.splits)
  show "auth_later s s" for s by (auto simp: auth_later_def auth_upto_refl split: prod.splits)
  show "auth_later s u" if "auth_later s t" "auth_later t u" for s t u
    using that by (auto simp: auth_later_def split: prod.splits intro: auth_upto_trans auth_upto_mono)
  show "auth_later s (exec_issuing env ref p s)" if "auth_good env s" for p s
    using that exec_auth_sound [of env _ p ref]
    by (auto simp: auth_good_def auth_later_def exec_issuing_def sound_def split: prod.splits intro: auth_upto_mono)
qed

lemma fold_issuing: "fold (exec_issuing env ref) ops (issued, w) = (issued \<union> issued_by env ops, run_auth env ref ops w)"
  by (induction ops arbitrary: issued w) (auto simp: exec_issuing_def issued_by_def run_auth_def)

lemma auth_runs:
  assumes "hashes_32 env" and "auth_ok (aw_db w)"
  shows "auth_ok (aw_db (run_auth env ref ops w)) \<and> auth_upto (issued_by env ops) (aw_db w) (aw_db (run_auth env ref ops w))"
proof -
  have good: "auth_good env ({}, w)" using assms by (simp add: auth_good_def)
  from auth.run_good [OF this, of ref ops] auth.run_upto [OF this, of ref ops] show ?thesis
    by (simp add: fold_issuing auth_good_def auth_later_def)
qed

text \<open>
  Property C10. Any sequence of logins, resets, requests, logouts, choices of an organisation and
  administration keeps the tables of accounts well formed: identifiers, session tokens and addresses
  unique, every session expiring within an hour of its last use and seven days of its creation,
  every account within its constraints. And from the first state on a session keeps its user,
  organisation and tokens and is never taken back from revocation, a new one carries a token that
  was handed out in between, and a reset token keeps its user, secret and use.
\<close>

theorem auth_runs_sound:
  assumes "hashes_32 env" and "auth_ok (aw_db w)"
  shows "auth_ok (aw_db (run_auth env ref ops w)) \<and> auth_upto (issued_by env ops) (aw_db w) (aw_db (run_auth env ref ops w))"
  by (rule auth_runs [OF assms])

section \<open>Ended sessions stay ended\<close>

text \<open>The operations that end the session of a token, when they answer.\<close>

inductive ends :: "auth_env \<Rightarrow> string \<Rightarrow> auth_db \<Rightarrow> auth_db \<Rightarrow> bool" for env token where
  by_logout: "logout env token cookie header now agent ip i at db = (Inr (), db') \<Longrightarrow> ends env token db db'"
| by_rotation: "select_context env fresh token cookie header org now agent ip i at db = (Inr r, db')
    \<Longrightarrow> ends env token db db'"
| by_revocation: "revoke_user_sessions org cx u at db = (Inr n, db') \<Longrightarrow> session_of env token db = Some s
    \<Longrightarrow> ss_org s = Some org \<Longrightarrow> ss_user s = u \<Longrightarrow> ends env token db db'"
| by_removal: "delete_user referenced org cx u at db = (Inr deleted, db') \<Longrightarrow> session_of env token db = Some s
    \<Longrightarrow> ss_org s = Some org \<Longrightarrow> ss_user s = u \<Longrightarrow> ends env token db db'"

lemma dead_with_session:
  assumes "auth_ok db" and "s \<in> set (sessions db)" and "ss_token s = h"
    and "sessions db' = sessions (with_session s (revoked_now now) db)"
  shows "dead_token h db'"
  using dead_revoked [OF assms(1,2), where db' = db' and now = now] assms(3,4) by (simp add: dead_token_def)

lemma dead_by_no_open:
  assumes "auth_ok db'" and "no_open_session org u db'"
    and "list_all (\<lambda>s. ss_token s \<noteq> h \<or> ss_org s = Some org \<and> ss_user s = u) (sessions db')"
  shows "dead_token h db'"
  using assms(2,3) by (fastforce simp: dead_token_def no_open_session_def open_session_def list_ex_iff list_all_iff)

text \<open>The session of a token keeps its user and organisation, whatever an operation does.\<close>

lemma owner_kept:
  assumes "auth_ok db" and "auth_upto {} db db'" and "session_of env token db = Some s"
  shows "list_all (\<lambda>s'. ss_token s' \<noteq> sha256 env token \<or> ss_org s' = ss_org s \<and> ss_user s' = ss_user s) (sessions db')"
  unfolding list_all_iff
proof (intro ballI)
  fix s' assume "s' \<in> set (sessions db')"
  then obtain r where r: "r \<in> set (sessions db)" "session_step r s'" using assms(2) by (auto simp: auth_upto_def)
  from session_of_mem [OF assms(3)] have s: "s \<in> set (sessions db)" "ss_token s = sha256 env token" by auto
  show "ss_token s' \<noteq> sha256 env token \<or> ss_org s' = ss_org s \<and> ss_user s' = ss_user s"
  proof (cases "ss_token s' = sha256 env token")
    case True
    with r(2) s(2) have "ss_token r = ss_token s" by (simp add: session_step_def)
    with assms(1) r(1) s(1) have "r = s" by (auto simp: auth_ok_def intro: distinct_key [of ss_token])
    with r(2) show ?thesis by (simp add: session_step_def)
  qed simp
qed

lemma ends_dead:
  assumes "ends env token db db'" and "hashes_32 env" and "auth_ok db" and "online db"
  shows "auth_ok db' \<and> dead_token (sha256 env token) db'"
  using assms(1)
proof cases
  case (by_logout cookie header now agent ip i at)
  have "auth_ok db'"
    using sound_logout [of "{}" db db env token cookie header now agent ip i at] assms(2,3) by_logout
    by (simp add: sound_def auth_upto_refl)
  moreover from logout_effect [OF assms(2-4) by_logout] obtain s where
    "usable env token now db s" "sessions db' = sessions (with_session s (revoked_now now) db)" by blast
  ultimately show ?thesis using dead_with_session [OF assms(3)] usableD by metis
next
  case (by_rotation fresh cookie header org now agent ip i at r)
  obtain o' secrets where r: "r = (o', secrets)" by (cases r)
  have ok: "auth_ok db'"
    using sound_select [of UNIV db db env fresh token cookie header org now agent ip i at] assms(2,3) by_rotation
    by (simp add: sound_def auth_upto_refl)
  from select_context_run [OF assms(2-4) by_rotation [unfolded r]] obtain s address where
    s: "usable env token now db s" and db': "sessions db' = sessions (with_session s (revoked_now now) db)
          @ [new_session env fresh (ss_user s) (Some org) now (bounded_agent agent) (Some address)]" by blast
  note row = usableD [OF s]
  have dead: "dead_token (ss_token s) (with_session s (revoked_now now) db)"
    by (rule dead_with_session [OF assms(3)]) (use row in simp_all)
  have "revoked_now now s \<in> set (sessions (with_session s (revoked_now now) db))"
    using row by (intro mem_with_session) simp
  moreover have "ss_token (revoked_now now s) = ss_token s" by (simp add: revoked_now_def)
  ultimately have "sha256 env (sc_token fresh) \<noteq> ss_token s"
    using ok db' by (auto simp: auth_ok_def new_session_def image_iff)
  with dead db' row have "dead_token (sha256 env token) db'" by (auto simp: dead_token_def new_session_def)
  with ok show ?thesis by blast
next
  case (by_revocation org cx u at n s)
  have "sound {} db (snd (run_admin (\<lambda>_ _. True) org cx at (RevokeSessions u) db))"
    using assms(3) by (intro sound_admin) (simp add: sound_def auth_upto_refl)
  then have ok: "auth_ok db'" "auth_upto {} db db'"
    using by_revocation(1) by (simp_all add: run_admin_def snd_then_unit sound_def)
  from revoke_user_sessions_effect [OF by_revocation(1)] have "no_open_session org u db'" by blast
  with dead_by_no_open [OF ok(1)] owner_kept [OF assms(3) ok(2) by_revocation(2)] by_revocation(3,4) ok(1)
  show ?thesis by simp
next
  case (by_removal referenced org cx u at deleted s)
  have "sound {} db (snd (run_admin referenced org cx at (DeleteUser u) db))"
    using assms(3) by (intro sound_admin) (simp add: sound_def auth_upto_refl)
  then have ok: "auth_ok db'" "auth_upto {} db db'"
    using by_removal(1) by (simp_all add: run_admin_def snd_then_unit sound_def)
  from delete_user_effect [OF by_removal(1)] have "no_open_session org u db'" by blast
  with dead_by_no_open [OF ok(1)] owner_kept [OF assms(3) ok(2) by_removal(2)] by_removal(3,4) ok(1)
  show ?thesis by simp
qed

text \<open>
  Property C11. An ended session stays ended: after a logout, the choice of an organisation, the
  revocation of a user's sessions or the removal of the user has answered, no later sequence of
  operations, as long as it does not draw the same token again, makes the old token authenticate a
  request; it is refused like an unknown one.
\<close>

theorem ended_session_stays_ended:
  assumes "hashes_32 env" and "auth_ok db" and "online db" and "ends env token db (aw_db w)"
    and "sha256 env token \<notin> issued_by env ops" and "online (aw_db (run_auth env ref ops w))"
  shows "session_authenticate env token now req at (aw_db (run_auth env ref ops w))
    = (Inl SessionRejected, aw_db (run_auth env ref ops w))"
proof -
  from ends_dead [OF assms(4,1-3)] have w: "auth_ok (aw_db w)" "dead_token (sha256 env token) (aw_db w)" by auto
  from auth_runs [OF assms(1) w(1), of ref ops]
  show ?thesis using dead_upto [OF _ w(2) assms(5)] dead_token_rejected [OF assms(1) _ assms(6)] by blast
qed

section \<open>A reset token is used once\<close>

text \<open>
  Property C17. A password-reset token works once: after a reset with it has answered, no later
  sequence of operations makes it, or any other token the user had, set a password again.
\<close>

theorem reset_token_single_use:
  assumes "hashes_32 env" and "auth_ok (aw_db w)"
    and "consume_reset env token password ip agent i ck w = (Inr (), w')"
  shows "fst (consume_reset env token password2 ip2 agent2 i2 ck2 (run_auth env ref ops w')) \<noteq> Inr ()"
proof -
  from consume_reset_parts [OF assms(3)] obtain r c where r: "r \<in> set (resets (aw_db w))" "usable_reset env token (ck_now ck) r"
    and run: "consume_password_reset (rs_id r) (rs_user r) password (ck_now ck)
         ((fresh_conn (ck_db ck) (aw_db w))\<lparr>c_reset := Some (rs_id r, rs_user r)\<rparr>) = (Inr (), c)"
    and w': "resets (aw_db w') = resets (c_db c)" by blast
  have "sound {} (aw_db w) (aw_db (snd (consume_reset env token password ip agent i ck w)))"
    using keepsD [OF keeps_consume [of "{}" "aw_db w"], of w] assms(2) by (simp add: sound_def auth_upto_refl)
  then have step: "auth_ok (aw_db w')" "table_evolves reset_step (resets (aw_db w)) (resets (aw_db w'))"
    using assms(3) by (simp_all add: sound_def auth_upto_def)
  from table_evolves_row [OF step(2) r(1)] obtain r1 where r1: "r1 \<in> set (resets (aw_db w'))" "reset_step r r1" by blast
  then have "spent r1" using consume_password_reset_run [OF run] w' by (simp add: reset_step_def)
  from auth_runs [OF assms(1) step(1), of ref ops] have later: "auth_ok (aw_db (run_auth env ref ops w'))"
    "table_evolves reset_step (resets (aw_db w')) (resets (aw_db (run_auth env ref ops w')))"
    by (simp_all add: auth_upto_def)
  from table_evolves_row [OF later(2) r1(1)] obtain r2 where
    r2: "r2 \<in> set (resets (aw_db (run_auth env ref ops w')))" "reset_step r1 r2" by blast
  with \<open>spent r1\<close> have "spent r2" by (auto simp: spent_def reset_step_def)
  moreover obtain secret where "parse_reset_token env token = Some (rs_id r2, secret)"
    using r(2) r1(2) r2(2) by (auto simp: usable_reset_def reset_step_def)
  ultimately show ?thesis using spent_token_rejected [OF later(1) r2(1)] by blast
qed

section \<open>Concrete runs\<close>

definition demo_ops :: "auth_op list" where
  "demo_ops = [Login demo_fresh 9 (demo_input ''a@b.co'' ''secret123456'') demo_clocks,
     Administer 10 demo_context 100 (ToggleUser 1 False), Authenticate ''new'' 200 True 200]"

lemma auth_runs_sound_witness:
  "auth_ok (aw_db (run_auth demo_env (\<lambda>_ _. False) demo_ops demo_world))
   \<and> auth_upto (issued_by demo_env demo_ops) (demo_db True) (aw_db (run_auth demo_env (\<lambda>_ _. False) demo_ops demo_world))"
  using auth_runs_sound [OF demo_hashes, of demo_world "\<lambda>_ _. False" demo_ops] demo_ok
  by (simp add: demo_world_def)

lemma ended_session_stays_ended_witness:
  "fst (session_authenticate demo_env ''tok'' 300 True 300 (aw_db (run_auth demo_env (\<lambda>_ _. False) demo_ops
     (demo_world\<lparr>aw_db := snd (logout demo_env ''tok'' (Some ''csrf'') (Some ''csrf'') 100 None ''10.0.0.1'' 9 0 (demo_db True))\<rparr>))))
   = Inl SessionRejected"
proof -
  let ?w = "demo_world\<lparr>aw_db := snd (logout demo_env ''tok'' (Some ''csrf'') (Some ''csrf'') 100 None ''10.0.0.1'' 9 0 (demo_db True))\<rparr>"
  have "fst (logout demo_env ''tok'' (Some ''csrf'') (Some ''csrf'') 100 None ''10.0.0.1'' 9 0 (demo_db True)) = Inr ()"
    by code_simp
  from ends.by_logout [OF run_of_fst [OF this]]
  have ends: "ends demo_env ''tok'' (demo_db True) (aw_db ?w)" by simp
  have "sha256 demo_env ''tok'' \<notin> issued_by demo_env demo_ops"
    by code_simp
  moreover have "online (aw_db (run_auth demo_env (\<lambda>_ _. False) demo_ops ?w))" by code_simp
  ultimately show ?thesis
    using ended_session_stays_ended [OF demo_hashes demo_ok demo_online ends] by simp
qed

lemma reset_token_single_use_witness:
  "fst (consume_reset demo_env ''42.sesame'' ''$argon2id$third'' ''10.0.0.9'' None 12 demo_clocks
     (run_auth demo_env (\<lambda>_ _. False) demo_ops
       (snd (consume_reset demo_env ''42.sesame'' ''$argon2id$other'' ''10.0.0.9'' None 9 demo_clocks demo_world)))) \<noteq> Inr ()"
proof -
  have "fst (consume_reset demo_env ''42.sesame'' ''$argon2id$other'' ''10.0.0.9'' None 9 demo_clocks demo_world) = Inr ()"
    by code_simp
  from reset_token_single_use [OF demo_hashes _ run_of_fst [OF this]] demo_ok show ?thesis by (simp add: demo_world_def)
qed

end
