(* ===== verification/Support_Store.thy ===== *)
theory Support_Store
  imports Prelude
begin

text \<open>
  The tables of the help desk (migrations 0014 and 0024) with their constraints, and the statements
  of \<open>backend/app/support/postgres.py\<close> on tickets, comments, attachments and the outbox of file
  deletions.

  Every method of \<open>PostgresSupportRepository\<close> is one transaction that first names its
  organisation (\<open>_set_tenant\<close>); the row policies of the tables then show and admit rows of that
  organisation only. \<open>now\<close> is the time of the transaction, in microseconds. Devices, members,
  alerts and machine tokens belong to other components: here they are what foreign keys and
  queries read.
\<close>

section \<open>Text\<close>

text \<open>
  Text is ASCII, for which NFC is the identity. The control characters are category Cc in ASCII.
\<close>

definition control :: "char \<Rightarrow> bool" where
  "control c \<longleftrightarrow> ord_of c < 32 \<or> ord_of c = 127"

definition normalize_text :: "bool \<Rightarrow> string \<Rightarrow> string option" where
  "normalize_text multiline value =
     (let normalized = py_strip value in
      if list_ex (\<lambda>c. control c \<and> \<not> (multiline \<and> ord_of c \<in> {9, 10, 13})) normalized
      then None else Some normalized)"

definition normalize_required_text :: "bool \<Rightarrow> string \<Rightarrow> string option" where
  "normalize_required_text multiline value = (case normalize_text multiline value of
     Some (c # cs) \<Rightarrow> Some (c # cs) | _ \<Rightarrow> None)"

section \<open>Rows\<close>

datatype ticket_status = NEW | ASSIGNED | IN_PROGRESS | PENDING_CUSTOMER | RESOLVED | CLOSED

datatype ticket_priority = LOW | MEDIUM | HIGH | CRITICAL

fun status_text :: "ticket_status \<Rightarrow> string" where
  "status_text NEW = ''NEW''"
| "status_text ASSIGNED = ''ASSIGNED''"
| "status_text IN_PROGRESS = ''IN_PROGRESS''"
| "status_text PENDING_CUSTOMER = ''PENDING_CUSTOMER''"
| "status_text RESOLVED = ''RESOLVED''"
| "status_text CLOSED = ''CLOSED''"

fun priority_text :: "ticket_priority \<Rightarrow> string" where
  "priority_text LOW = ''LOW''"
| "priority_text MEDIUM = ''MEDIUM''"
| "priority_text HIGH = ''HIGH''"
| "priority_text CRITICAL = ''CRITICAL''"

record ticket_row =
  tk_org :: uuid
  tk_id :: uuid
  tk_device :: "uuid option"
  tk_alert :: "uuid option"
  tk_creator :: uuid
  tk_assignee :: "uuid option"
  tk_number :: string
  tk_title :: string
  tk_description :: string
  tk_status :: ticket_status
  tk_priority :: ticket_priority
  tk_resolved :: "int option"
  tk_created :: int
  tk_updated :: int

record comment_row =
  co_org :: uuid
  co_id :: uuid
  co_ticket :: uuid
  co_user :: uuid
  co_internal :: bool
  co_content :: string
  co_created :: int

record attachment_row =
  at_org :: uuid
  at_id :: uuid
  at_ticket :: uuid
  at_original :: string
  at_stored :: string
  at_mime :: string
  at_size :: nat
  at_path :: string
  at_uploaded :: int

datatype execution_status = PENDING_APPROVAL | DISPATCHED | ACCEPTED | EXECUTING | COMPLETED
  | FAILED | INTERRUPTED | UNKNOWN | TIMED_OUT | REJECTED

record execution_row =
  ex_org :: uuid
  ex_id :: uuid
  ex_device :: uuid
  ex_name :: string
  ex_requester :: uuid
  ex_approver :: "uuid option"
  ex_approved_at :: "int option"
  ex_nonce :: uuid
  ex_key :: "int option"
  ex_issued :: int
  ex_expires :: int
  ex_signature :: "string option"
  ex_parameters :: params
  ex_canonical :: string
  ex_status :: execution_status
  ex_exit :: "int option"
  ex_output :: "string option"
  ex_digest :: "bytes option"
  ex_token :: "uuid option"
  ex_accepted_at :: "int option"
  ex_executed_at :: "int option"

datatype outbox_status = OB_PENDING | OB_PROCESSING | OB_COMPLETED | OB_FAILED

record outbox_row =
  ob_id :: uuid
  ob_org :: uuid
  ob_path :: string
  ob_status :: outbox_status
  ob_attempts :: int
  ob_max :: int
  ob_error :: "string option"
  ob_created :: int
  ob_processed :: "int option"

record machine_token =
  mt_org :: uuid
  mt_device :: uuid
  mt_id :: uuid
  mt_revoked :: bool
  mt_expires :: "int option"

record trace =
  tr_ip :: "string option"
  tr_agent :: "string option"

record trail_row =
  tl_id :: uuid
  tl_org :: uuid
  tl_actor :: uuid
  tl_actor_type :: string
  tl_trace :: trace
  tl_action :: string
  tl_resource_type :: string
  tl_resource :: uuid
  tl_details :: "(string \<times> string) list"
  tl_created :: int

record support_db =
  known_devices :: "(uuid \<times> uuid) list"
  known_members :: "(uuid \<times> uuid) list"
  known_alerts :: "(uuid \<times> uuid) list"
  machine_tokens :: "machine_token list"
  tickets :: "ticket_row list"
  comments :: "comment_row list"
  attachments :: "attachment_row list"
  executions :: "execution_row list"
  outbox :: "outbox_row list"
  trail :: "trail_row list"

datatype support_error = SupportNotFound | SupportConflict | SupportUnavailable | SupportInvalid
  | StatementFailed | StorageFailed | FileMissing | FileExists | BadValue

type_synonym 'a seff = "(support_db, support_error, 'a) eff"

section \<open>Constraints\<close>

definition ticket_checks :: "support_db \<Rightarrow> ticket_row \<Rightarrow> bool" where
  "ticket_checks db t \<longleftrightarrow> length (tk_number t) \<le> 50
     \<and> length (tk_title t) \<le> 255 \<and> 1 \<le> length (btrim (tk_title t))
     \<and> 1 \<le> length (btrim (tk_description t)) \<and> length (btrim (tk_description t)) \<le> 10000
     \<and> (tk_status t \<in> {RESOLVED, CLOSED} \<longleftrightarrow> tk_resolved t \<noteq> None)
     \<and> (\<forall>d\<in>set_option (tk_device t). (tk_org t, d) \<in> set (known_devices db))
     \<and> (\<forall>a\<in>set_option (tk_alert t). (tk_org t, a) \<in> set (known_alerts db))
     \<and> (tk_org t, tk_creator t) \<in> set (known_members db)
     \<and> (\<forall>u\<in>set_option (tk_assignee t). (tk_org t, u) \<in> set (known_members db))"

definition ticket_key :: "ticket_row \<Rightarrow> uuid \<times> uuid" where
  "ticket_key t = (tk_org t, tk_id t)"

definition has_ticket :: "uuid \<Rightarrow> uuid \<Rightarrow> support_db \<Rightarrow> bool" where
  "has_ticket org t db \<longleftrightarrow> (org, t) \<in> ticket_key ` set (tickets db)"

definition comment_checks :: "support_db \<Rightarrow> comment_row \<Rightarrow> bool" where
  "comment_checks db c \<longleftrightarrow> 1 \<le> length (btrim (co_content c)) \<and> length (btrim (co_content c)) \<le> 10000
     \<and> has_ticket (co_org c) (co_ticket c) db \<and> (co_org c, co_user c) \<in> set (known_members db)"

text \<open>\<open>stored_filename\<close> matches the text of a UUID of version 4 with one of three extensions.\<close>

definition lower_hex :: "char \<Rightarrow> bool" where
  "lower_hex c \<longleftrightarrow> is_digit c \<or> (97 \<le> ord_of c \<and> ord_of c \<le> 102)"

definition generated_name :: "string \<Rightarrow> bool" where
  "generated_name s \<longleftrightarrow> drop 36 s \<in> {''.png'', ''.jpg'', ''.pdf''} \<and> 36 \<le> length s
     \<and> list_all (\<lambda>i. if i \<in> {8, 13, 18, 23} then s ! i = CHR ''-'' else lower_hex (s ! i)) [0..<36]
     \<and> s ! 14 = CHR ''4'' \<and> s ! 19 \<in> set ''89ab''"

definition MAX_ATTACHMENT_BYTES :: nat where
  "MAX_ATTACHMENT_BYTES = 10 * 1024 * 1024"

definition attachment_checks :: "support_db \<Rightarrow> attachment_row \<Rightarrow> bool" where
  "attachment_checks db a \<longleftrightarrow> length (at_original a) \<le> 255 \<and> length (at_path a) \<le> 500
     \<and> 1 \<le> at_size a \<and> at_size a \<le> MAX_ATTACHMENT_BYTES
     \<and> at_mime a \<in> {''image/png'', ''image/jpeg'', ''application/pdf''} \<and> generated_name (at_stored a)
     \<and> has_ticket (at_org a) (at_ticket a) db"

section \<open>Audit\<close>

text \<open>
  \<open>_audit\<close>. The address must be one PostgreSQL reads (\<open>inet\<close>, a parameter); the details are objects
  of a few short strings and stay within their bound.
\<close>

definition append_trail :: "(string \<Rightarrow> bool) \<Rightarrow> trail_row \<Rightarrow> unit seff" where
  "append_trail inet e = bindE (reads trail) (\<lambda>rows.
     if (\<exists>ip\<in>set_option (tr_ip (tl_trace e)). \<not> inet ip)
        \<or> (\<exists>a\<in>set_option (tr_agent (tl_trace e)). 255 < length a)
        \<or> list_ex (\<lambda>r. (tl_org r, tl_id r, tl_created r) = (tl_org e, tl_id e, tl_created e)) rows
     then raise StatementFailed
     else writes (\<lambda>db. db\<lparr>trail := trail db @ [e]\<rparr>))"

text \<open>What every request brings: the transaction time, the identifier of its audit row, the trace.\<close>

record call =
  cl_now :: int
  cl_audit :: uuid
  cl_trace :: trace
  cl_inet :: "string \<Rightarrow> bool"

definition audit_call ::
  "call \<Rightarrow> uuid \<Rightarrow> uuid \<Rightarrow> string \<Rightarrow> string \<Rightarrow> string \<Rightarrow> uuid \<Rightarrow> (string \<times> string) list \<Rightarrow> unit seff" where
  "audit_call cl org actor actor_type action resource_type resource details =
     append_trail (cl_inet cl) \<lparr>tl_id = cl_audit cl, tl_org = org, tl_actor = actor,
       tl_actor_type = actor_type, tl_trace = cl_trace cl, tl_action = action,
       tl_resource_type = resource_type, tl_resource = resource, tl_details = details,
       tl_created = cl_now cl\<rparr>"

section \<open>Tickets\<close>

text \<open>The rows that the policies show to a transaction of an organisation.\<close>

definition own_tickets :: "uuid \<Rightarrow> support_db \<Rightarrow> ticket_row list" where
  "own_tickets org db = select_where (\<lambda>t. tk_org t = org) (tickets db)"

definition own_comments :: "uuid \<Rightarrow> support_db \<Rightarrow> comment_row list" where
  "own_comments org db = select_where (\<lambda>c. co_org c = org) (comments db)"

definition own_attachments :: "uuid \<Rightarrow> support_db \<Rightarrow> attachment_row list" where
  "own_attachments org db = select_where (\<lambda>a. at_org a = org) (attachments db)"

definition own_outbox :: "uuid \<Rightarrow> support_db \<Rightarrow> outbox_row list" where
  "own_outbox org db = select_where (\<lambda>b. ob_org b = org) (outbox db)"

record ticket_request =
  tq_device :: "uuid option"
  tq_alert :: "uuid option"
  tq_title :: string
  tq_description :: string
  tq_priority :: ticket_priority

definition pg_create_ticket :: "call \<Rightarrow> uuid \<Rightarrow> uuid \<Rightarrow> uuid \<Rightarrow> string \<Rightarrow> ticket_request \<Rightarrow> ticket_row seff" where
  "pg_create_ticket cl org i creator number q = txn (bindE (reads id) (\<lambda>db.
     let t = \<lparr>tk_org = org, tk_id = i, tk_device = tq_device q, tk_alert = tq_alert q,
       tk_creator = creator, tk_assignee = None, tk_number = number, tk_title = tq_title q,
       tk_description = tq_description q, tk_status = NEW, tk_priority = tq_priority q,
       tk_resolved = None, tk_created = cl_now cl, tk_updated = cl_now cl\<rparr> in
     if \<not> ticket_checks db t
        \<or> list_ex (\<lambda>r. tk_org r = org \<and> (tk_id r = i \<or> tk_number r = number)) (tickets db)
     then raise StatementFailed
     else bindE (writes (\<lambda>db. db\<lparr>tickets := tickets db @ [t]\<rparr>)) (\<lambda>_.
       bindE (audit_call cl org creator ''USER'' ''TICKET.CREATED'' ''ticket'' i
         [(''priority'', priority_text (tq_priority q))]) (\<lambda>_. ret t))))"

text \<open>A page of rows by identifier, and the cursor to the next page if there is one.\<close>

definition page_of :: "('r \<Rightarrow> uuid) \<Rightarrow> nat \<Rightarrow> uuid option \<Rightarrow> 'r list \<Rightarrow> 'r list \<times> uuid option" where
  "page_of key limit after rows =
     (let found = take (limit + 1) (order_by key (select_where (\<lambda>r.
        case after of None \<Rightarrow> True | Some a \<Rightarrow> a < key r) rows));
          visible = take limit found
      in (visible, if limit < length found \<and> visible \<noteq> [] then Some (key (last visible)) else None))"

definition pg_list_tickets ::
  "uuid \<Rightarrow> uuid \<Rightarrow> bool \<Rightarrow> nat \<Rightarrow> uuid option \<Rightarrow> (ticket_row list \<times> uuid option) seff" where
  "pg_list_tickets org actor can_read_all limit after = reads (\<lambda>db. page_of tk_id limit after
     (select_where (\<lambda>t. can_read_all \<or> tk_creator t = actor) (own_tickets org db)))"

definition readable_ticket :: "uuid \<Rightarrow> uuid \<Rightarrow> uuid \<Rightarrow> bool \<Rightarrow> support_db \<Rightarrow> ticket_row option" where
  "readable_ticket org t actor all_of_them db = first_row (select_where
     (\<lambda>r. tk_id r = t \<and> (all_of_them \<or> tk_creator r = actor)) (own_tickets org db))"

definition pg_get_ticket :: "uuid \<Rightarrow> uuid \<Rightarrow> uuid \<Rightarrow> bool \<Rightarrow> ticket_row seff" where
  "pg_get_ticket org t actor can_read_all = bindE (reads (readable_ticket org t actor can_read_all))
     (\<lambda>row. case row of None \<Rightarrow> raise SupportNotFound | Some r \<Rightarrow> ret r)"

text \<open>Rows of the outbox for the paths of deleted attachments; \<open>gen\<close> is \<open>gen_random_uuid\<close>.\<close>

definition queue_deletions ::
  "(nat \<Rightarrow> uuid) \<Rightarrow> uuid \<Rightarrow> int \<Rightarrow> string list \<Rightarrow> unit seff" where
  "queue_deletions gen org now paths = bindE (reads outbox) (\<lambda>rows.
     let fresh = map (\<lambda>(k, p). \<lparr>ob_id = gen k, ob_org = org, ob_path = p, ob_status = OB_PENDING,
       ob_attempts = 0, ob_max = 5, ob_error = None, ob_created = now, ob_processed = None\<rparr>)
       (enumerate 0 paths) in
     if \<not> distinct (map ob_id (rows @ fresh)) then raise StatementFailed
     else writes (\<lambda>db. db\<lparr>outbox := outbox db @ fresh\<rparr>))"

text \<open>Comments and attachments go with their ticket (ON DELETE CASCADE).\<close>

definition pg_delete_ticket ::
  "call \<Rightarrow> (nat \<Rightarrow> uuid) \<Rightarrow> uuid \<Rightarrow> uuid \<Rightarrow> uuid \<Rightarrow> bool \<Rightarrow> string list seff" where
  "pg_delete_ticket cl gen org t actor can_delete_any = txn (bindE (reads id) (\<lambda>db.
     let paths = map at_path (select_where (\<lambda>a. at_ticket a = t) (own_attachments org db)) in
     case readable_ticket org t actor can_delete_any db of
       None \<Rightarrow> raise SupportNotFound
     | Some _ \<Rightarrow> bindE (writes (\<lambda>db. db\<lparr>
           tickets := delete_where (\<lambda>r. ticket_key r = (org, t)) (tickets db),
           comments := delete_where (\<lambda>c. co_org c = org \<and> co_ticket c = t) (comments db),
           attachments := delete_where (\<lambda>a. at_org a = org \<and> at_ticket a = t) (attachments db)\<rparr>)) (\<lambda>_.
         bindE (queue_deletions gen org (cl_now cl) paths) (\<lambda>_.
         bindE (audit_call cl org actor ''USER'' ''TICKET.DELETED'' ''ticket'' t []) (\<lambda>_. ret paths)))))"

definition moved_ticket :: "int \<Rightarrow> ticket_status \<Rightarrow> uuid option \<Rightarrow> int option \<Rightarrow> ticket_row \<Rightarrow> ticket_row" where
  "moved_ticket now target assigned resolved r = r\<lparr>tk_status := target,
     tk_assignee := (if target = ASSIGNED then assigned else tk_assignee r),
     tk_resolved := (if target = RESOLVED then resolved
       else if target = IN_PROGRESS then None else tk_resolved r),
     tk_updated := now\<rparr>"

definition pg_transition_ticket ::
  "call \<Rightarrow> uuid \<Rightarrow> uuid \<Rightarrow> uuid \<Rightarrow> ticket_status \<Rightarrow> ticket_status \<Rightarrow> uuid option \<Rightarrow> int option
   \<Rightarrow> unit seff" where
  "pg_transition_ticket cl org t actor expected target assigned resolved = txn (bindE (reads id) (\<lambda>db.
     let P = (\<lambda>r. ticket_key r = (org, t) \<and> tk_status r = expected);
         f = moved_ticket (cl_now cl) target assigned resolved in
     if list_ex (\<lambda>r. P r \<and> \<not> ticket_checks db (f r)) (tickets db) then raise StatementFailed
     else if rowcount P (tickets db) \<noteq> 1 then raise SupportConflict
     else bindE (writes (\<lambda>db. db\<lparr>tickets := update_where P f (tickets db)\<rparr>)) (\<lambda>_.
       audit_call cl org actor ''USER'' ''TICKET.STATUS_CHANGED'' ''ticket'' t
         [(''from'', status_text expected), (''to'', status_text target)])))"

section \<open>Comments\<close>

definition pg_add_comment ::
  "call \<Rightarrow> uuid \<Rightarrow> uuid \<Rightarrow> uuid \<Rightarrow> uuid \<Rightarrow> bool \<Rightarrow> string \<Rightarrow> bool \<Rightarrow> comment_row seff" where
  "pg_add_comment cl org i t user internal content owner_only = txn (bindE (reads id) (\<lambda>db.
     let c = \<lparr>co_org = org, co_id = i, co_ticket = t, co_user = user, co_internal = internal,
       co_content = content, co_created = cl_now cl\<rparr> in
     case readable_ticket org t user (\<not> owner_only) db of
       None \<Rightarrow> raise SupportNotFound
     | Some _ \<Rightarrow>
         if \<not> comment_checks db c \<or> list_ex (\<lambda>r. co_org r = org \<and> co_id r = i) (comments db)
         then raise StatementFailed
         else bindE (writes (\<lambda>db. db\<lparr>comments := comments db @ [c]\<rparr>)) (\<lambda>_.
           bindE (audit_call cl org user ''USER'' ''TICKET.COMMENT_ADDED'' ''ticket'' t
             [(''internal'', if internal then ''true'' else ''false'')]) (\<lambda>_. ret c))))"

definition pg_list_comments ::
  "uuid \<Rightarrow> uuid \<Rightarrow> uuid \<Rightarrow> bool \<Rightarrow> bool \<Rightarrow> nat \<Rightarrow> uuid option \<Rightarrow> (comment_row list \<times> uuid option) seff" where
  "pg_list_comments org t actor include_internal can_read_all limit after = reads (\<lambda>db.
     page_of co_id limit after (concat (map (\<lambda>c. map (\<lambda>_. c) (select_where (\<lambda>k.
         tk_org k = co_org c \<and> tk_id k = co_ticket c \<and> (can_read_all \<or> tk_creator k = actor))
         (own_tickets org db)))
       (select_where (\<lambda>c. co_ticket c = t \<and> (include_internal \<or> \<not> co_internal c))
         (own_comments org db)))))"

section \<open>Attachments\<close>

record metadata =
  md_name :: string
  md_stored :: string
  md_mime :: string
  md_size :: nat

definition pg_create_attachment ::
  "call \<Rightarrow> uuid \<Rightarrow> uuid \<Rightarrow> uuid \<Rightarrow> uuid \<Rightarrow> metadata \<Rightarrow> string \<Rightarrow> bool \<Rightarrow> attachment_row seff" where
  "pg_create_attachment cl org i t actor md path owner_only = txn (bindE (reads id) (\<lambda>db.
     let a = \<lparr>at_org = org, at_id = i, at_ticket = t, at_original = md_name md, at_stored = md_stored md,
       at_mime = md_mime md, at_size = md_size md, at_path = path, at_uploaded = cl_now cl\<rparr> in
     case readable_ticket org t actor (\<not> owner_only) db of
       None \<Rightarrow> raise SupportNotFound
     | Some _ \<Rightarrow>
         if \<not> attachment_checks db a
            \<or> list_ex (\<lambda>r. at_org r = org \<and> (at_id r = i \<or> at_stored r = md_stored md)) (attachments db)
         then raise StatementFailed
         else bindE (writes (\<lambda>db. db\<lparr>attachments := attachments db @ [a]\<rparr>)) (\<lambda>_.
           bindE (audit_call cl org actor ''USER'' ''TICKET.ATTACHMENT_UPLOADED'' ''ticket_attachment'' i
             [(''mime_type'', md_mime md), (''file_size'', int_str (int (md_size md)))]) (\<lambda>_. ret a))))"

definition the_attachment :: "uuid \<Rightarrow> uuid \<Rightarrow> uuid \<Rightarrow> attachment_row \<Rightarrow> bool" where
  "the_attachment org t i a \<longleftrightarrow> at_org a = org \<and> at_ticket a = t \<and> at_id a = i"

definition pg_get_attachment :: "uuid \<Rightarrow> uuid \<Rightarrow> uuid \<Rightarrow> uuid \<Rightarrow> bool \<Rightarrow> attachment_row seff" where
  "pg_get_attachment org t i actor can_read_all = bindE (reads (\<lambda>db. first_row (select_where
       (\<lambda>a. the_attachment org t i a \<and> readable_ticket org t actor can_read_all db \<noteq> None)
       (attachments db)))) (\<lambda>row. case row of None \<Rightarrow> raise SupportNotFound | Some a \<Rightarrow> ret a)"

definition pg_delete_attachment ::
  "call \<Rightarrow> (nat \<Rightarrow> uuid) \<Rightarrow> uuid \<Rightarrow> uuid \<Rightarrow> uuid \<Rightarrow> uuid \<Rightarrow> bool \<Rightarrow> string \<Rightarrow> unit seff" where
  "pg_delete_attachment cl gen org t i actor owner_only expected_path = txn (bindE (reads id) (\<lambda>db.
     let P = (\<lambda>a. the_attachment org t i a \<and> at_path a = expected_path
           \<and> readable_ticket org t actor (\<not> owner_only) db \<noteq> None);
         paths = map at_path (select_where P (attachments db)) in
     bindE (writes (\<lambda>db. db\<lparr>attachments := delete_where P (attachments db)\<rparr>)) (\<lambda>_.
     bindE (queue_deletions gen org (cl_now cl) paths) (\<lambda>_.
       if paths = [] then raise SupportNotFound
       else audit_call cl org actor ''USER'' ''TICKET.ATTACHMENT_DELETED'' ''ticket_attachment'' i []))))"

section \<open>The outbox of file deletions\<close>

text \<open>
  \<open>claim_pending_attachment_deletions\<close>: the oldest rows that nobody has locked (\<open>SKIP LOCKED\<close>).
\<close>

definition claimable :: "uuid \<Rightarrow> (uuid \<Rightarrow> bool) \<Rightarrow> nat \<Rightarrow> support_db \<Rightarrow> uuid list" where
  "claimable org locked batch_size db = map ob_id (take batch_size (order_by ob_created (select_where
     (\<lambda>b. ob_status b \<in> {OB_PENDING, OB_FAILED} \<and> ob_attempts b < ob_max b \<and> \<not> locked (ob_id b))
     (own_outbox org db))))"

definition pg_claim_deletions :: "uuid \<Rightarrow> (uuid \<Rightarrow> bool) \<Rightarrow> nat \<Rightarrow> outbox_row list seff" where
  "pg_claim_deletions org locked batch_size = bindE (reads (claimable org locked batch_size)) (\<lambda>ids.
     bindE (writes (\<lambda>db. db\<lparr>outbox := update_where (\<lambda>b. ob_org b = org \<and> ob_id b \<in> set ids)
       (\<lambda>b. b\<lparr>ob_status := OB_PROCESSING\<rparr>) (outbox db)\<rparr>)) (\<lambda>_.
     reads (\<lambda>db. select_where (\<lambda>b. ob_id b \<in> set ids) (own_outbox org db))))"

definition set_outbox :: "uuid \<Rightarrow> uuid \<Rightarrow> (outbox_row \<Rightarrow> outbox_row) \<Rightarrow> unit seff" where
  "set_outbox org i f = writes (\<lambda>db. db\<lparr>outbox :=
     update_where (\<lambda>b. ob_org b = org \<and> ob_id b = i) f (outbox db)\<rparr>)"

definition pg_mark_completed :: "int \<Rightarrow> uuid \<Rightarrow> uuid \<Rightarrow> unit seff" where
  "pg_mark_completed now org i = set_outbox org i
     (\<lambda>b. b\<lparr>ob_status := OB_COMPLETED, ob_processed := Some now\<rparr>)"

definition pg_mark_failed :: "int \<Rightarrow> uuid \<Rightarrow> uuid \<Rightarrow> string \<Rightarrow> unit seff" where
  "pg_mark_failed now org i error_summary = set_outbox org i
     (\<lambda>b. b\<lparr>ob_status := (if ob_max b \<le> ob_attempts b + 1 then OB_FAILED else OB_PENDING),
       ob_attempts := ob_attempts b + 1, ob_error := Some (take 1000 error_summary),
       ob_processed := Some now\<rparr>)"

section \<open>Well-formed tables\<close>

definition unique_by :: "('r \<Rightarrow> 'k) \<Rightarrow> 'r list \<Rightarrow> bool" where
  "unique_by k rows \<longleftrightarrow> distinct (map k rows)"

abbreviation number_key :: "ticket_row \<Rightarrow> uuid \<times> string" where
  "number_key t \<equiv> (tk_org t, tk_number t)"

abbreviation comment_key :: "comment_row \<Rightarrow> uuid \<times> uuid" where
  "comment_key c \<equiv> (co_org c, co_id c)"

abbreviation attachment_key :: "attachment_row \<Rightarrow> uuid \<times> uuid" where
  "attachment_key a \<equiv> (at_org a, at_id a)"

abbreviation stored_key :: "attachment_row \<Rightarrow> uuid \<times> string" where
  "stored_key a \<equiv> (at_org a, at_stored a)"

definition store_ok :: "support_db \<Rightarrow> bool" where
  "store_ok db \<longleftrightarrow>
     unique_by ticket_key (tickets db) \<and> unique_by number_key (tickets db)
     \<and> list_all (ticket_checks db) (tickets db)
     \<and> unique_by comment_key (comments db) \<and> list_all (comment_checks db) (comments db)
     \<and> unique_by attachment_key (attachments db) \<and> unique_by stored_key (attachments db)
     \<and> list_all (attachment_checks db) (attachments db)
     \<and> unique_by ob_id (outbox db)"

lemma unique_by_append1:
  "unique_by k (rows @ [r]) \<longleftrightarrow> unique_by k rows \<and> k r \<notin> k ` set rows"
  by (auto simp: unique_by_def)

lemma unique_by_update:
  "(\<And>r. P r \<Longrightarrow> k (f r) = k r) \<Longrightarrow> unique_by k (update_where P f rows) = unique_by k rows"
  by (simp add: unique_by_def map_update_where)

lemma unique_by_delete: "unique_by k rows \<Longrightarrow> unique_by k (delete_where P rows)"
  by (simp add: unique_by_def distinct_map_delete_where)

lemma unique_by_eqD: "unique_by k rows \<Longrightarrow> r \<in> set rows \<Longrightarrow> s \<in> set rows \<Longrightarrow> k r = k s \<Longrightarrow> r = s"
  by (auto simp: unique_by_def distinct_map inj_on_def)

lemma list_all_update:
  "list_all Q rows \<Longrightarrow> (\<And>r. r \<in> set rows \<Longrightarrow> P r \<Longrightarrow> Q (f r)) \<Longrightarrow> list_all Q (update_where P f rows)"
  by (auto simp: list_all_iff set_update_where)

lemma list_all_delete: "list_all Q rows \<Longrightarrow> list_all Q (delete_where P rows)"
  by (auto simp: list_all_iff)

lemmas unique_rules = unique_by_append1 unique_by_update unique_by_delete list_all_update list_all_delete

text \<open>The checks read the known identifiers and, for what hangs on a ticket, the tickets.\<close>

lemma ticket_checks_same [simp]:
  "ticket_checks (db\<lparr>tickets := ts\<rparr>) = ticket_checks db"
  "ticket_checks (db\<lparr>comments := cs\<rparr>) = ticket_checks db"
  "ticket_checks (db\<lparr>attachments := as\<rparr>) = ticket_checks db"
  "ticket_checks (db\<lparr>outbox := os\<rparr>) = ticket_checks db"
  "ticket_checks (db\<lparr>trail := tr\<rparr>) = ticket_checks db"
  "ticket_checks (db\<lparr>executions := xs\<rparr>) = ticket_checks db"
  by (auto simp: ticket_checks_def)

lemma comment_checks_same [simp]:
  "comment_checks (db\<lparr>comments := cs\<rparr>) = comment_checks db"
  "comment_checks (db\<lparr>attachments := as\<rparr>) = comment_checks db"
  "comment_checks (db\<lparr>outbox := os\<rparr>) = comment_checks db"
  "comment_checks (db\<lparr>trail := tr\<rparr>) = comment_checks db"
  "comment_checks (db\<lparr>executions := xs\<rparr>) = comment_checks db"
  by (auto simp: comment_checks_def has_ticket_def)

lemma attachment_checks_same [simp]:
  "attachment_checks (db\<lparr>comments := cs\<rparr>) = attachment_checks db"
  "attachment_checks (db\<lparr>attachments := as\<rparr>) = attachment_checks db"
  "attachment_checks (db\<lparr>outbox := os\<rparr>) = attachment_checks db"
  "attachment_checks (db\<lparr>trail := tr\<rparr>) = attachment_checks db"
  "attachment_checks (db\<lparr>executions := xs\<rparr>) = attachment_checks db"
  by (auto simp: attachment_checks_def has_ticket_def)

lemma store_ok_trail [simp]:
  "store_ok (db\<lparr>trail := tr\<rparr>) = store_ok db" "store_ok (db\<lparr>executions := xs\<rparr>) = store_ok db"
  by (simp_all add: store_ok_def)

lemma checks_mono:
  assumes "ticket_key ` set (tickets db) \<subseteq> ticket_key ` set ts"
  shows "comment_checks db c \<Longrightarrow> comment_checks (db\<lparr>tickets := ts\<rparr>) c"
    and "attachment_checks db a \<Longrightarrow> attachment_checks (db\<lparr>tickets := ts\<rparr>) a"
  using assms by (auto simp: comment_checks_def attachment_checks_def has_ticket_def)

text \<open>A change of tickets that loses no key; a change of the other tables.\<close>

lemma store_ok_tickets:
  assumes "store_ok db" and "ticket_key ` set (tickets db) \<subseteq> ticket_key ` set ts"
    and "unique_by ticket_key ts" "unique_by number_key ts" "list_all (ticket_checks db) ts"
  shows "store_ok (db\<lparr>tickets := ts\<rparr>)"
  using assms checks_mono [OF assms(2)] by (auto simp: store_ok_def list_all_iff)

lemma wp_append_trail:
  "(\<And>e. E e s) \<Longrightarrow> (\<And>tr. Q () (s\<lparr>trail := tr\<rparr>)) \<Longrightarrow> wp (append_trail inet e) Q E s"
  by (simp add: append_trail_def wp_if)

lemma wp_audit_call:
  "(\<And>e. E e s) \<Longrightarrow> (\<And>tr. Q () (s\<lparr>trail := tr\<rparr>)) \<Longrightarrow> wp (audit_call cl org a ty act rt r ds) Q E s"
  unfolding audit_call_def by (rule wp_append_trail)

lemma readable_ticketD:
  "readable_ticket org t actor everything db = Some r
   \<Longrightarrow> r \<in> set (tickets db) \<and> tk_org r = org \<and> tk_id r = t \<and> (everything \<or> tk_creator r = actor)"
  by (auto simp: readable_ticket_def own_tickets_def dest!: first_row_SomeD)

lemma keeps_pg_create_ticket: "keeps store_ok (pg_create_ticket cl org i creator number q)"
  unfolding pg_create_ticket_def
  apply (rule keepsI)
  apply (auto simp: Let_def wp_if intro!: wp_audit_call)
  apply (rule store_ok_tickets)
  apply (auto simp: store_ok_def unique_by_append1 ticket_key_def list_ex_iff list_all_iff)
  done

lemma moved_ticket_keys [simp]:
  "ticket_key (moved_ticket now target assigned resolved r) = ticket_key r"
  "tk_org (moved_ticket now target assigned resolved r) = tk_org r"
  "tk_id (moved_ticket now target assigned resolved r) = tk_id r"
  "tk_number (moved_ticket now target assigned resolved r) = tk_number r"
  "tk_creator (moved_ticket now target assigned resolved r) = tk_creator r"
  "tk_status (moved_ticket now target assigned resolved r) = target"
  by (simp_all add: moved_ticket_def ticket_key_def)

lemma image_update_where: "(\<And>r. P r \<Longrightarrow> k (f r) = k r) \<Longrightarrow> k ` set (update_where P f rows) = k ` set rows"
  by (metis map_update_where set_map)

lemma store_ok_update_tickets:
  assumes "store_ok db" and "\<And>r. ticket_key (f r) = ticket_key r" "\<And>r. tk_number (f r) = tk_number r"
    and "\<And>r. r \<in> set (tickets db) \<Longrightarrow> P r \<Longrightarrow> ticket_checks db (f r)"
  shows "store_ok (db\<lparr>tickets := update_where P f (tickets db)\<rparr>)"
proof (rule store_ok_tickets [OF assms(1)])
  have "tk_org (f r) = tk_org r" for r
    using assms(2) [of r] by (simp add: ticket_key_def)
  then show "unique_by number_key (update_where P f (tickets db))"
    using assms(1,3) by (simp add: store_ok_def unique_by_update)
qed (use assms in \<open>auto simp: store_ok_def unique_by_update image_update_where intro!: list_all_update\<close>)

lemma keeps_pg_transition_ticket:
  "keeps store_ok (pg_transition_ticket cl org t actor expected target assigned resolved)"
  unfolding pg_transition_ticket_def
  by (rule keepsI) (auto simp: Let_def wp_if list_ex_iff intro!: wp_audit_call store_ok_update_tickets)

text \<open>Rows that go with a ticket: what is left hangs on a ticket that is left.\<close>

lemma store_ok_drop_ticket:
  assumes "store_ok db"
  shows "store_ok (db\<lparr>tickets := delete_where (\<lambda>r. ticket_key r = (org, t)) (tickets db),
    comments := delete_where (\<lambda>c. co_org c = org \<and> co_ticket c = t) (comments db),
    attachments := delete_where (\<lambda>a. at_org a = org \<and> at_ticket a = t) (attachments db)\<rparr>)"
  using assms
  by (auto simp: store_ok_def unique_by_delete list_all_delete)
    (auto simp: list_all_iff comment_checks_def attachment_checks_def has_ticket_def image_iff ticket_key_def)

lemma wp_queue_deletions:
  assumes "E StatementFailed s"
    and "\<And>fresh. map ob_path fresh = paths \<Longrightarrow> unique_by ob_id (outbox s @ fresh)
      \<Longrightarrow> list_all (\<lambda>b. ob_org b = org \<and> ob_status b = OB_PENDING \<and> ob_attempts b = 0 \<and> ob_max b = 5) fresh
      \<Longrightarrow> Q () (s\<lparr>outbox := outbox s @ fresh\<rparr>)"
  shows "wp (queue_deletions gen org now paths) Q E s"
proof -
  define fresh where "fresh = map (\<lambda>(k, p). \<lparr>ob_id = gen k, ob_org = org, ob_path = p,
    ob_status = OB_PENDING, ob_attempts = 0, ob_max = 5, ob_error = None, ob_created = now,
    ob_processed = None\<rparr>) (enumerate 0 paths)"
  have "map ob_path fresh = paths"
    by (simp add: fresh_def comp_def case_prod_beta map_snd_enumerate)
  moreover have "list_all (\<lambda>b. ob_org b = org \<and> ob_status b = OB_PENDING \<and> ob_attempts b = 0 \<and> ob_max b = 5) fresh"
    by (auto simp: fresh_def list_all_iff)
  ultimately show ?thesis
    using assms by (simp add: queue_deletions_def Let_def wp_if flip: fresh_def)
      (simp add: unique_by_def)
qed

lemma store_ok_outbox: "store_ok db \<Longrightarrow> unique_by ob_id os \<Longrightarrow> store_ok (db\<lparr>outbox := os\<rparr>)"
  by (simp add: store_ok_def)

lemma keeps_pg_delete_ticket: "keeps store_ok (pg_delete_ticket cl gen org t actor everything)"
  unfolding pg_delete_ticket_def
  by (rule keepsI) (auto simp: Let_def wp_if split: option.splits
    intro!: wp_queue_deletions wp_audit_call store_ok_outbox store_ok_drop_ticket)

lemma keeps_pg_add_comment: "keeps store_ok (pg_add_comment cl org i t user internal content owner_only)"
  unfolding pg_add_comment_def
  by (rule keepsI) (auto simp: Let_def wp_if store_ok_def unique_by_append1 list_ex_iff
    split: option.splits intro!: wp_audit_call)

lemma keeps_pg_create_attachment: "keeps store_ok (pg_create_attachment cl org i t actor md path owner_only)"
  unfolding pg_create_attachment_def
  by (rule keepsI) (auto simp: Let_def wp_if store_ok_def unique_by_append1 list_ex_iff
    split: option.splits intro!: wp_audit_call; blast)

lemma keeps_pg_delete_attachment:
  "keeps store_ok (pg_delete_attachment cl gen org t i actor owner_only path)"
  unfolding pg_delete_attachment_def
  by (rule keepsI) (auto simp: Let_def wp_if store_ok_def unique_by_delete list_all_delete
    intro!: wp_queue_deletions wp_audit_call)

lemma keeps_set_outbox: "(\<And>b. ob_id (f b) = ob_id b) \<Longrightarrow> keeps store_ok (set_outbox org i f)"
  unfolding set_outbox_def
  by (rule keeps_writes) (simp add: store_ok_def unique_by_update)

lemma keeps_pg_marks:
  "keeps store_ok (pg_mark_completed now org i)" "keeps store_ok (pg_mark_failed now org i e)"
  by (simp_all add: pg_mark_completed_def pg_mark_failed_def keeps_set_outbox)

lemma keeps_pg_claim_deletions: "keeps store_ok (pg_claim_deletions org locked n)"
  unfolding pg_claim_deletions_def
  by (rule keepsI) (simp add: store_ok_def unique_by_update)

lemmas keeps_store_ok = keeps_pg_create_ticket keeps_pg_transition_ticket keeps_pg_delete_ticket
  keeps_pg_add_comment keeps_pg_create_attachment keeps_pg_delete_attachment keeps_pg_marks
  keeps_pg_claim_deletions

end
