(* ===== verification/Support_Tickets.thy ===== *)
theory Support_Tickets
  imports Support_Store
begin

text \<open>
  The help desk: \<open>backend/app/support/schemas.py\<close> (requests and attachments),
  \<open>backend/app/support/attachments.py\<close> (the files), and the ticket part of
  \<open>SupportService\<close> in \<open>backend/app/support/service.py\<close>.

  Text is ASCII, for which NFC is the identity. The files are a map from absolute paths, as lists
  of names, to contents; there are no symbolic links. Identifiers from \<open>uuid4\<close> are arguments; what
  may fail in a call (\<open>faults\<close>) is an argument too.
\<close>

section \<open>Requests\<close>

text \<open>\<open>Field(min_length=1, max_length=limit)\<close> with the validator that follows it.\<close>

definition required_field :: "bool \<Rightarrow> nat \<Rightarrow> string \<Rightarrow> string option" where
  "required_field multiline limit value = (if 1 \<le> length value \<and> length value \<le> limit
     then normalize_required_text multiline value else None)"

definition ticket_create :: "ticket_request \<Rightarrow> ticket_request option" where
  "ticket_create q = (case (required_field False 255 (tq_title q), required_field True 10000 (tq_description q)) of
     (Some title, Some description) \<Rightarrow> Some (q\<lparr>tq_title := title, tq_description := description\<rparr>)
   | _ \<Rightarrow> None)"

definition comment_create :: "string \<Rightarrow> string option" where
  "comment_create content = required_field True 10000 content"

section \<open>Attachments\<close>

text \<open>The first bytes of a PNG, a JPEG and a PDF.\<close>

definition MAGIC_TYPES :: "(bytes \<times> string \<times> string) list" where
  "MAGIC_TYPES =
     [([0x89, 0x50, 0x4E, 0x47, 0x0D, 0x0A, 0x1A, 0x0A], ''image/png'', ''.png''),
      ([0xFF, 0xD8, 0xFF], ''image/jpeg'', ''.jpg''),
      ([0x25, 0x50, 0x44, 0x46, 0x2D], ''application/pdf'', ''.pdf'')]"

definition detect_type :: "bytes \<Rightarrow> (string \<times> string) option" where
  "detect_type content = map_option snd (find (\<lambda>(magic, _). prefix magic content) MAGIC_TYPES)"

definition alnum :: "char \<Rightarrow> bool" where
  "alnum c \<longleftrightarrow> is_digit c \<or> is_lower c \<or> is_upper c"

definition strip_of :: "string \<Rightarrow> string \<Rightarrow> string" where
  "strip_of cs s = rev (dropWhile (\<lambda>c. c \<in> set cs) (rev (dropWhile (\<lambda>c. c \<in> set cs) s)))"

definition clean_name :: "string \<Rightarrow> string" where
  "clean_name name = (let safe = strip_of '' .''
       (map (\<lambda>c. if alnum c \<or> c \<in> set ''._- '' then c else CHR ''_'') name)
     in take 255 (if safe = [] then ''attachment'' else safe))"

text \<open>
  Without a slash, the name of \<open>PurePath(name)\<close> is the name itself, but for a single dot.
\<close>

definition validate_attachment :: "string \<Rightarrow> bytes \<Rightarrow> uuid \<Rightarrow> metadata option" where
  "validate_attachment original_name content fresh =
     (if content = [] \<or> MAX_ATTACHMENT_BYTES < length content then None
      else case normalize_text False original_name of
        None \<Rightarrow> None
      | Some name \<Rightarrow>
          if name = [] \<or> 255 < length name \<or> name = ''.'' \<or> CHR ''/'' \<in> set name \<or> CHR 92 \<in> set name
          then None
          else (case detect_type content of
              None \<Rightarrow> None
            | Some (mime_type, extension) \<Rightarrow> Some \<lparr>md_name = clean_name name,
                md_stored = uuid_str fresh @ extension, md_mime = mime_type, md_size = length content\<rparr>))"

section \<open>Files\<close>

type_synonym path = "string list"

record desk_env =
  st_root :: path
  st_enabled :: bool

record desk =
  dk_db :: support_db
  dk_files :: "path \<rightharpoonup> bytes"

record faults =
  fl_store :: bool
  fl_read :: bool
  fl_unlink :: "string \<Rightarrow> bool"
  fl_insert :: bool
  fl_complete :: bool
  fl_fail :: bool

type_synonym 'a deff = "(desk, support_error, 'a) eff"

definition on_db :: "'a seff \<Rightarrow> 'a deff" where
  "on_db m s = (case m (dk_db s) of (r, db) \<Rightarrow> (r, s\<lparr>dk_db := db\<rparr>))"

text \<open>The parts of a relative path, and the walk along them from a directory.\<close>

fun split_path :: "string \<Rightarrow> string list" where
  "split_path [] = [[]]"
| "split_path (c # cs) = (if c = CHR ''/'' then [] # split_path cs
     else case split_path cs of p # ps \<Rightarrow> (c # p) # ps | [] \<Rightarrow> [[c]])"

fun walk :: "path \<Rightarrow> string list \<Rightarrow> path" where
  "walk here [] = here"
| "walk here (p # ps) = (if p = [] \<or> p = ''.'' then walk here ps
     else if p = ''..'' then walk (butlast here) ps else walk (here @ [p]) ps)"

definition confined :: "desk_env \<Rightarrow> string \<Rightarrow> path option" where
  "confined env relative = (if take 1 relative = ''/'' then None
     else let candidate = walk (st_root env) (split_path relative)
          in if prefix (st_root env) candidate then Some candidate else None)"

definition attachment_path :: "uuid \<Rightarrow> uuid \<Rightarrow> string \<Rightarrow> string" where
  "attachment_path org t stored = uuid_str org @ ''/'' @ uuid_str t @ ''/'' @ stored"

definition storage_store :: "desk_env \<Rightarrow> faults \<Rightarrow> uuid \<Rightarrow> uuid \<Rightarrow> metadata \<Rightarrow> bytes \<Rightarrow> string deff" where
  "storage_store env fl org t md content = (let relative = attachment_path org t (md_stored md) in
     case confined env relative of
       None \<Rightarrow> raise BadValue
     | Some destination \<Rightarrow> bindE (reads dk_files) (\<lambda>fs.
         if fs destination \<noteq> None then raise FileExists
         else if fl_store fl then raise StorageFailed
         else bindE (writes (\<lambda>s. s\<lparr>dk_files := (dk_files s)(destination \<mapsto> content)\<rparr>)) (\<lambda>_. ret relative)))"

definition storage_read :: "desk_env \<Rightarrow> faults \<Rightarrow> string \<Rightarrow> bytes deff" where
  "storage_read env fl relative = (case confined env relative of
     None \<Rightarrow> raise BadValue
   | Some source \<Rightarrow> bindE (reads (\<lambda>s. dk_files s source)) (\<lambda>file. case file of
       None \<Rightarrow> raise FileMissing
     | Some content \<Rightarrow>
         if fl_read fl then raise StorageFailed
         else if MAX_ATTACHMENT_BYTES < length content then raise BadValue else ret content))"

definition storage_delete :: "desk_env \<Rightarrow> faults \<Rightarrow> string \<Rightarrow> unit deff" where
  "storage_delete env fl relative = (case confined env relative of
     None \<Rightarrow> raise BadValue
   | Some target \<Rightarrow> if fl_unlink fl relative then raise StorageFailed
       else writes (\<lambda>s. s\<lparr>dk_files := (dk_files s)(target := None)\<rparr>))"

section \<open>The service: attachments\<close>

text \<open>The second half of an upload: the row, or the removal of the file.\<close>

definition finish_upload ::
  "desk_env \<Rightarrow> faults \<Rightarrow> call \<Rightarrow> uuid \<Rightarrow> uuid \<Rightarrow> uuid \<Rightarrow> uuid \<Rightarrow> metadata \<Rightarrow> string \<Rightarrow> bool \<Rightarrow> attachment_row deff" where
  "finish_upload env fl cl i org t actor md path owner_only =
     catchE (on_db (if fl_insert fl then raise StatementFailed
         else pg_create_attachment cl org i t actor md path owner_only))
       (\<lambda>e. bindE (storage_delete env fl path) (\<lambda>_. raise e))"

definition upload_attachment ::
  "desk_env \<Rightarrow> faults \<Rightarrow> call \<Rightarrow> uuid \<Rightarrow> uuid \<Rightarrow> uuid \<Rightarrow> uuid \<Rightarrow> uuid \<Rightarrow> string \<Rightarrow> bytes \<Rightarrow> bool
   \<Rightarrow> attachment_row deff" where
  "upload_attachment env fl cl i fresh org t actor original_name content owner_only =
     (case validate_attachment original_name content fresh of
        None \<Rightarrow> raise SupportInvalid
      | Some md \<Rightarrow>
          if uuid_version i \<noteq> Some 4 \<or> \<not> st_enabled env then raise SupportUnavailable
          else bindE (storage_store env fl org t md content) (\<lambda>path.
            finish_upload env fl cl i org t actor md path owner_only))"

record download =
  dl_name :: string
  dl_mime :: string
  dl_content :: bytes

definition download_attachment ::
  "desk_env \<Rightarrow> faults \<Rightarrow> uuid \<Rightarrow> uuid \<Rightarrow> uuid \<Rightarrow> uuid \<Rightarrow> bool \<Rightarrow> download deff" where
  "download_attachment env fl org t i actor can_read_all =
     bindE (on_db (pg_get_attachment org t i actor can_read_all)) (\<lambda>a.
     bindE (if \<not> st_enabled env then raise SupportUnavailable
       else catchE (storage_read env fl (at_path a))
         (\<lambda>e. raise (if e \<in> {FileMissing, BadValue} then SupportNotFound else e))) (\<lambda>content.
     ret \<lparr>dl_name = at_original a, dl_mime = at_mime a, dl_content = content\<rparr>))"

text \<open>An unlink whose failure is passed over.\<close>

definition unlink_quietly :: "desk_env \<Rightarrow> faults \<Rightarrow> string \<Rightarrow> unit deff" where
  "unlink_quietly env fl path = (if \<not> st_enabled env then ret ()
     else catchE (storage_delete env fl path) (\<lambda>_. ret ()))"

definition delete_attachment ::
  "desk_env \<Rightarrow> faults \<Rightarrow> call \<Rightarrow> (nat \<Rightarrow> uuid) \<Rightarrow> uuid \<Rightarrow> uuid \<Rightarrow> uuid \<Rightarrow> uuid \<Rightarrow> bool \<Rightarrow> unit deff" where
  "delete_attachment env fl cl gen org t i actor owner_only =
     bindE (on_db (pg_get_attachment org t i actor (\<not> owner_only))) (\<lambda>a.
     bindE (on_db (pg_delete_attachment cl gen org t i actor owner_only (at_path a))) (\<lambda>_.
       unlink_quietly env fl (at_path a)))"

definition process_item :: "desk_env \<Rightarrow> faults \<Rightarrow> int \<Rightarrow> uuid \<Rightarrow> (support_error \<Rightarrow> string) \<Rightarrow> outbox_row \<Rightarrow> bool deff" where
  "process_item env fl now org text b =
     catchE (bindE (storage_delete env fl (ob_path b)) (\<lambda>_.
        bindE (on_db (if fl_complete fl then raise StatementFailed else pg_mark_completed now org (ob_id b)))
          (\<lambda>_. ret True)))
       (\<lambda>e. bindE (on_db (if fl_fail fl then raise StatementFailed
          else pg_mark_failed now org (ob_id b) (text e))) (\<lambda>_. ret False))"

definition process_pending_deletions ::
  "desk_env \<Rightarrow> (uuid \<Rightarrow> faults) \<Rightarrow> int \<Rightarrow> uuid \<Rightarrow> (support_error \<Rightarrow> string) \<Rightarrow> (uuid \<Rightarrow> bool) \<Rightarrow> nat \<Rightarrow> nat deff" where
  "process_pending_deletions env fl now org text locked batch_size =
     (if \<not> st_enabled env then raise SupportUnavailable
      else bindE (on_db (pg_claim_deletions org locked batch_size)) (\<lambda>claimed.
        bindE (mapE (\<lambda>b. process_item env (fl (ob_id b)) now org text b) claimed) (\<lambda>oks.
          ret (length (filter id oks)))))"

section \<open>The service: tickets\<close>

definition ticket_number :: "uuid \<Rightarrow> string" where
  "ticket_number i = ''NEX-'' @ py_upper (take 12 (filter (\<lambda>c. c \<noteq> CHR ''-'') (uuid_str i)))"

definition create_ticket :: "call \<Rightarrow> uuid \<Rightarrow> uuid \<Rightarrow> uuid \<Rightarrow> ticket_request \<Rightarrow> ticket_row deff" where
  "create_ticket cl i org actor q = (if uuid_version i \<noteq> Some 4 then raise SupportUnavailable
     else on_db (pg_create_ticket cl org i actor (ticket_number i) q))"

definition delete_ticket ::
  "desk_env \<Rightarrow> faults \<Rightarrow> call \<Rightarrow> (nat \<Rightarrow> uuid) \<Rightarrow> uuid \<Rightarrow> uuid \<Rightarrow> uuid \<Rightarrow> bool \<Rightarrow> unit deff" where
  "delete_ticket env fl cl gen org t actor can_delete_any =
     bindE (on_db (pg_delete_ticket cl gen org t actor can_delete_any)) (\<lambda>paths.
       eachE (unlink_quietly env fl) paths)"

definition add_comment ::
  "call \<Rightarrow> uuid \<Rightarrow> uuid \<Rightarrow> uuid \<Rightarrow> uuid \<Rightarrow> string \<Rightarrow> bool \<Rightarrow> bool \<Rightarrow> comment_row deff" where
  "add_comment cl i org t actor content internal owner_only =
     (if uuid_version i \<noteq> Some 4 then raise SupportUnavailable
      else on_db (pg_add_comment cl org i t actor internal content owner_only))"

fun TICKET_TRANSITIONS :: "ticket_status \<Rightarrow> ticket_status set" where
  "TICKET_TRANSITIONS NEW = {ASSIGNED}"
| "TICKET_TRANSITIONS ASSIGNED = {IN_PROGRESS}"
| "TICKET_TRANSITIONS IN_PROGRESS = {PENDING_CUSTOMER, RESOLVED}"
| "TICKET_TRANSITIONS PENDING_CUSTOMER = {IN_PROGRESS}"
| "TICKET_TRANSITIONS RESOLVED = {CLOSED, IN_PROGRESS}"
| "TICKET_TRANSITIONS CLOSED = {}"

definition transition_ticket ::
  "call \<Rightarrow> uuid \<Rightarrow> uuid \<Rightarrow> uuid \<Rightarrow> ticket_status \<Rightarrow> ticket_status \<Rightarrow> uuid option \<Rightarrow> int \<Rightarrow> unit deff" where
  "transition_ticket cl org t actor expected target assigned clock =
     (if target \<notin> TICKET_TRANSITIONS expected then raise SupportConflict
      else if target = ASSIGNED \<and> assigned = None then raise SupportConflict
      else if target \<noteq> ASSIGNED \<and> assigned \<noteq> None then raise SupportConflict
      else on_db (pg_transition_ticket cl org t actor expected target assigned
        (if target = RESOLVED then Some clock else None)))"

section \<open>Paths of attachments\<close>

lemma hex_char:
  assumes "n < 16" shows "lower_hex (hex_digit n)"
  using assms by (auto simp: hex_digit_def lower_hex_def is_digit_def take_bit_eq_mod)

lemma uuid_chars: "c \<in> set (uuid_str w) \<Longrightarrow> lower_hex c \<or> c = CHR ''-''"
  by (auto simp: uuid_str_def hex_range_def hex_char nibble_lt)

lemma lower_hex_not [simp]: "\<not> lower_hex (CHR ''/'')" "\<not> lower_hex (CHR ''.'')"
  by (simp_all add: lower_hex_def is_digit_def)

lemma length_uuid_str [simp]: "length (uuid_str w) = 36"
  by (simp add: uuid_str_def)

definition plain_name :: "string \<Rightarrow> bool" where
  "plain_name p \<longleftrightarrow> CHR ''/'' \<notin> set p \<and> p \<noteq> [] \<and> p \<noteq> ''.'' \<and> p \<noteq> ''..''"

lemma plain_long: "CHR ''/'' \<notin> set p \<Longrightarrow> 3 \<le> length p \<Longrightarrow> plain_name p"
  by (auto simp: plain_name_def)

lemma plain_uuid [simp]: "plain_name (uuid_str w)"
  by (rule plain_long) (auto dest: uuid_chars)

lemma split_path_append: "CHR ''/'' \<notin> set p \<Longrightarrow> split_path (p @ CHR ''/'' # q) = p # split_path q"
  by (induction p) auto

lemma split_path_plain: "CHR ''/'' \<notin> set p \<Longrightarrow> split_path p = [p]"
  by (induction p) auto

text \<open>The names the storage hands out: an organisation, a ticket and a generated file name.\<close>

definition EXTENSIONS :: "string set" where
  "EXTENSIONS = {''.png'', ''.jpg'', ''.pdf''}"

definition proper_path :: "string \<Rightarrow> bool" where
  "proper_path p \<longleftrightarrow> (\<exists>org t f. \<exists>e\<in>EXTENSIONS. p = attachment_path org t (uuid_str f @ e))"

lemma confined_attachment_path:
  assumes "plain_name stored"
  shows "confined env (attachment_path org t stored) = Some (st_root env @ [uuid_str org, uuid_str t, stored])"
proof -
  have plain: "plain_name (uuid_str org)" "plain_name (uuid_str t)" "plain_name stored"
    using assms by simp_all
  then have parts: "split_path (attachment_path org t stored) = [uuid_str org, uuid_str t, stored]"
    by (simp add: attachment_path_def plain_name_def split_path_append split_path_plain)
  have "take 1 (attachment_path org t stored) \<noteq> ''/''"
  proof
    assume "take 1 (attachment_path org t stored) = ''/''"
    then have "take 1 (uuid_str org) = ''/''"
      by (simp add: attachment_path_def)
    then have "CHR ''/'' \<in> set (uuid_str org)"
      by (metis in_set_takeD list.set_intros(1))
    with plain show False by (simp add: plain_name_def)
  qed
  with parts plain show ?thesis by (simp add: confined_def plain_name_def Let_def)
qed

lemma plain_stored: "e \<in> EXTENSIONS \<Longrightarrow> plain_name (uuid_str f @ e)"
  by (rule plain_long) (auto simp: EXTENSIONS_def dest: uuid_chars)

definition file_of :: "desk_env \<Rightarrow> string \<Rightarrow> path" where
  "file_of env p = the (confined env p)"

lemma proper_confined: "proper_path p \<Longrightarrow> confined env p = Some (file_of env p)"
  by (auto simp: proper_path_def file_of_def confined_attachment_path plain_stored)

lemma file_of_attachment [simp]:
  "e \<in> EXTENSIONS \<Longrightarrow> file_of env (attachment_path org t (uuid_str f @ e))
     = st_root env @ [uuid_str org, uuid_str t, uuid_str f @ e]"
  by (simp add: file_of_def confined_attachment_path plain_stored)

lemma file_of_inj:
  assumes "proper_path p" "proper_path q"
  shows "file_of env p = file_of env q \<longleftrightarrow> p = q"
proof -
  obtain org t f e org' t' f' e' where
    "e \<in> EXTENSIONS" "p = attachment_path org t (uuid_str f @ e)"
    "e' \<in> EXTENSIONS" "q = attachment_path org' t' (uuid_str f' @ e')"
    using assms by (auto simp: proper_path_def)
  then show ?thesis by (metis file_of_attachment append_same_eq same_append_eq list.inject uuid_str_inj)
qed

text \<open>Whatever the path, the storage never leaves its root.\<close>

lemma confined_in_root: "confined env p = Some q \<Longrightarrow> prefix (st_root env) q"
  by (auto simp: confined_def Let_def split: if_splits)

lemma detect_type_ext: "detect_type content = Some (mime, e) \<Longrightarrow> e \<in> EXTENSIONS"
  by (auto simp: detect_type_def MAGIC_TYPES_def EXTENSIONS_def split: if_splits)

lemma validate_attachmentD:
  assumes "validate_attachment name content f = Some md"
  shows "md_size md = length content" "\<exists>e\<in>EXTENSIONS. md_stored md = uuid_str f @ e"
    "map_option fst (detect_type content) = Some (md_mime md)"
  using assms by (auto simp: validate_attachment_def Let_def split: if_splits option.splits dest: detect_type_ext)

section \<open>An office: many requests at once\<close>

text \<open>
  Uploads that have stored their file and not yet inserted their row, and the paths of uploads that
  died there or could not remove their file, are kept beside the state of the program, and the keys of
  all tickets there ever were.
\<close>

record upload =
  up_org :: uuid
  up_ticket :: uuid
  up_metadata :: metadata
  up_content :: bytes

definition up_path :: "upload \<Rightarrow> string" where
  "up_path u = attachment_path (up_org u) (up_ticket u) (md_stored (up_metadata u))"

record office =
  of_desk :: desk
  of_uploads :: "upload list"
  of_lost :: "string list"
  of_tickets :: "(uuid \<times> uuid) list"

abbreviation odb :: "office \<Rightarrow> support_db" where
  "odb w \<equiv> dk_db (of_desk w)"

abbreviation ofiles :: "office \<Rightarrow> path \<Rightarrow> bytes option" where
  "ofiles w \<equiv> dk_files (of_desk w)"

definition known_paths :: "office \<Rightarrow> string set" where
  "known_paths w = at_path ` set (attachments (odb w)) \<union> ob_path ` set (outbox (odb w))
     \<union> up_path ` set (of_uploads w) \<union> set (of_lost w)"

definition in_db :: "'a seff \<Rightarrow> office \<Rightarrow> office" where
  "in_db m w = w\<lparr>of_desk := snd (on_db m (of_desk w))\<rparr>"

definition same_desk :: "support_db \<Rightarrow> support_db \<Rightarrow> bool" where
  "same_desk db db' \<longleftrightarrow> tickets db' = tickets db \<and> comments db' = comments db
     \<and> attachments db' = attachments db \<and> outbox db' = outbox db"

text \<open>
  The steps, each one transaction or one access to the files. A new file name and the identifier of a
  new ticket were never used before (\<open>uuid4\<close>). \<open>office_other\<close> is any change of the other tables.
\<close>

inductive office_step :: "desk_env \<Rightarrow> office \<Rightarrow> office \<Rightarrow> bool" for env where
  office_store: "validate_attachment name content f = Some md \<Longrightarrow>
    u = \<lparr>up_org = org, up_ticket = t, up_metadata = md, up_content = content\<rparr> \<Longrightarrow>
    up_path u \<notin> known_paths w \<Longrightarrow>
    storage_store env fl org t md content (of_desk w) = (Inr p, d) \<Longrightarrow>
    office_step env w (w\<lparr>of_desk := d, of_uploads := of_uploads w @ [u]\<rparr>)"
| office_finish: "of_uploads w = us @ u # vs \<Longrightarrow>
    finish_upload env fl cl i (up_org u) (up_ticket u) actor (up_metadata u) (up_path u) owner_only (of_desk w) = (r, d) \<Longrightarrow>
    office_step env w (w\<lparr>of_desk := d, of_uploads := us @ vs,
      of_lost := (if isl r \<and> fl_unlink fl (up_path u) then up_path u # of_lost w else of_lost w)\<rparr>)"
| office_die: "of_uploads w = us @ u # vs \<Longrightarrow>
    office_step env w (w\<lparr>of_uploads := us @ vs, of_lost := up_path u # of_lost w\<rparr>)"
| office_drop_ticket: "office_step env w (in_db (pg_delete_ticket cl gen org t actor everything) w)"
| office_drop_attachment: "office_step env w (in_db (pg_delete_attachment cl gen org t i actor owner_only p) w)"
| office_unlink: "p \<in> ob_path ` set (outbox (odb w)) \<Longrightarrow>
    office_step env w (w\<lparr>of_desk := snd (storage_delete env fl p (of_desk w))\<rparr>)"
| office_claim: "office_step env w (in_db (pg_claim_deletions org locked n) w)"
| office_item: "\<exists>x\<in>set (outbox (odb w)). ob_id x = ob_id b \<and> ob_path x = ob_path b \<Longrightarrow>
    office_step env w (w\<lparr>of_desk := snd (process_item env fl now org text b (of_desk w))\<rparr>)"
| office_ticket: "(org, i) \<notin> set (of_tickets w) \<Longrightarrow>
    office_step env w ((in_db (pg_create_ticket cl org i creator number q) w)\<lparr>of_tickets := (org, i) # of_tickets w\<rparr>)"
| office_comment: "office_step env w (in_db (pg_add_comment cl org i t user internal content owner_only) w)"
| office_transition: "office_step env w
    (w\<lparr>of_desk := snd (transition_ticket cl org t actor expected target assigned clock (of_desk w))\<rparr>)"
| office_other: "same_desk (odb w) db \<Longrightarrow> store_ok db \<Longrightarrow> office_step env w (w\<lparr>of_desk := (of_desk w)\<lparr>dk_db := db\<rparr>\<rparr>)"

section \<open>Rows and files\<close>

definition queued_paths :: "support_db \<Rightarrow> string set" where
  "queued_paths db = ob_path ` {b \<in> set (outbox db). ob_status b \<noteq> OB_COMPLETED}"

definition holds_file :: "desk_env \<Rightarrow> office \<Rightarrow> attachment_row \<Rightarrow> bool" where
  "holds_file env w a \<longleftrightarrow> at_path a = attachment_path (at_org a) (at_ticket a) (at_stored a)
     \<and> (\<exists>content. ofiles w (file_of env (at_path a)) = Some content \<and> length content = at_size a
         \<and> map_option fst (detect_type content) = Some (at_mime a))"

definition holds_upload :: "desk_env \<Rightarrow> office \<Rightarrow> upload \<Rightarrow> bool" where
  "holds_upload env w u \<longleftrightarrow> ofiles w (file_of env (up_path u)) = Some (up_content u)
     \<and> md_size (up_metadata u) = length (up_content u)
     \<and> map_option fst (detect_type (up_content u)) = Some (md_mime (up_metadata u))"

abbreviation live_paths :: "office \<Rightarrow> string list" where
  "live_paths w \<equiv> map at_path (attachments (odb w)) @ map up_path (of_uploads w)"

definition office_ok :: "desk_env \<Rightarrow> office \<Rightarrow> bool" where
  "office_ok env w \<longleftrightarrow> store_ok (odb w) \<and> Ball (known_paths w) proper_path
     \<and> (\<forall>a\<in>set (attachments (odb w)). holds_file env w a)
     \<and> (\<forall>u\<in>set (of_uploads w). holds_upload env w u)
     \<and> distinct (live_paths w)
     \<and> set (live_paths w) \<inter> ob_path ` set (outbox (odb w)) = {}
     \<and> (\<forall>q. ofiles w q \<noteq> None \<longrightarrow>
          q \<in> file_of env ` (set (live_paths w) \<union> queued_paths (odb w) \<union> set (of_lost w)))"

lemma office_ok_tickets [simp]: "office_ok env (w\<lparr>of_tickets := ks\<rparr>) = office_ok env w"
  by (simp add: office_ok_def known_paths_def holds_file_def holds_upload_def)

lemma office_okD:
  assumes "office_ok env w"
  shows "store_ok (odb w)" and "p \<in> known_paths w \<Longrightarrow> proper_path p"
    and "a \<in> set (attachments (odb w)) \<Longrightarrow> holds_file env w a"
    and "u \<in> set (of_uploads w) \<Longrightarrow> holds_upload env w u"
    and "distinct (live_paths w)"
    and "set (live_paths w) \<inter> ob_path ` set (outbox (odb w)) = {}"
    and "ofiles w q \<noteq> None \<Longrightarrow>
      q \<in> file_of env ` (set (live_paths w) \<union> queued_paths (odb w) \<union> set (of_lost w))"
  using assms unfolding office_ok_def by blast+

lemma holds_file_cong:
  "ofiles w' (file_of env (at_path a)) = ofiles w (file_of env (at_path a)) \<Longrightarrow> holds_file env w' a = holds_file env w a"
  by (simp only: holds_file_def)

lemma holds_upload_cong:
  "ofiles w' (file_of env (up_path u)) = ofiles w (file_of env (up_path u)) \<Longrightarrow> holds_upload env w' u = holds_upload env w u"
  by (simp only: holds_upload_def)

text \<open>
  A transaction that drops some attachments and queues their paths, adding no attachment and
  completing no deletion.
\<close>

definition drops :: "support_db \<Rightarrow> support_db \<Rightarrow> bool" where
  "drops db db' \<longleftrightarrow> (\<exists>Q. attachments db' = filter Q (attachments db)
     \<and> ob_path ` set (outbox db') = ob_path ` set (outbox db) \<union> at_path ` {a \<in> set (attachments db). \<not> Q a}
     \<and> queued_paths db \<union> at_path ` {a \<in> set (attachments db). \<not> Q a} \<subseteq> queued_paths db')"

lemma drops_same: "attachments db' = attachments db \<Longrightarrow> outbox db' = outbox db \<Longrightarrow> drops db db'"
  by (auto simp: drops_def queued_paths_def intro!: exI [of _ "\<lambda>_. True"])

lemma office_ok_drops:
  assumes ok: "office_ok env w" and "store_ok db" and drops: "drops (odb w) db"
  shows "office_ok env (w\<lparr>of_desk := (of_desk w)\<lparr>dk_db := db\<rparr>\<rparr>)"
proof -
  let ?w = "w\<lparr>of_desk := (of_desk w)\<lparr>dk_db := db\<rparr>\<rparr>"
  from drops obtain Q where Q: "attachments db = filter Q (attachments (odb w))"
    "ob_path ` set (outbox db) = ob_path ` set (outbox (odb w)) \<union> at_path ` {a \<in> set (attachments (odb w)). \<not> Q a}"
    "queued_paths (odb w) \<union> at_path ` {a \<in> set (attachments (odb w)). \<not> Q a} \<subseteq> queued_paths db"
    by (auto simp: drops_def)
  note dist = office_okD(5) [OF ok] and disj = office_okD(6) [OF ok] and files = office_okD(7) [OF ok]
  show ?thesis
    unfolding office_ok_def
  proof (intro conjI ballI allI impI)
    fix p
    assume "p \<in> known_paths ?w"
    then have "p \<in> known_paths w" using Q by (auto simp: known_paths_def)
    with ok show "proper_path p" by (rule office_okD)
  next
    fix a
    assume "a \<in> set (attachments (odb ?w))"
    then have "a \<in> set (attachments (odb w))" by (simp add: Q(1))
    from office_okD(3) [OF ok this] show "holds_file env ?w a" by (simp add: holds_file_cong [of ?w env a w])
  next
    fix u
    assume "u \<in> set (of_uploads ?w)"
    then have "u \<in> set (of_uploads w)" by simp
    from office_okD(4) [OF ok this] show "holds_upload env ?w u" by (simp add: holds_upload_cong [of ?w env u w])
  next
    show "distinct (live_paths ?w)" using dist by (auto simp: Q(1) distinct_map_filter)
  next
    show "set (live_paths ?w) \<inter> ob_path ` set (outbox (odb ?w)) = {}"
    proof (rule equals0I, elim IntE)
      fix p
      assume live: "p \<in> set (live_paths ?w)" and "p \<in> ob_path ` set (outbox (odb ?w))"
      then have "p \<in> ob_path ` set (outbox (odb w)) \<union> at_path ` {a \<in> set (attachments (odb w)). \<not> Q a}"
        by (simp flip: Q(2))
      moreover have "p \<in> set (live_paths w)" using live by (auto simp: Q(1))
      ultimately have "p \<in> at_path ` {a \<in> set (attachments (odb w)). \<not> Q a}"
        using disj by blast
      then obtain b where b: "b \<in> set (attachments (odb w))" "\<not> Q b" "p = at_path b" by blast
      have "inj_on at_path (set (attachments (odb w)))"
        "at_path ` set (attachments (odb w)) \<inter> up_path ` set (of_uploads w) = {}"
        using dist by (simp_all add: distinct_map)
      with b live show False by (auto simp: Q(1) dest: inj_onD)
    qed
  next
    fix q
    assume "ofiles ?w q \<noteq> None"
    then have "q \<in> file_of env ` (set (live_paths w) \<union> queued_paths (odb w) \<union> set (of_lost w))"
      by (intro files) simp
    moreover have "set (live_paths w) \<union> queued_paths (odb w) \<union> set (of_lost w)
        \<subseteq> set (live_paths ?w) \<union> queued_paths (odb ?w) \<union> set (of_lost ?w)"
      using Q(3) by (auto simp: Q(1))
    ultimately show "q \<in> file_of env ` (set (live_paths ?w) \<union> queued_paths (odb ?w) \<union> set (of_lost ?w))"
      by (meson image_mono subsetD)
  qed (simp add: \<open>store_ok db\<close>)
qed

lemma in_db_dk: "of_desk (in_db m w) = (of_desk w)\<lparr>dk_db := snd (m (odb w))\<rparr>"
  by (simp add: in_db_def on_db_def split: prod.splits)

lemma in_db_eq: "in_db m w = w\<lparr>of_desk := (of_desk w)\<lparr>dk_db := snd (m (odb w))\<rparr>\<rparr>"
  by (simp add: in_db_def on_db_def split: prod.splits)

text \<open>A transaction keeps an office sound if it keeps the tables sound and only drops.\<close>

lemma office_ok_in_db:
  assumes "office_ok env w" and "keeps store_ok m" and "wp m (\<lambda>_. drops (odb w)) (\<lambda>_. drops (odb w)) (odb w)"
  shows "office_ok env (in_db m w)"
  unfolding in_db_eq
  using assms by (intro office_ok_drops) (auto simp: office_ok_def wp_snd keepsD)

lemma drops_trail [simp]: "drops db (db'\<lparr>trail := tr\<rparr>) = drops db db'"
  by (simp add: drops_def queued_paths_def)

lemma drops_refl: "drops db db"
  by (rule drops_same) simp_all

lemma drops_create_ticket:
  "wp (pg_create_ticket cl org i creator number q) (\<lambda>_. drops db) (\<lambda>_. drops db) db"
  unfolding pg_create_ticket_def by (auto simp: Let_def wp_if intro!: wp_audit_call drops_same)

lemma drops_add_comment:
  "wp (pg_add_comment cl org i t user internal content owner_only) (\<lambda>_. drops db) (\<lambda>_. drops db) db"
  unfolding pg_add_comment_def
  by (auto simp: Let_def wp_if split: option.splits intro!: wp_audit_call drops_same)

lemma drops_transition:
  "wp (pg_transition_ticket cl org t actor expected target assigned resolved) (\<lambda>_. drops db) (\<lambda>_. drops db) db"
  unfolding pg_transition_ticket_def by (auto simp: Let_def wp_if intro!: wp_audit_call drops_same)

lemma drops_outbox_update:
  assumes "\<And>b. ob_path (f b) = ob_path b"
    and "\<And>b. ob_status b \<noteq> OB_COMPLETED \<Longrightarrow> ob_status (f b) \<noteq> OB_COMPLETED"
  shows "drops db (db\<lparr>outbox := update_where P f (outbox db)\<rparr>)"
proof -
  have "queued_paths db \<subseteq> queued_paths (db\<lparr>outbox := update_where P f (outbox db)\<rparr>)"
  proof
    fix p
    assume "p \<in> queued_paths db"
    then obtain b where "b \<in> set (outbox db)" "ob_status b \<noteq> OB_COMPLETED" "p = ob_path b"
      by (auto simp: queued_paths_def)
    moreover have "(if P b then f b else b) \<in> set (update_where P f (outbox db))"
      using \<open>b \<in> set (outbox db)\<close> by (simp add: set_update_where)
    ultimately show "p \<in> queued_paths (db\<lparr>outbox := update_where P f (outbox db)\<rparr>)"
      using assms(1) [of b] assms(2) [of b]
      by (cases "P b") (auto simp: queued_paths_def intro!: image_eqI [of _ ob_path "if P b then f b else b"])
  qed
  with assms(1) show ?thesis
    by (auto simp: drops_def image_update_where intro!: exI [of _ "\<lambda>_. True"])
qed

lemma drops_claim: "wp (pg_claim_deletions org locked n) (\<lambda>_. drops db) (\<lambda>_. drops db) db"
  unfolding pg_claim_deletions_def by (simp add: drops_outbox_update)

lemma drops_mark_failed: "wp (pg_mark_failed now org i e) (\<lambda>_. drops db) (\<lambda>_. drops db) db"
  unfolding pg_mark_failed_def set_outbox_def by (simp add: drops_outbox_update)

lemma drops_queue:
  assumes "map ob_path fresh = map at_path (select_where P (attachments db))"
    and "list_all (\<lambda>b. ob_org b = org \<and> ob_status b = OB_PENDING \<and> ob_attempts b = 0 \<and> ob_max b = 5) fresh"
    and "attachments db' = delete_where P (attachments db)" and "outbox db' = outbox db @ fresh"
  shows "drops db db'"
proof -
  have same: "ob_path ` set fresh = at_path ` {a \<in> set (attachments db). P a}"
    using arg_cong [OF assms(1), of set] by simp
  have "queued_paths db \<union> ob_path ` set fresh \<subseteq> queued_paths db'"
    using assms(2) by (auto simp: queued_paths_def list_all_iff assms(4))
  with same show ?thesis
    unfolding drops_def
    by (intro exI [of _ "\<lambda>a. \<not> P a"]) (simp add: assms(3,4) delete_where_def image_Un)
qed

lemma drops_delete_ticket: "wp (pg_delete_ticket cl gen org t actor everything) (\<lambda>_. drops db) (\<lambda>_. drops db) db"
  unfolding pg_delete_ticket_def
  by (auto simp: Let_def drops_refl split: option.splits intro!: wp_queue_deletions wp_audit_call
      drops_queue [where P = "\<lambda>a. at_org a = org \<and> at_ticket a = t"])
    (simp_all add: own_attachments_def select_where_def conj_commute)

lemma drops_delete_attachment:
  "wp (pg_delete_attachment cl gen org t i actor owner_only p) (\<lambda>_. drops db) (\<lambda>_. drops db) db"
  unfolding pg_delete_attachment_def
  by (auto simp: Let_def drops_refl wp_if intro!: wp_queue_deletions wp_audit_call
      drops_queue [where P = "\<lambda>a. the_attachment org t i a \<and> at_path a = p
        \<and> (\<exists>y. readable_ticket org t actor (\<not> owner_only) db = Some y)"])

section \<open>Storage and files\<close>

definition clear_file :: "desk_env \<Rightarrow> string \<Rightarrow> office \<Rightarrow> office" where
  "clear_file env p w = w\<lparr>of_desk := (of_desk w)\<lparr>dk_files := (ofiles w)(file_of env p := None)\<rparr>\<rparr>"

lemma storage_delete_run:
  assumes "proper_path p"
  shows "storage_delete env fl p d = (if fl_unlink fl p then (Inl StorageFailed, d)
     else (Inr (), d\<lparr>dk_files := (dk_files d)(file_of env p := None)\<rparr>))"
  using proper_confined [OF assms, of env] by (simp add: storage_delete_def raise_def writes_def)

lemma office_ok_clear:
  assumes ok: "office_ok env w" and "proper_path p" and "p \<notin> set (live_paths w)"
  shows "office_ok env (clear_file env p w)"
proof -
  let ?w = "clear_file env p w"
  have db [simp]: "odb ?w = odb w" "of_uploads ?w = of_uploads w" "of_lost ?w = of_lost w"
    "known_paths ?w = known_paths w"
    by (simp_all add: clear_file_def known_paths_def)
  have same: "ofiles ?w (file_of env q) = ofiles w (file_of env q)" if "q \<in> set (live_paths w)" for q
  proof -
    have "proper_path q" using that by (intro office_okD(2) [OF ok]) (auto simp: known_paths_def)
    with that assms show ?thesis by (auto simp: clear_file_def file_of_inj)
  qed
  have "\<And>q. ofiles ?w q \<noteq> None \<Longrightarrow> ofiles w q \<noteq> None"
    by (auto simp: clear_file_def split: if_splits)
  with office_okD [OF ok] same show ?thesis
    unfolding office_ok_def db by (auto simp: holds_file_cong [of ?w] holds_upload_cong [of ?w])
qed

lemma live_disjoint_outbox: "office_ok env w \<Longrightarrow> p \<in> ob_path ` set (outbox (odb w)) \<Longrightarrow> p \<notin> set (live_paths w)"
  using office_okD(6) [of env w] by blast

lemma proper_outbox: "office_ok env w \<Longrightarrow> p \<in> ob_path ` set (outbox (odb w)) \<Longrightarrow> proper_path p"
  by (erule office_okD(2)) (simp add: known_paths_def)

lemma office_ok_unlink:
  assumes "office_ok env w" "p \<in> ob_path ` set (outbox (odb w))"
  shows "office_ok env (w\<lparr>of_desk := snd (storage_delete env fl p (of_desk w))\<rparr>)"
  using office_ok_clear [OF assms(1) proper_outbox live_disjoint_outbox, OF assms assms] assms
  by (simp add: storage_delete_run proper_outbox clear_file_def)

lemma office_ok_die:
  assumes ok: "office_ok env w" and us: "of_uploads w = us @ u # vs"
  shows "office_ok env (w\<lparr>of_uploads := us @ vs, of_lost := up_path u # of_lost w\<rparr>)"
proof -
  let ?w = "w\<lparr>of_uploads := us @ vs, of_lost := up_path u # of_lost w\<rparr>"
  have known: "known_paths ?w = known_paths w"
    by (auto simp: known_paths_def us)
  have paths: "set (live_paths ?w) \<union> queued_paths (odb ?w) \<union> set (of_lost ?w)
      = set (live_paths w) \<union> queued_paths (odb w) \<union> set (of_lost w)"
    by (auto simp: us)
  show ?thesis
    unfolding office_ok_def known paths
    using office_okD [OF ok] by (auto simp: us holds_file_cong [of ?w _ _ w] holds_upload_cong [of ?w _ _ w])
qed

lemma office_ok_forget:
  assumes ok: "office_ok env w" and "of_lost w = p # ps" and "ofiles w (file_of env p) = None"
  shows "office_ok env (w\<lparr>of_lost := ps\<rparr>)"
  using office_okD [OF ok] assms(2,3) unfolding office_ok_def
  by (auto simp: known_paths_def holds_file_cong [of "w\<lparr>of_lost := ps\<rparr>" _ _ w]
    holds_upload_cong [of "w\<lparr>of_lost := ps\<rparr>" _ _ w]) (metis option.distinct(1))

lemma txn_InlD: "txn m s = (Inl e, s') \<Longrightarrow> s' = s"
  by (auto simp: txn_def txn_by_def split: prod.splits sum.splits)

lemma pg_create_attachment_run:
  assumes "pg_create_attachment cl org i t actor md path owner_only db = (Inr a, db')"
  shows "attachments db' = attachments db @ [a]" "outbox db' = outbox db" "tickets db' = tickets db"
    "at_org a = org" "at_ticket a = t" "at_stored a = md_stored md" "at_path a = path"
    "at_size a = md_size md" "at_mime a = md_mime md" "at_id a = i" "at_original a = md_name md"
    "\<exists>r. readable_ticket org t actor (\<not> owner_only) db = Some r"
proof -
  have "wp (pg_create_attachment cl org i t actor md path owner_only) (\<lambda>a db'. attachments db' = attachments db @ [a]
    \<and> outbox db' = outbox db \<and> tickets db' = tickets db \<and> at_org a = org \<and> at_ticket a = t \<and> at_stored a = md_stored md \<and> at_path a = path
    \<and> at_size a = md_size md \<and> at_mime a = md_mime md \<and> at_id a = i \<and> at_original a = md_name md
    \<and> (\<exists>r. readable_ticket org t actor (\<not> owner_only) db = Some r)) (\<lambda>_ _. True) db"
    unfolding pg_create_attachment_def
    by (auto simp: Let_def wp_if split: option.splits intro!: wp_audit_call)
  from wp_InrD [OF this assms] show "attachments db' = attachments db @ [a]" "outbox db' = outbox db" "tickets db' = tickets db"
    "at_org a = org" "at_ticket a = t" "at_stored a = md_stored md" "at_path a = path"
    "at_size a = md_size md" "at_mime a = md_mime md" "at_id a = i" "at_original a = md_name md"
    "\<exists>r. readable_ticket org t actor (\<not> owner_only) db = Some r"
    by simp_all
qed

text \<open>An upload ends with its row and its file, or with neither unless the file cannot be removed.\<close>

lemma finish_upload_run:
  assumes "proper_path p"
  shows "finish_upload env fl cl i org t actor md p owner_only d =
     (case (if fl_insert fl then (Inl StatementFailed, dk_db d)
        else pg_create_attachment cl org i t actor md p owner_only (dk_db d)) of
        (Inr a, db) \<Rightarrow> (Inr a, d\<lparr>dk_db := db\<rparr>)
      | (Inl e, db) \<Rightarrow> if fl_unlink fl p then (Inl StorageFailed, d)
          else (Inl e, d\<lparr>dk_files := (dk_files d)(file_of env p := None)\<rparr>))"
proof -
  have "db = dk_db d" if "pg_create_attachment cl org i t actor md p owner_only (dk_db d) = (Inl e, db)" for e db
    using that unfolding pg_create_attachment_def by (rule txn_InlD)
  then show ?thesis
    by (auto simp: finish_upload_def catchE_def on_db_def bindE_def raise_def storage_delete_run [OF assms]
      split: prod.splits sum.splits)
qed

lemma office_ok_attach:
  assumes ok: "office_ok env w" and us: "of_uploads w = us @ u # vs"
    and run: "pg_create_attachment cl (up_org u) i (up_ticket u) actor (up_metadata u) (up_path u) owner_only (odb w) = (Inr a, db)"
  shows "office_ok env (w\<lparr>of_desk := (of_desk w)\<lparr>dk_db := db\<rparr>, of_uploads := us @ vs\<rparr>)"
proof -
  let ?w = "w\<lparr>of_desk := (of_desk w)\<lparr>dk_db := db\<rparr>, of_uploads := us @ vs\<rparr>"
  note row = pg_create_attachment_run [OF run]
  have "store_ok (snd (pg_create_attachment cl (up_org u) i (up_ticket u) actor (up_metadata u) (up_path u) owner_only (odb w)))"
    by (rule keepsD [OF keeps_pg_create_attachment office_okD(1) [OF ok]])
  then have "store_ok (odb ?w)" by (simp add: run)
  moreover have "\<forall>p\<in>known_paths ?w. proper_path p"
    using office_okD(2) [OF ok] by (auto simp: known_paths_def row us)
  moreover have "\<forall>x\<in>set (attachments (odb ?w)). holds_file env ?w x"
  proof
    fix x
    assume "x \<in> set (attachments (odb ?w))"
    then consider "x = a" | "x \<in> set (attachments (odb w))" by (auto simp: row)
    then show "holds_file env ?w x"
    proof cases
      case 1
      then show ?thesis
        using office_okD(4) [OF ok, of u] by (auto simp: us holds_file_def holds_upload_def row up_path_def)
    next
      case 2
      from office_okD(3) [OF ok this] show ?thesis by (simp add: holds_file_cong [of ?w _ _ w])
    qed
  qed
  moreover have "\<forall>v\<in>set (of_uploads ?w). holds_upload env ?w v"
    using office_okD(4) [OF ok] by (auto simp: us holds_upload_cong [of ?w _ _ w])
  moreover have "distinct (live_paths ?w)"
    using office_okD(5) [OF ok] by (auto simp: row us)
  moreover have paths: "set (live_paths ?w) = set (live_paths w)" "queued_paths (odb ?w) = queued_paths (odb w)"
    by (auto simp: row us queued_paths_def)
  moreover have "set (live_paths ?w) \<inter> ob_path ` set (outbox (odb ?w)) = {}"
    unfolding paths using office_okD(6) [OF ok] by (simp add: row)
  moreover have "\<forall>q. ofiles ?w q \<noteq> None \<longrightarrow>
      q \<in> file_of env ` (set (live_paths ?w) \<union> queued_paths (odb ?w) \<union> set (of_lost ?w))"
    unfolding paths using office_okD(7) [OF ok] by simp
  ultimately show ?thesis unfolding office_ok_def by blast
qed

lemma proper_up_path:
  assumes "validate_attachment name content f = Some md"
  shows "proper_path (attachment_path org t (md_stored md))"
  using validate_attachmentD(2) [OF assms] unfolding proper_path_def by metis

lemma storage_store_run:
  assumes "storage_store env fl org t md content d = (Inr p, d')"
    and "proper_path (attachment_path org t (md_stored md))"
  shows "p = attachment_path org t (md_stored md)" "dk_files d (file_of env p) = None"
    "d' = d\<lparr>dk_files := (dk_files d)(file_of env p \<mapsto> content)\<rparr>"
  using assms proper_confined [OF assms(2), of env]
  by (auto simp: storage_store_def Let_def eff_defs split: if_splits)

lemma office_ok_store:
  assumes ok: "office_ok env w" and valid: "validate_attachment name content f = Some md"
    and u: "u = \<lparr>up_org = org, up_ticket = t, up_metadata = md, up_content = content\<rparr>"
    and fresh: "up_path u \<notin> known_paths w"
    and run: "storage_store env fl org t md content (of_desk w) = (Inr p, d)"
  shows "office_ok env (w\<lparr>of_desk := d, of_uploads := of_uploads w @ [u]\<rparr>)"
proof -
  let ?w = "w\<lparr>of_desk := d, of_uploads := of_uploads w @ [u]\<rparr>"
  have path: "up_path u = attachment_path org t (md_stored md)" by (simp add: u up_path_def)
  have proper: "proper_path (up_path u)" unfolding path by (rule proper_up_path [OF valid])
  note stored = storage_store_run [OF run proper_up_path [OF valid], folded path]
  have d: "dk_db d = odb w" "dk_files d = (ofiles w)(file_of env (up_path u) \<mapsto> content)"
    using stored by simp_all
  have same: "ofiles ?w (file_of env q) = ofiles w (file_of env q)" if "q \<in> known_paths w" for q
    using that fresh office_okD(2) [OF ok that] proper by (auto simp: d file_of_inj)
  have files: "\<And>a. a \<in> set (attachments (odb w)) \<Longrightarrow> holds_file env ?w a"
    using office_okD(3) [OF ok] same by (simp add: holds_file_cong [of ?w env _ w] known_paths_def)
  have uploads: "\<And>v. v \<in> set (of_uploads w) \<Longrightarrow> holds_upload env ?w v"
    using office_okD(4) [OF ok] same by (simp add: holds_upload_cong [of ?w env _ w] known_paths_def)
  have new: "holds_upload env ?w u"
    using validate_attachmentD [OF valid] by (simp add: holds_upload_def d) (simp add: u)
  have "known_paths ?w = insert (up_path u) (known_paths w)"
    by (auto simp: known_paths_def d)
  then have "\<forall>q\<in>known_paths ?w. proper_path q" using proper office_okD(2) [OF ok] by simp
  moreover have "distinct (live_paths ?w)" "set (live_paths ?w) \<inter> ob_path ` set (outbox (odb ?w)) = {}"
    using office_okD(5,6) [OF ok] fresh by (auto simp: d known_paths_def)
  moreover have "q \<in> file_of env ` (set (live_paths ?w) \<union> queued_paths (odb ?w) \<union> set (of_lost ?w))"
    if "ofiles ?w q \<noteq> None" for q
  proof (cases "q = file_of env (up_path u)")
    case False
    with that have "ofiles w q \<noteq> None" by (simp add: d)
    from office_okD(7) [OF ok this] show ?thesis by (auto simp: d)
  qed simp
  ultimately show ?thesis
    using office_okD(1) [OF ok] files uploads new unfolding office_ok_def by (auto simp: d)
qed

lemma office_ok_complete:
  assumes ok: "office_ok env w" and none: "ofiles w (file_of env p) = None"
    and x: "x \<in> set (outbox (odb w))" "ob_id x = i" "ob_path x = p"
  shows "office_ok env (in_db (pg_mark_completed now org i) w)"
proof -
  let ?w = "in_db (pg_mark_completed now org i) w"
  let ?done = "\<lambda>b. b\<lparr>ob_status := OB_COMPLETED, ob_processed := Some now\<rparr>"
  have db: "odb ?w = (odb w)\<lparr>outbox := update_where (\<lambda>b. ob_org b = org \<and> ob_id b = i) ?done (outbox (odb w))\<rparr>"
    by (simp add: in_db_dk pg_mark_completed_def set_outbox_def writes_def)
  have rest: "ofiles ?w = ofiles w" "of_uploads ?w = of_uploads w" "of_lost ?w = of_lost w"
    by (simp_all add: in_db_eq)
  have "store_ok (odb ?w)"
    using keepsD [OF keeps_pg_marks(1) office_okD(1) [OF ok]] by (simp add: in_db_dk)
  moreover have known: "ob_path ` set (outbox (odb ?w)) = ob_path ` set (outbox (odb w))"
    by (simp add: db image_update_where)
  then have "known_paths ?w = known_paths w"
    by (simp add: known_paths_def rest) (simp add: db)
  moreover have "q \<in> file_of env ` (set (live_paths w) \<union> queued_paths (odb ?w) \<union> set (of_lost w))"
    if "ofiles w q \<noteq> None" for q
  proof -
    from office_okD(7) [OF ok that] obtain p' where p': "q = file_of env p'"
      "p' \<in> set (live_paths w) \<union> queued_paths (odb w) \<union> set (of_lost w)" by blast
    have "p' \<in> queued_paths (odb ?w)" if queued: "p' \<in> queued_paths (odb w)"
    proof -
      obtain b where b: "b \<in> set (outbox (odb w))" "ob_status b \<noteq> OB_COMPLETED" "ob_path b = p'"
        using queued by (auto simp: queued_paths_def)
      have "p' \<noteq> p" using none \<open>ofiles w q \<noteq> None\<close> p'(1) by auto
      with b x office_okD(1) [OF ok] have "ob_id b \<noteq> i"
        by (auto simp: store_ok_def dest: unique_by_eqD)
      with b show ?thesis by (auto simp: queued_paths_def db set_update_where)
    qed
    with p' show ?thesis by blast
  qed
  ultimately show ?thesis
    using office_okD [OF ok] known unfolding office_ok_def
    by (simp add: rest holds_file_cong [of ?w _ _ w] holds_upload_cong [of ?w _ _ w]) (simp add: db)
qed

lemma process_item_run:
  assumes "proper_path (ob_path b)"
  shows "process_item env fl now org text b d =
    (let p = ob_path b; d1 = d\<lparr>dk_files := (dk_files d)(file_of env p := None)\<rparr>;
         give_up = (\<lambda>e d. if fl_fail fl then (Inl StatementFailed, d)
           else (Inr False, snd (on_db (pg_mark_failed now org (ob_id b) (text e)) d)))
     in if fl_unlink fl p then give_up StorageFailed d
        else if fl_complete fl then give_up StatementFailed d1
        else (Inr True, snd (on_db (pg_mark_completed now org (ob_id b)) d1)))"
  by (simp add: process_item_def storage_delete_run [OF assms] catchE_def bindE_def on_db_def raise_def ret_def
    pg_mark_failed_def pg_mark_completed_def set_outbox_def writes_def Let_def split: prod.splits)

lemma office_ok_item:
  assumes ok: "office_ok env w" and x: "x \<in> set (outbox (odb w))" "ob_id x = ob_id b" "ob_path x = ob_path b"
  shows "office_ok env (w\<lparr>of_desk := snd (process_item env fl now org text b (of_desk w))\<rparr>)"
proof -
  let ?p = "ob_path b" and ?w = "clear_file env (ob_path b) w"
  from x have p: "?p \<in> ob_path ` set (outbox (odb w))" by (metis image_eqI)
  have proper: "proper_path ?p" by (rule proper_outbox [OF ok p])
  have cleared: "office_ok env ?w"
    by (rule office_ok_clear [OF ok proper live_disjoint_outbox [OF ok p]])
  have failed: "office_ok env (in_db (pg_mark_failed now org (ob_id b) e) v)" if "office_ok env v" for e v
    using that by (rule office_ok_in_db [OF _ keeps_pg_marks(2) drops_mark_failed])
  have completed: "office_ok env (in_db (pg_mark_completed now org (ob_id b)) ?w)"
    by (rule office_ok_complete [OF cleared, of ?p x]) (use x in \<open>simp_all add: clear_file_def\<close>)
  show ?thesis
    unfolding process_item_run [OF proper] Let_def
    using failed [OF ok] failed [OF cleared] completed cleared ok
    by (auto simp: in_db_def clear_file_def)
qed

lemma office_ok_transition:
  assumes "office_ok env w"
  shows "office_ok env (w\<lparr>of_desk := snd (transition_ticket cl org t actor expected target assigned clock (of_desk w))\<rparr>)"
  using office_ok_in_db [OF assms keeps_pg_transition_ticket drops_transition] assms
  by (auto simp: transition_ticket_def raise_def in_db_def)

lemma step_ok:
  assumes "office_step env w w'" and ok: "office_ok env w"
  shows "office_ok env w'"
  using assms(1)
proof cases
  case (office_store name content f md u org t fl p d)
  then show ?thesis using office_ok_store [OF ok] by blast
next
  case (office_finish us u vs fl cl i actor owner_only r d)
  have proper: "proper_path (up_path u)"
    using office_finish(2) by (intro office_okD(2) [OF ok]) (auto simp: known_paths_def)
  let ?died = "w\<lparr>of_uploads := us @ vs, of_lost := up_path u # of_lost w\<rparr>"
  have died: "office_ok env ?died" by (rule office_ok_die [OF ok office_finish(2)])
  have dead: "up_path u \<notin> set (live_paths ?died)"
    using office_okD(5) [OF ok] office_finish(2) by auto
  have cleared: "office_ok env (clear_file env (up_path u) ?died)"
    by (rule office_ok_clear [OF died proper dead])
  have "office_ok env ((clear_file env (up_path u) ?died)\<lparr>of_lost := of_lost w\<rparr>)"
    by (rule office_ok_forget [OF cleared, of "up_path u"]) (simp_all add: clear_file_def)
  moreover have "(clear_file env (up_path u) ?died)\<lparr>of_lost := of_lost w\<rparr>
      = w\<lparr>of_desk := (of_desk w)\<lparr>dk_files := (ofiles w)(file_of env (up_path u) := None)\<rparr>, of_uploads := us @ vs\<rparr>"
    by (cases w) (simp add: clear_file_def)
  ultimately have forgot: "office_ok env (w\<lparr>of_desk := (of_desk w)
      \<lparr>dk_files := (ofiles w)(file_of env (up_path u) := None)\<rparr>, of_uploads := us @ vs\<rparr>)" by simp
  have ended: "office_ok env (w\<lparr>of_desk := (of_desk w)\<lparr>dk_db := db\<rparr>, of_uploads := us @ vs\<rparr>)"
    if "pg_create_attachment cl (up_org u) i (up_ticket u) actor (up_metadata u) (up_path u) owner_only (odb w) = (Inr a, db)"
    for a db by (rule office_ok_attach [OF ok office_finish(2) that])
  show ?thesis
    using office_finish(3) died forgot ended unfolding office_finish(1) finish_upload_run [OF proper]
    by (auto split: prod.splits sum.splits if_splits)
next
  case (office_die us u vs)
  then show ?thesis using office_ok_die [OF ok] by simp
next
  case (office_drop_ticket cl gen org t actor everything)
  then show ?thesis using office_ok_in_db [OF ok keeps_pg_delete_ticket drops_delete_ticket] by simp
next
  case (office_drop_attachment cl gen org t i actor owner_only p)
  then show ?thesis using office_ok_in_db [OF ok keeps_pg_delete_attachment drops_delete_attachment] by simp
next
  case (office_unlink p fl)
  then show ?thesis using office_ok_unlink [OF ok] by simp
next
  case (office_claim org locked n)
  then show ?thesis using office_ok_in_db [OF ok keeps_pg_claim_deletions drops_claim] by simp
next
  case (office_item b fl now org msg)
  then show ?thesis using office_ok_item [OF ok] by blast
next
  case (office_ticket org i cl creator number q)
  then show ?thesis using office_ok_in_db [OF ok keeps_pg_create_ticket drops_create_ticket] by simp
next
  case (office_comment cl org i t user internal content owner_only)
  then show ?thesis using office_ok_in_db [OF ok keeps_pg_add_comment drops_add_comment] by simp
next
  case (office_transition cl org t actor expected target assigned clock)
  then show ?thesis using office_ok_transition [OF ok] by simp
next
  case (office_other db)
  then show ?thesis using office_ok_drops [OF ok] by (simp add: same_desk_def drops_same)
qed

lemma reach_ok: "(office_step env)\<^sup>*\<^sup>* w w' \<Longrightarrow> office_ok env w \<Longrightarrow> office_ok env w'"
  by (induction rule: rtranclp_induct) (auto intro: step_ok)

section \<open>Whole calls are sequences of steps\<close>

text \<open>
  \<open>call_step\<close> adds to the steps the four calls of the service that touch files, each from its beginning
  to its end: \<open>upload_attachment\<close>, \<open>delete_attachment\<close>, \<open>delete_ticket\<close> and
  \<open>process_pending_deletions\<close>. A call that other requests come between, or that dies on the way, is
  covered by the steps themselves. An upload that fails and cannot
  remove its file again is noted in \<open>of_lost\<close>.
\<close>

inductive call_step :: "desk_env \<Rightarrow> office \<Rightarrow> office \<Rightarrow> bool" for env where
  call_part: "office_step env w w' \<Longrightarrow> call_step env w w'"
| call_invalid: "validate_attachment name content f = None \<Longrightarrow> call_step env w
    (w\<lparr>of_desk := snd (upload_attachment env fl cl i f org t actor name content owner_only (of_desk w))\<rparr>)"
| call_upload: "validate_attachment name content f = Some md \<Longrightarrow>
    u = \<lparr>up_org = org, up_ticket = t, up_metadata = md, up_content = content\<rparr> \<Longrightarrow>
    up_path u \<notin> known_paths w \<Longrightarrow>
    upload_attachment env fl cl i f org t actor name content owner_only (of_desk w) = (r, d) \<Longrightarrow>
    call_step env w (w\<lparr>of_desk := d, of_lost :=
      (if isl r \<and> fl_unlink fl (up_path u) \<and> dk_files d (file_of env (up_path u)) \<noteq> None
       then up_path u # of_lost w else of_lost w)\<rparr>)"
| call_delete_attachment: "call_step env w
    (w\<lparr>of_desk := snd (delete_attachment env fl cl gen org t i actor owner_only (of_desk w))\<rparr>)"
| call_delete_ticket: "call_step env w
    (w\<lparr>of_desk := snd (delete_ticket env fl cl gen org t actor can_delete_any (of_desk w))\<rparr>)"
| call_process: "call_step env w
    (w\<lparr>of_desk := snd (process_pending_deletions env fls now org text locked batch_size (of_desk w))\<rparr>)"

lemma no_file_at_new_path:
  assumes ok: "office_ok env w" and "proper_path p" and "p \<notin> known_paths w"
  shows "ofiles w (file_of env p) = None"
proof (rule ccontr)
  assume "ofiles w (file_of env p) \<noteq> None"
  from office_okD(7) [OF ok this] obtain p' where p': "file_of env p = file_of env p'"
    "p' \<in> set (live_paths w) \<union> queued_paths (odb w) \<union> set (of_lost w)" by blast
  then have "p' \<in> known_paths w" by (auto simp: known_paths_def queued_paths_def)
  with office_okD(2) [OF ok this] p'(1) assms(2,3) show False by (auto simp: file_of_inj)
qed

lemma storage_store_InlD: "storage_store env fl org t md content d = (Inl e, d') \<Longrightarrow> d' = d"
  by (auto simp: storage_store_def Let_def eff_defs split: option.splits if_splits)

lemma upload_steps:
  assumes ok: "office_ok env w" and valid: "validate_attachment name content f = Some md"
    and u: "u = \<lparr>up_org = org, up_ticket = t, up_metadata = md, up_content = content\<rparr>"
    and fresh: "up_path u \<notin> known_paths w"
    and run: "upload_attachment env fl cl i f org t actor name content owner_only (of_desk w) = (r, d)"
  shows "(office_step env)\<^sup>*\<^sup>* w (w\<lparr>of_desk := d, of_lost :=
      (if isl r \<and> fl_unlink fl (up_path u) \<and> dk_files d (file_of env (up_path u)) \<noteq> None
       then up_path u # of_lost w else of_lost w)\<rparr>)"
proof -
  have path: "up_path u = attachment_path org t (md_stored md)" by (simp add: u up_path_def)
  have proper: "proper_path (up_path u)" unfolding path by (rule proper_up_path [OF valid])
  have stay: ?thesis if "d = of_desk w"
  proof -
    have "dk_files d (file_of env (up_path u)) = None"
      unfolding that by (rule no_file_at_new_path [OF ok proper fresh])
    then show ?thesis by (simp add: that)
  qed
  show ?thesis
  proof (cases "uuid_version i \<noteq> Some 4 \<or> \<not> st_enabled env")
    case True
    with run valid have "d = of_desk w" by (auto simp: upload_attachment_def raise_def)
    then show ?thesis by (rule stay)
  next
    case ready: False
    obtain res d1 where store: "storage_store env fl org t md content (of_desk w) = (res, d1)" by fastforce
    show ?thesis
    proof (cases res)
      case (Inl e)
      with run valid ready store storage_store_InlD [of env fl org t md content "of_desk w" e d1]
      have "d = of_desk w" by (auto simp: upload_attachment_def bindE_def)
      then show ?thesis by (rule stay)
    next
      case (Inr p)
      note stored = storage_store_run [OF store [unfolded Inr] proper_up_path [OF valid], folded path]
      let ?w1 = "w\<lparr>of_desk := d1, of_uploads := of_uploads w @ [u]\<rparr>"
      have first: "office_step env w ?w1" by (rule office_store [OF valid u fresh store [unfolded Inr]])
      have finish: "finish_upload env fl cl i (up_org u) (up_ticket u) actor (up_metadata u) (up_path u) owner_only d1 = (r, d)"
        using run valid ready store Inr stored(1) by (simp add: upload_attachment_def bindE_def u)
      then have second: "office_step env ?w1 (?w1\<lparr>of_desk := d, of_uploads := of_uploads w @ [],
          of_lost := (if isl r \<and> fl_unlink fl (up_path u) then up_path u # of_lost ?w1 else of_lost ?w1)\<rparr>)"
        by (intro office_finish) simp_all
      have "isl r \<longrightarrow> (dk_files d (file_of env (up_path u)) \<noteq> None) = fl_unlink fl (up_path u)"
        using finish stored unfolding finish_upload_run [OF proper]
        by (auto split: prod.splits sum.splits if_splits)
      then have "?w1\<lparr>of_desk := d, of_uploads := of_uploads w @ [],
          of_lost := (if isl r \<and> fl_unlink fl (up_path u) then up_path u # of_lost ?w1 else of_lost ?w1)\<rparr>
        = w\<lparr>of_desk := d, of_lost :=
          (if isl r \<and> fl_unlink fl (up_path u) \<and> dk_files d (file_of env (up_path u)) \<noteq> None
           then up_path u # of_lost w else of_lost w)\<rparr>"
        by (cases w, cases "isl r") simp_all
      with first second show ?thesis by (metis (no_types) converse_rtranclp_into_rtranclp r_into_rtranclp)
    qed
  qed
qed

text \<open>Unlinking queued paths, one after the other.\<close>

lemma unlink_quietly_run:
  "unlink_quietly env fl p d = (Inr (), if st_enabled env then snd (storage_delete env fl p d) else d)"
  by (auto simp: unlink_quietly_def catchE_def ret_def split: prod.splits sum.splits)

lemma storage_delete_db: "dk_db (snd (storage_delete env fl p d)) = dk_db d"
  by (auto simp: storage_delete_def eff_defs split: option.splits)

lemma unlink_step:
  assumes "p \<in> ob_path ` set (outbox (odb w))"
  shows "(office_step env)\<^sup>*\<^sup>* w (w\<lparr>of_desk := snd (unlink_quietly env fl p (of_desk w))\<rparr>)"
  using office_unlink [OF assms, of env fl] by (auto simp: unlink_quietly_run)

lemma unlinks_steps:
  "set ps \<subseteq> ob_path ` set (outbox (odb w))
   \<Longrightarrow> (office_step env)\<^sup>*\<^sup>* w (w\<lparr>of_desk := snd (eachE (unlink_quietly env fl) ps (of_desk w))\<rparr>)"
proof (induction ps arbitrary: w)
  case (Cons p ps)
  obtain d1 where d1: "unlink_quietly env fl p (of_desk w) = (Inr (), d1)" "dk_db d1 = odb w"
    by (simp add: unlink_quietly_run storage_delete_db)
  let ?w1 = "w\<lparr>of_desk := d1\<rparr>"
  have "(office_step env)\<^sup>*\<^sup>* ?w1 (?w1\<lparr>of_desk := snd (eachE (unlink_quietly env fl) ps (of_desk ?w1))\<rparr>)"
    by (rule Cons.IH) (use Cons.prems d1 in simp)
  moreover have "(office_step env)\<^sup>*\<^sup>* w ?w1"
    using unlink_step [of p w env fl] Cons.prems by (simp add: d1)
  ultimately show ?case by (simp add: bindE_def d1)
qed (simp add: ret_def)

lemma pg_get_attachment_db: "snd (pg_get_attachment org t i actor everything db) = db"
  by (auto simp: pg_get_attachment_def eff_defs split: option.splits)

lemma map_eq_images: "map f xs = map g ys \<Longrightarrow> f ` set xs = g ` set ys"
  by (metis set_map)

lemma pg_delete_attachment_queues:
  assumes "pg_delete_attachment cl gen org t i actor owner_only p db = (Inr (), db')"
  shows "p \<in> ob_path ` set (outbox db')"
proof -
  have "wp (pg_delete_attachment cl gen org t i actor owner_only p)
      (\<lambda>_ db'. p \<in> ob_path ` set (outbox db')) (\<lambda>_ _. True) db"
    unfolding pg_delete_attachment_def
    by (auto simp: Let_def wp_if image_Un select_where_def filter_empty_conv
      dest!: map_eq_images intro!: wp_queue_deletions wp_audit_call)
  from wp_InrD [OF this assms] show ?thesis .
qed

lemma pg_delete_ticket_queues:
  assumes "pg_delete_ticket cl gen org t actor everything db = (Inr paths, db')"
  shows "set paths \<subseteq> ob_path ` set (outbox db')"
proof -
  have "wp (pg_delete_ticket cl gen org t actor everything)
      (\<lambda>paths db'. set paths \<subseteq> ob_path ` set (outbox db')) (\<lambda>_ _. True) db"
    unfolding pg_delete_ticket_def
    by (auto simp: Let_def wp_if image_Un split: option.splits dest!: map_eq_images
      intro!: wp_queue_deletions wp_audit_call)
  from wp_InrD [OF this assms] show ?thesis .
qed

lemma delete_attachment_steps:
  "(office_step env)\<^sup>*\<^sup>* w
     (w\<lparr>of_desk := snd (delete_attachment env fl cl gen org t i actor owner_only (of_desk w))\<rparr>)"
proof -
  obtain res db where get: "pg_get_attachment org t i actor (\<not> owner_only) (odb w) = (res, db)" by fastforce
  with pg_get_attachment_db [of org t i actor "\<not> owner_only" "odb w"] have db: "db = odb w" by simp
  then have got: "on_db (pg_get_attachment org t i actor (\<not> owner_only)) (of_desk w) = (res, of_desk w)"
    by (simp add: on_db_def get)
  show ?thesis
  proof (cases res)
    case (Inl e)
    then show ?thesis by (simp add: delete_attachment_def bindE_def got)
  next
    case (Inr a)
    let ?drop = "pg_delete_attachment cl gen org t i actor owner_only (at_path a)"
    have first: "office_step env w (in_db ?drop w)" by (rule office_drop_attachment)
    obtain res' db' where run: "?drop (odb w) = (res', db')" by fastforce
    have call: "on_db ?drop (of_desk w) = (res', (of_desk w)\<lparr>dk_db := db'\<rparr>)"
      and w1: "in_db ?drop w = w\<lparr>of_desk := (of_desk w)\<lparr>dk_db := db'\<rparr>\<rparr>"
      by (simp_all add: on_db_def run in_db_eq)
    note whole = delete_attachment_def bindE_def got call Inr
    show ?thesis
    proof (cases res')
      case (Inl e)
      with first show ?thesis by (simp add: whole w1)
    next
      case Ok: (Inr u)
      then have "at_path a \<in> ob_path ` set (outbox (odb (in_db ?drop w)))"
        using pg_delete_attachment_queues [of cl gen org t i actor owner_only "at_path a" "odb w" db'] run
        by (simp add: w1)
      from converse_rtranclp_into_rtranclp [OF first unlink_step [OF this, of env fl]] Ok
      show ?thesis by (simp add: whole w1)
    qed
  qed
qed

lemma delete_ticket_steps:
  "(office_step env)\<^sup>*\<^sup>* w (w\<lparr>of_desk := snd (delete_ticket env fl cl gen org t actor can_delete_any (of_desk w))\<rparr>)"
proof -
  let ?drop = "pg_delete_ticket cl gen org t actor can_delete_any"
  have first: "office_step env w (in_db ?drop w)" by (rule office_drop_ticket)
  obtain res db where run: "?drop (odb w) = (res, db)" by fastforce
  have call: "on_db ?drop (of_desk w) = (res, (of_desk w)\<lparr>dk_db := db\<rparr>)"
    and w1: "in_db ?drop w = w\<lparr>of_desk := (of_desk w)\<lparr>dk_db := db\<rparr>\<rparr>"
    by (simp_all add: on_db_def run in_db_eq)
  note whole = delete_ticket_def bindE_def call
  show ?thesis
  proof (cases res)
    case (Inl e)
    with first show ?thesis by (simp add: whole w1)
  next
    case (Inr paths)
    then have "set paths \<subseteq> ob_path ` set (outbox (odb (in_db ?drop w)))"
      using pg_delete_ticket_queues [of cl gen org t actor can_delete_any "odb w" paths db] run
      by (simp add: w1)
    from converse_rtranclp_into_rtranclp [OF first unlinks_steps [OF this, of env fl]] Inr
    show ?thesis by (simp add: whole w1)
  qed
qed

definition outbox_names :: "support_db \<Rightarrow> (uuid \<times> string) set" where
  "outbox_names db = (\<lambda>b. (ob_id b, ob_path b)) ` set (outbox db)"

lemma process_item_names: "outbox_names (dk_db (snd (process_item env fl now org msg b d))) = outbox_names (dk_db d)"
  by (auto simp: process_item_def storage_delete_def eff_defs on_db_def pg_mark_completed_def pg_mark_failed_def
      set_outbox_def outbox_names_def image_update_where split: option.splits prod.splits sum.splits)

lemma items_steps:
  "\<forall>b\<in>set bs. (ob_id b, ob_path b) \<in> outbox_names (odb w)
   \<Longrightarrow> (office_step env)\<^sup>*\<^sup>* w
     (w\<lparr>of_desk := snd (mapE (\<lambda>b. process_item env (fls (ob_id b)) now org msg b) bs (of_desk w))\<rparr>)"
proof (induction bs arbitrary: w)
  case (Cons b bs)
  let ?items = "mapE (\<lambda>b. process_item env (fls (ob_id b)) now org msg b)"
  obtain r d1 where d1: "process_item env (fls (ob_id b)) now org msg b (of_desk w) = (r, d1)" by fastforce
  have names: "outbox_names (dk_db d1) = outbox_names (odb w)"
    using process_item_names [of env "fls (ob_id b)" now org msg b "of_desk w"] by (simp add: d1)
  have "\<exists>x\<in>set (outbox (odb w)). ob_id x = ob_id b \<and> ob_path x = ob_path b"
    using Cons.prems by (auto simp: outbox_names_def)
  from office_item [OF this, of env "fls (ob_id b)" now org msg]
  have first: "office_step env w (w\<lparr>of_desk := d1\<rparr>)" by (simp add: d1)
  have rest: "(office_step env)\<^sup>*\<^sup>* (w\<lparr>of_desk := d1\<rparr>) (w\<lparr>of_desk := snd (?items bs d1)\<rparr>)"
    using Cons.IH [of "w\<lparr>of_desk := d1\<rparr>"] Cons.prems by (simp add: names)
  show ?case
  proof (cases r)
    case (Inl e)
    with first show ?thesis by (simp add: bindE_def d1)
  next
    case (Inr y)
    then have "snd (?items (b # bs) (of_desk w)) = snd (?items bs d1)"
      by (simp add: bindE_def d1 ret_def split: prod.splits sum.splits)
    with converse_rtranclp_into_rtranclp [OF first rest] show ?thesis by simp
  qed
qed (simp add: ret_def)

lemma process_steps:
  "(office_step env)\<^sup>*\<^sup>* w
     (w\<lparr>of_desk := snd (process_pending_deletions env fls now org msg locked n (of_desk w))\<rparr>)"
proof (cases "st_enabled env")
  case False
  then show ?thesis by (simp add: process_pending_deletions_def raise_def)
next
  case True
  obtain bs db where claim: "pg_claim_deletions org locked n (odb w) = (Inr bs, db)"
    and bs: "set bs \<subseteq> set (outbox db)"
    by (auto simp: pg_claim_deletions_def eff_defs own_outbox_def)
  let ?w1 = "w\<lparr>of_desk := (of_desk w)\<lparr>dk_db := db\<rparr>\<rparr>"
  have first: "office_step env w ?w1" using office_claim [of env w org locked n] by (simp add: in_db_eq claim)
  let ?items = "mapE (\<lambda>b. process_item env (fls (ob_id b)) now org msg b) bs"
  have "\<forall>b\<in>set bs. (ob_id b, ob_path b) \<in> outbox_names (odb ?w1)"
    using bs by (auto simp: outbox_names_def)
  from items_steps [OF this, of env fls now org msg]
  have "(office_step env)\<^sup>*\<^sup>* ?w1 (w\<lparr>of_desk := snd (?items (of_desk ?w1))\<rparr>)" by simp
  moreover have "snd (process_pending_deletions env fls now org msg locked n (of_desk w)) = snd (?items (of_desk ?w1))"
    using True by (simp add: process_pending_deletions_def bindE_def on_db_def claim ret_def split: prod.splits sum.splits)
  ultimately show ?thesis by (simp add: converse_rtranclp_into_rtranclp [of "office_step env", OF first])
qed

text \<open>So each call refines a sequence of steps, from a sound office, and reaches a sound one.\<close>

lemma call_refines:
  assumes "call_step env w w'" and "office_ok env w"
  shows "(office_step env)\<^sup>*\<^sup>* w w'"
  using assms(1)
proof cases
  case (call_invalid name content f fl cl i org t actor owner_only)
  then show ?thesis by (simp add: upload_attachment_def raise_def)
next
  case (call_upload name content f md u org t fl cl i actor owner_only r d)
  then show ?thesis using upload_steps [OF assms(2)] by blast
qed (auto simp: delete_attachment_steps delete_ticket_steps process_steps)

lemma calls_refine:
  "(call_step env)\<^sup>*\<^sup>* w w' \<Longrightarrow> office_ok env w \<Longrightarrow> (office_step env)\<^sup>*\<^sup>* w w'"
proof (induction rule: rtranclp_induct)
  case (step v u)
  then have "(office_step env)\<^sup>*\<^sup>* w v" by simp
  moreover from this step.prems have "office_ok env v" by (rule reach_ok)
  ultimately show ?case using call_refines [OF step.hyps(2)] by (meson rtranclp_trans)
qed simp

section \<open>What happens to an attachment\<close>

definition served :: "desk_env \<Rightarrow> office \<Rightarrow> office \<Rightarrow> bool" where
  "served env w w' \<longleftrightarrow> ob_path ` set (outbox (odb w)) \<subseteq> ob_path ` set (outbox (odb w'))
     \<and> (\<forall>a\<in>set (attachments (odb w)). at_path a \<in> ob_path ` set (outbox (odb w'))
          \<or> (a \<in> set (attachments (odb w')) \<and> ofiles w' (file_of env (at_path a)) = ofiles w (file_of env (at_path a))))"

lemma served_refl: "served env w w"
  by (simp add: served_def)

lemma served_tickets [simp]: "served env w (w'\<lparr>of_tickets := ks\<rparr>) = served env w w'"
  by (simp add: served_def)

lemma served_trans: "served env u v \<Longrightarrow> served env v w \<Longrightarrow> served env u w"
proof -
  assume uv: "served env u v" and vw: "served env v w"
  have paths: "ob_path ` set (outbox (odb u)) \<subseteq> ob_path ` set (outbox (odb v))"
    "ob_path ` set (outbox (odb v)) \<subseteq> ob_path ` set (outbox (odb w))"
    using uv vw by (simp_all add: served_def)
  have "at_path a \<in> ob_path ` set (outbox (odb w))
      \<or> (a \<in> set (attachments (odb w)) \<and> ofiles w (file_of env (at_path a)) = ofiles u (file_of env (at_path a)))"
    if a: "a \<in> set (attachments (odb u))" for a
  proof (cases "at_path a \<in> ob_path ` set (outbox (odb v))")
    case True
    then show ?thesis using paths(2) by blast
  next
    case False
    with uv a have "a \<in> set (attachments (odb v))"
      and same: "ofiles v (file_of env (at_path a)) = ofiles u (file_of env (at_path a))"
      by (auto simp only: served_def)
    with vw show ?thesis by (simp add: served_def) (metis same)
  qed
  then show ?thesis using subset_trans [OF paths] unfolding served_def by blast
qed

lemma served_drops:
  assumes "drops (odb w) db"
  shows "served env w (w\<lparr>of_desk := (of_desk w)\<lparr>dk_db := db\<rparr>\<rparr>)"
  using assms by (auto simp: drops_def served_def)

lemma served_in_db:
  "wp m (\<lambda>_. drops (odb w)) (\<lambda>_. drops (odb w)) (odb w) \<Longrightarrow> served env w (in_db m w)"
  unfolding in_db_eq by (rule served_drops) (simp add: wp_snd)

lemma served_files:
  assumes "odb w' = odb w" and "\<And>p. p \<in> set (live_paths w) \<Longrightarrow> ofiles w' (file_of env p) = ofiles w (file_of env p)"
  shows "served env w w'"
  using assms by (auto simp: served_def)

lemma served_clear:
  assumes ok: "office_ok env w" and p: "proper_path p" "p \<notin> set (live_paths w)"
  shows "served env w (clear_file env p w)"
proof (rule served_files)
  fix q
  assume q: "q \<in> set (live_paths w)"
  then have "proper_path q" by (intro office_okD(2) [OF ok]) (auto simp: known_paths_def)
  then have "file_of env q \<noteq> file_of env p" using p q by (auto simp: file_of_inj)
  then show "ofiles (clear_file env p w) (file_of env q) = ofiles w (file_of env q)"
    by (simp add: clear_file_def)
qed (simp add: clear_file_def)

lemma served_item:
  assumes ok: "office_ok env w" and x: "x \<in> set (outbox (odb w))" "ob_id x = ob_id b" "ob_path x = ob_path b"
  shows "served env w (w\<lparr>of_desk := snd (process_item env fl now org text b (of_desk w))\<rparr>)"
proof -
  let ?w = "clear_file env (ob_path b) w"
  from x have p: "ob_path b \<in> ob_path ` set (outbox (odb w))" by (metis image_eqI)
  have proper: "proper_path (ob_path b)" by (rule proper_outbox [OF ok p])
  have cleared: "served env w ?w"
    by (rule served_clear [OF ok proper live_disjoint_outbox [OF ok p]])
  have failed: "served env v (in_db (pg_mark_failed now org (ob_id b) e) v)" for e v
    by (rule served_in_db [OF drops_mark_failed])
  have "served env v (in_db (pg_mark_completed now org (ob_id b)) v)" for v
    by (simp add: served_def in_db_eq pg_mark_completed_def set_outbox_def writes_def image_update_where)
  then have completed: "served env w (in_db (pg_mark_completed now org (ob_id b)) ?w)"
    using served_trans cleared by blast
  have "served env w (in_db (pg_mark_failed now org (ob_id b) e) ?w)" for e
    using served_trans cleared failed by blast
  with failed [of w] completed cleared show ?thesis
    unfolding process_item_run [OF proper] Let_def
    by (auto simp: in_db_def clear_file_def served_refl)
qed

lemma served_finish:
  assumes ok: "office_ok env w" and us: "of_uploads w = us @ u # vs"
    and run: "finish_upload env fl cl i (up_org u) (up_ticket u) actor (up_metadata u) (up_path u) owner_only (of_desk w) = (r, d)"
  shows "served env w (w\<lparr>of_desk := d, of_uploads := us @ vs, of_lost := lost\<rparr>)"
proof -
  have proper: "proper_path (up_path u)"
    using us by (intro office_okD(2) [OF ok]) (auto simp: known_paths_def)
  have other: "file_of env (at_path a) \<noteq> file_of env (up_path u)" if "a \<in> set (attachments (odb w))" for a
  proof -
    have "proper_path (at_path a)" using that by (intro office_okD(2) [OF ok]) (auto simp: known_paths_def)
    moreover have "at_path a \<noteq> up_path u" using office_okD(5) [OF ok] imageI [OF that, of at_path] by (auto simp: us)
    ultimately show ?thesis using proper by (simp add: file_of_inj)
  qed
  show ?thesis
    using run other unfolding finish_upload_run [OF proper]
    by (auto simp: served_def pg_create_attachment_run split: prod.splits sum.splits if_splits)
qed

lemma step_served:
  assumes "office_step env w w'" and ok: "office_ok env w"
  shows "served env w w'"
  using assms(1)
proof cases
  case (office_store name content f md u org t fl p d)
  note valid = office_store(2)
  have path: "up_path u = attachment_path org t (md_stored md)" by (simp add: office_store(3) up_path_def)
  note stored = storage_store_run [OF office_store(5) proper_up_path [OF valid], folded path]
  show ?thesis
  proof (rule served_files)
    fix q
    assume "q \<in> set (live_paths w)"
    then have known: "q \<in> known_paths w" by (auto simp: known_paths_def)
    have "proper_path (up_path u)" unfolding path by (rule proper_up_path [OF valid])
    with office_okD(2) [OF ok known] office_store(4) known
    show "ofiles w' (file_of env q) = ofiles w (file_of env q)"
      by (auto simp: office_store(1) stored(3) stored(1) file_of_inj)
  qed (simp add: office_store(1) stored(3))
next
  case (office_finish us u vs fl cl i actor owner_only r d)
  show ?thesis unfolding office_finish(1) by (rule served_finish [OF ok office_finish(2,3)])
next
  case (office_unlink p fl)
  from ok office_unlink(2) have "proper_path p" "p \<notin> set (live_paths w)"
    by (simp_all only: proper_outbox live_disjoint_outbox not_False_eq_True)
  with served_clear [OF ok this] show ?thesis
    by (auto simp: office_unlink(1) storage_delete_run clear_file_def served_refl)
next
  case (office_item b fl now org msg)
  then show ?thesis using served_item [OF ok] by blast
next
  case (office_transition cl org t actor expected target assigned clock)
  then show ?thesis
    using served_in_db [OF drops_transition] by (auto simp: transition_ticket_def in_db_def raise_def served_refl)
next
  case (office_other db)
  then show ?thesis using served_drops [of w db env] by (simp add: same_desk_def drops_same)
qed (auto simp: served_def [where w' = "w\<lparr>of_uploads := _, of_lost := _\<rparr>"] intro: served_in_db drops_delete_ticket drops_delete_attachment drops_claim drops_create_ticket drops_add_comment)

lemma reach_served:
  assumes "(office_step env)\<^sup>*\<^sup>* w w'" and "office_ok env w"
  shows "served env w w'"
  using assms
proof (induction rule: rtranclp_induct)
  case (step v u)
  then show ?case using reach_ok [of env w v] step_served served_trans by blast
qed (rule served_refl)

lemma first_row_only:
  assumes "r \<in> set rows" "P r" and only: "\<And>s. s \<in> set rows \<Longrightarrow> P s \<Longrightarrow> s = r"
  shows "first_row (select_where P rows) = Some r"
proof (cases "first_row (select_where P rows)")
  case None
  then have "set (select_where P rows) = {}" by simp
  with assms(1,2) show ?thesis by auto
next
  case (Some s)
  from first_row_SomeD [OF this] only [of s] have "s = r" by simp
  with Some show ?thesis by simp
qed

lemma download_run:
  assumes ok: "office_ok env w" and a: "a \<in> set (attachments (odb w))" and "st_enabled env" "\<not> fl_read fl"
    and seen: "readable_ticket (at_org a) (at_ticket a) actor everything (odb w) = Some t"
    and kept: "ofiles w (file_of env (at_path a)) = Some content"
  shows "download_attachment env fl (at_org a) (at_ticket a) (at_id a) actor everything (of_desk w)
    = (Inr \<lparr>dl_name = at_original a, dl_mime = at_mime a, dl_content = content\<rparr>, of_desk w)"
proof -
  note good = office_okD(1) [OF ok, unfolded store_ok_def]
  have row: "first_row (select_where (\<lambda>x. the_attachment (at_org a) (at_ticket a) (at_id a) x
      \<and> readable_ticket (at_org a) (at_ticket a) actor everything (odb w) \<noteq> None) (attachments (odb w))) = Some a"
    by (rule first_row_only [OF a]) (use good a in \<open>auto simp: the_attachment_def seen dest: unique_by_eqD\<close>)
  have "length content = at_size a"
    using office_okD(3) [OF ok a] kept by (auto simp: holds_file_def)
  moreover have "at_size a \<le> MAX_ATTACHMENT_BYTES"
    using good a by (auto simp: list_all_iff attachment_checks_def)
  moreover have "confined env (at_path a) = Some (file_of env (at_path a))"
    by (rule proper_confined, rule office_okD(2) [OF ok]) (use a in \<open>simp add: known_paths_def\<close>)
  moreover have "pg_get_attachment (at_org a) (at_ticket a) (at_id a) actor everything (odb w) = (Inr a, odb w)"
    by (simp add: pg_get_attachment_def bindE_def reads_def row ret_def del: not_None_eq)
  ultimately show ?thesis
    using assms(3,4) kept
    by (simp add: download_attachment_def on_db_def bindE_def reads_def ret_def catchE_def storage_read_def)
qed

text \<open>
  The answer of an upload: from \<open>w\<close>, a whole call of \<open>upload_attachment\<close> under a new file name, or
  the second half of one that other requests came into, returns the row \<open>a\<close> and leaves \<open>w1\<close>.
\<close>

definition upload_answered :: "desk_env \<Rightarrow> office \<Rightarrow> upload \<Rightarrow> attachment_row \<Rightarrow> office \<Rightarrow> bool" where
  "upload_answered env w u a w1 \<longleftrightarrow>
     (\<exists>fl cl i f actor name owner_only d.
        validate_attachment name (up_content u) f = Some (up_metadata u) \<and> up_path u \<notin> known_paths w
        \<and> upload_attachment env fl cl i f (up_org u) (up_ticket u) actor name (up_content u) owner_only (of_desk w)
          = (Inr a, d) \<and> w1 = w\<lparr>of_desk := d\<rparr>)
   \<or> (\<exists>us vs fl cl i actor owner_only d. of_uploads w = us @ u # vs
        \<and> finish_upload env fl cl i (up_org u) (up_ticket u) actor (up_metadata u) (up_path u) owner_only (of_desk w)
          = (Inr a, d) \<and> w1 = w\<lparr>of_desk := d, of_uploads := us @ vs\<rparr>)"

lemma finish_answer:
  assumes "finish_upload env fl cl i org t actor md p owner_only d0 = (Inr a, d)" and "proper_path p"
    and "dk_files d0 (file_of env p) = Some content"
  shows "a \<in> set (attachments (dk_db d)) \<and> at_path a = p \<and> at_org a = org \<and> at_ticket a = t
    \<and> at_original a = md_name md \<and> at_mime a = md_mime md \<and> dk_files d (file_of env p) = Some content"
proof -
  obtain db where run: "pg_create_attachment cl org i t actor md p owner_only (dk_db d0) = (Inr a, db)"
    and d: "d = d0\<lparr>dk_db := db\<rparr>"
    using assms(1) unfolding finish_upload_run [OF assms(2)] by (auto split: prod.splits sum.splits if_splits)
  from pg_create_attachment_run [OF run] assms(3) show ?thesis by (simp add: d)
qed

lemma answered:
  assumes ok: "office_ok env w" and up: "upload_answered env w u a w1"
  shows "office_ok env w1 \<and> a \<in> set (attachments (odb w1)) \<and> at_path a = up_path u \<and> at_org a = up_org u
    \<and> at_ticket a = up_ticket u \<and> at_original a = md_name (up_metadata u) \<and> at_mime a = md_mime (up_metadata u)
    \<and> ofiles w1 (file_of env (up_path u)) = Some (up_content u)"
  using up [unfolded upload_answered_def]
proof (elim disjE exE conjE)
  fix fl cl i f actor name owner_only d
  assume valid: "validate_attachment name (up_content u) f = Some (up_metadata u)"
    and fresh: "up_path u \<notin> known_paths w" and w1: "w1 = w\<lparr>of_desk := d\<rparr>"
    and run: "upload_attachment env fl cl i f (up_org u) (up_ticket u) actor name (up_content u) owner_only (of_desk w)
      = (Inr a, d)"
  have path: "attachment_path (up_org u) (up_ticket u) (md_stored (up_metadata u)) = up_path u"
    by (simp add: up_path_def)
  have proper: "proper_path (up_path u)" using proper_up_path [OF valid] by (simp flip: path)
  from upload_steps [OF ok valid _ fresh run] have "(office_step env)\<^sup>*\<^sup>* w w1" by (simp add: w1)
  with ok have ok1: "office_ok env w1" by (rule reach_ok [rotated])
  obtain p d1 where store: "storage_store env fl (up_org u) (up_ticket u) (up_metadata u) (up_content u) (of_desk w) = (Inr p, d1)"
    and finish: "finish_upload env fl cl i (up_org u) (up_ticket u) actor (up_metadata u) p owner_only d1 = (Inr a, d)"
    using run valid by (auto simp: upload_attachment_def bindE_def raise_def split: prod.splits sum.splits if_splits)
  note stored = storage_store_run [OF store proper_up_path [OF valid], unfolded path]
  from finish_answer [OF finish, where content = "up_content u"] stored proper ok1 show ?thesis by (simp add: w1)
next
  fix us vs fl cl i actor owner_only d
  assume us: "of_uploads w = us @ u # vs" and w1: "w1 = w\<lparr>of_desk := d, of_uploads := us @ vs\<rparr>"
    and run: "finish_upload env fl cl i (up_org u) (up_ticket u) actor (up_metadata u) (up_path u) owner_only (of_desk w)
      = (Inr a, d)"
  have proper: "proper_path (up_path u)"
    using us by (intro office_okD(2) [OF ok]) (auto simp: known_paths_def)
  have "office_step env w w1" using office_finish [OF us run] by (simp add: w1)
  then have "office_ok env w1" by (rule step_ok [OF _ ok])
  moreover have "ofiles w (file_of env (up_path u)) = Some (up_content u)"
    using office_okD(4) [OF ok, of u] us by (simp add: holds_upload_def)
  ultimately show ?thesis using finish_answer [OF run proper] by (simp add: w1)
qed

text \<open>
  Property C30. An uploaded attachment stays available. Once an upload has answered, then after any
  sequence of calls of the service and of their parts, with crashes of uploads and runs of the deletion
  worker, in any order and with any failures of the storage, either the attachment was deleted on
  request (its path is queued for deletion, and what was ever queued stays queued) or its row is there
  and everyone who may see its ticket downloads exactly the bytes that were uploaded.
\<close>

theorem attachment_durable:
  assumes "office_ok env w" and "upload_answered env w u a w1" and "(call_step env)\<^sup>*\<^sup>* w1 w'"
    and "st_enabled env" and "\<not> fl_read fl"
  shows "ob_path ` set (outbox (odb w1)) \<subseteq> ob_path ` set (outbox (odb w'))
    \<and> (up_path u \<in> ob_path ` set (outbox (odb w'))
       \<or> a \<in> set (attachments (odb w'))
         \<and> (\<forall>reader everything t. readable_ticket (up_org u) (up_ticket u) reader everything (odb w') = Some t \<longrightarrow>
             download_attachment env fl (up_org u) (up_ticket u) (at_id a) reader everything (of_desk w')
             = (Inr \<lparr>dl_name = md_name (up_metadata u), dl_mime = md_mime (up_metadata u), dl_content = up_content u\<rparr>,
                of_desk w')))"
proof -
  note start = answered [OF assms(1,2)]
  then have steps: "(office_step env)\<^sup>*\<^sup>* w1 w'" by (intro calls_refine [OF assms(3)]) simp
  then have ok: "office_ok env w'" using start by (auto intro: reach_ok)
  have kept: "served env w1 w'" using reach_served [OF steps] start by simp
  then have cases: "up_path u \<in> ob_path ` set (outbox (odb w'))
      \<or> a \<in> set (attachments (odb w')) \<and> ofiles w' (file_of env (at_path a)) = Some (up_content u)"
  proof -
    have a: "a \<in> set (attachments (odb w1))" and path: "at_path a = up_path u"
      and content: "ofiles w1 (file_of env (up_path u)) = Some (up_content u)"
      using start by blast+
    from kept a have "at_path a \<in> ob_path ` set (outbox (odb w'))
        \<or> (a \<in> set (attachments (odb w')) \<and> ofiles w' (file_of env (at_path a)) = ofiles w1 (file_of env (at_path a)))"
      unfolding served_def by blast
    with path content show ?thesis by (elim disjE) simp_all
  qed
  show ?thesis
    using cases kept start download_run [OF ok _ assms(4,5), of a _ _ _ "up_content u"]
    by (auto simp: served_def)
qed

text \<open>
  Property C31. Files and rows match: after any sequence of calls of the service and of their parts, each
  attachment row has its file, of the recorded size and of a type whose first bytes were checked; no two
  attachments or uploads under way share a path, and none has a path that was ever queued for deletion;
  and every file of the storage belongs to an attachment, to an upload under way, to a deletion that is
  queued and not yet done, or to an upload that died or failed and could not remove its own file.
\<close>

theorem files_accounted:
  assumes "office_ok env w" and "(call_step env)\<^sup>*\<^sup>* w w'"
  shows "(\<forall>a\<in>set (attachments (odb w')). \<exists>content. ofiles w' (file_of env (at_path a)) = Some content
        \<and> length content = at_size a \<and> map_option fst (detect_type content) = Some (at_mime a))
    \<and> distinct (map at_path (attachments (odb w')) @ map up_path (of_uploads w'))
    \<and> at_path ` set (attachments (odb w')) \<inter> ob_path ` set (outbox (odb w')) = {}
    \<and> (\<forall>q. ofiles w' q \<noteq> None \<longrightarrow> q \<in> file_of env ` (at_path ` set (attachments (odb w'))
        \<union> up_path ` set (of_uploads w') \<union> queued_paths (odb w') \<union> set (of_lost w')))"
proof (intro conjI ballI allI impI)
  note ok = reach_ok [OF calls_refine [OF assms(2,1)] assms(1)]
  show "\<exists>content. ofiles w' (file_of env (at_path a)) = Some content
      \<and> length content = at_size a \<and> map_option fst (detect_type content) = Some (at_mime a)"
    if "a \<in> set (attachments (odb w'))" for a
    using office_okD(3) [OF ok that] unfolding holds_file_def by blast
  show "distinct (map at_path (attachments (odb w')) @ map up_path (of_uploads w'))"
    by (rule office_okD(5) [OF ok])
  show "at_path ` set (attachments (odb w')) \<inter> ob_path ` set (outbox (odb w')) = {}"
    using office_okD(6) [OF ok] by auto
  show "q \<in> file_of env ` (at_path ` set (attachments (odb w'))
      \<union> up_path ` set (of_uploads w') \<union> queued_paths (odb w') \<union> set (of_lost w'))" if "ofiles w' q \<noteq> None" for q
    using office_okD(7) [OF ok that] by simp
qed

section \<open>The life of a ticket\<close>

definition ticket_edge :: "ticket_row \<Rightarrow> ticket_row \<Rightarrow> bool" where
  "ticket_edge r r' \<longleftrightarrow> (\<exists>now target assigned resolved. target \<in> TICKET_TRANSITIONS (tk_status r)
     \<and> (target = ASSIGNED \<longrightarrow> assigned \<noteq> None) \<and> r' = moved_ticket now target assigned resolved r)"

definition staffed :: "ticket_row \<Rightarrow> bool" where
  "staffed r \<longleftrightarrow> (tk_status r \<noteq> NEW \<longrightarrow> tk_assignee r \<noteq> None)"

definition tickets_kept :: "office \<Rightarrow> bool" where
  "tickets_kept w \<longleftrightarrow> (\<forall>r\<in>set (tickets (odb w)). staffed r \<and> ticket_key r \<in> set (of_tickets w))"

text \<open>Every ticket comes from an earlier one along the transitions, or is a new one.\<close>

definition tickets_live :: "office \<Rightarrow> office \<Rightarrow> bool" where
  "tickets_live w w' \<longleftrightarrow> set (of_tickets w) \<subseteq> set (of_tickets w')
     \<and> (\<forall>r'\<in>set (tickets (odb w')). (\<exists>r\<in>set (tickets (odb w)). ticket_edge\<^sup>*\<^sup>* r r')
          \<or> ticket_key r' \<notin> set (of_tickets w))"

lemma ticket_edge_key: "ticket_edge r r' \<Longrightarrow> ticket_key r' = ticket_key r"
  by (auto simp: ticket_edge_def)

lemma ticket_edges_key: "ticket_edge\<^sup>*\<^sup>* r r' \<Longrightarrow> ticket_key r' = ticket_key r"
  by (induction rule: rtranclp_induct) (auto dest: ticket_edge_key)

lemma ticket_edge_staffed: "ticket_edge r r' \<Longrightarrow> staffed r \<Longrightarrow> staffed r'"
  by (cases "tk_status r") (auto simp: ticket_edge_def staffed_def moved_ticket_def)

lemma closed_final: "ticket_edge\<^sup>*\<^sup>* r r' \<Longrightarrow> tk_status r = CLOSED \<Longrightarrow> r' = r"
  by (induction rule: converse_rtranclp_induct) (auto simp: ticket_edge_def)

lemma tickets_live_trans:
  assumes "tickets_live u v" "tickets_live v w"
  shows "tickets_live u w"
  unfolding tickets_live_def
proof (intro conjI ballI)
  show "set (of_tickets u) \<subseteq> set (of_tickets w)" using assms by (auto simp: tickets_live_def)
  fix r''
  assume "r'' \<in> set (tickets (odb w))"
  with assms(2) consider r' where "r' \<in> set (tickets (odb v))" "ticket_edge\<^sup>*\<^sup>* r' r''"
    | "ticket_key r'' \<notin> set (of_tickets v)"
    by (auto simp: tickets_live_def)
  then show "(\<exists>r\<in>set (tickets (odb u)). ticket_edge\<^sup>*\<^sup>* r r'') \<or> ticket_key r'' \<notin> set (of_tickets u)"
  proof cases
    case 1
    with assms(1) have "(\<exists>r\<in>set (tickets (odb u)). ticket_edge\<^sup>*\<^sup>* r r') \<or> ticket_key r' \<notin> set (of_tickets u)"
      by (auto simp: tickets_live_def)
    with 1(2) ticket_edges_key [OF 1(2)] show ?thesis by (metis rtranclp_trans)
  qed (use assms in \<open>auto simp: tickets_live_def\<close>)
qed

definition tickets_ok_step :: "office \<Rightarrow> office \<Rightarrow> bool" where
  "tickets_ok_step w w' \<longleftrightarrow> (tickets_kept w \<longrightarrow> tickets_kept w') \<and> tickets_live w w'"

lemma tickets_fewer:
  assumes "set (tickets (odb w')) \<subseteq> set (tickets (odb w))" and "of_tickets w' = of_tickets w"
  shows "tickets_ok_step w w'"
  using assms unfolding tickets_ok_step_def tickets_kept_def tickets_live_def
  by (metis rtranclp.rtrancl_refl subset_iff)

lemma tickets_in_db:
  "wp m (\<lambda>_ db. set (tickets db) \<subseteq> set (tickets (odb w))) (\<lambda>_ db. set (tickets db) \<subseteq> set (tickets (odb w))) (odb w)
   \<Longrightarrow> tickets_ok_step w (in_db m w)"
  by (rule tickets_fewer) (simp_all add: in_db_eq wp_snd)

lemma tickets_same_ops:
  "wp (pg_delete_ticket cl gen org t actor everything) (\<lambda>_ d. set (tickets d) \<subseteq> set (tickets db)) (\<lambda>_ d. set (tickets d) \<subseteq> set (tickets db)) db"
  "wp (pg_add_comment cl org i t user internal content owner_only) (\<lambda>_ d. set (tickets d) \<subseteq> set (tickets db)) (\<lambda>_ d. set (tickets d) \<subseteq> set (tickets db)) db"
  "wp (pg_delete_attachment cl gen org t i actor owner_only p) (\<lambda>_ d. set (tickets d) \<subseteq> set (tickets db)) (\<lambda>_ d. set (tickets d) \<subseteq> set (tickets db)) db"
  "wp (pg_claim_deletions org locked n) (\<lambda>_ d. set (tickets d) \<subseteq> set (tickets db)) (\<lambda>_ d. set (tickets d) \<subseteq> set (tickets db)) db"
  unfolding pg_delete_ticket_def pg_add_comment_def pg_delete_attachment_def pg_claim_deletions_def
  by (auto simp: Let_def wp_if split: option.splits intro!: wp_queue_deletions wp_audit_call)

lemma tickets_created:
  "tickets (snd (pg_create_ticket cl org i creator number q db)) = tickets db
   \<or> (\<exists>t. tickets (snd (pg_create_ticket cl org i creator number q db)) = tickets db @ [t]
        \<and> ticket_key t = (org, i) \<and> tk_status t = NEW)"
proof -
  have "wp (pg_create_ticket cl org i creator number q)
    (\<lambda>_ d. tickets d = tickets db \<or> (\<exists>t. tickets d = tickets db @ [t] \<and> ticket_key t = (org, i) \<and> tk_status t = NEW))
    (\<lambda>_ d. tickets d = tickets db \<or> (\<exists>t. tickets d = tickets db @ [t] \<and> ticket_key t = (org, i) \<and> tk_status t = NEW)) db"
    unfolding pg_create_ticket_def by (auto simp: Let_def wp_if ticket_key_def intro!: wp_audit_call)
  then show ?thesis by (simp add: wp_snd)
qed

lemma tickets_moved:
  "tickets (snd (pg_transition_ticket cl org t actor expected target assigned resolved db)) = tickets db
   \<or> tickets (snd (pg_transition_ticket cl org t actor expected target assigned resolved db))
       = update_where (\<lambda>r. ticket_key r = (org, t) \<and> tk_status r = expected)
           (moved_ticket (cl_now cl) target assigned resolved) (tickets db)"
proof -
  have "wp (pg_transition_ticket cl org t actor expected target assigned resolved)
    (\<lambda>_ d. tickets d = tickets db \<or> tickets d = update_where (\<lambda>r. ticket_key r = (org, t) \<and> tk_status r = expected)
           (moved_ticket (cl_now cl) target assigned resolved) (tickets db))
    (\<lambda>_ d. tickets d = tickets db \<or> tickets d = update_where (\<lambda>r. ticket_key r = (org, t) \<and> tk_status r = expected)
           (moved_ticket (cl_now cl) target assigned resolved) (tickets db)) db"
    unfolding pg_transition_ticket_def by (auto simp: Let_def wp_if intro!: wp_audit_call)
  then show ?thesis by (simp add: wp_snd)
qed

lemma transition_tickets:
  assumes d_def: "d = snd (transition_ticket cl org t actor expected target assigned clock (of_desk w))"
  shows "tickets_ok_step w (w\<lparr>of_desk := d\<rparr>)"
proof (cases "tickets (dk_db d) = tickets (odb w)")
  case True
  then show ?thesis by (intro tickets_fewer) simp_all
next
  case False
  let ?P = "\<lambda>r. ticket_key r = (org, t) \<and> tk_status r = expected"
  let ?f = "moved_ticket (cl_now cl) target assigned (if target = RESOLVED then Some clock else None)"
  from False have legal: "target \<in> TICKET_TRANSITIONS expected" "target = ASSIGNED \<longrightarrow> assigned \<noteq> None"
    and moved: "tickets (dk_db d) = update_where ?P ?f (tickets (odb w))"
    using tickets_moved [of cl org t actor expected target assigned "if target = RESOLVED then Some clock else None" "odb w"]
    by (auto simp: d_def transition_ticket_def raise_def on_db_def split: prod.splits if_splits)
  have edge: "ticket_edge r (?f r)" if "?P r" for r
    using that legal unfolding ticket_edge_def by blast
  have new: "\<exists>r\<in>set (tickets (odb w)). ticket_edge\<^sup>*\<^sup>* r r'" if "r' \<in> set (tickets (dk_db d))" for r'
    using that edge unfolding moved set_update_where by (auto intro: rtranclp.rtrancl_refl r_into_rtranclp)
  have "tickets_live w (w\<lparr>of_desk := d\<rparr>)"
    using new by (simp add: tickets_live_def)
  moreover have "tickets_kept (w\<lparr>of_desk := d\<rparr>)" if "tickets_kept w"
    unfolding tickets_kept_def
  proof
    fix r'
    assume "r' \<in> set (tickets (odb (w\<lparr>of_desk := d\<rparr>)))"
    then obtain r where "r \<in> set (tickets (odb w))" "r' = r \<or> ticket_edge r r'"
      using edge by (auto simp: moved set_update_where)
    with that show "staffed r' \<and> ticket_key r' \<in> set (of_tickets (w\<lparr>of_desk := d\<rparr>))"
      by (auto simp: tickets_kept_def ticket_edge_staffed ticket_edge_key)
  qed
  ultimately show ?thesis by (simp add: tickets_ok_step_def)
qed

lemma step_tickets:
  assumes "office_step env w w'"
  shows "tickets_ok_step w w'"
  using assms
proof cases
  case (office_store name content f md u org t fl p d)
  have "d = (of_desk w)\<lparr>dk_files := dk_files d\<rparr>"
    using office_store(5) by (auto simp: storage_store_def Let_def eff_defs split: option.splits if_splits)
  then have "dk_db d = odb w" by (metis desk.ext_inject desk.surjective desk.update_convs(2))
  then show ?thesis by (intro tickets_fewer) (simp_all add: office_store(1))
next
  case (office_finish us u vs fl cl i actor owner_only r d)
  have "tickets (dk_db d) = tickets (odb w)"
    using office_finish(3)
    by (auto simp: finish_upload_def catchE_def on_db_def bindE_def raise_def storage_delete_def writes_def
        pg_create_attachment_run pg_create_attachment_def dest!: txn_InlD split: prod.splits sum.splits if_splits option.splits)
  then show ?thesis by (intro tickets_fewer) (simp_all add: office_finish(1))
next
  case (office_unlink p fl)
  have "dk_db (snd (storage_delete env fl p (of_desk w))) = odb w"
    by (auto simp: storage_delete_def eff_defs split: option.splits)
  then show ?thesis by (intro tickets_fewer) (simp_all add: office_unlink(1))
next
  case (office_item b fl now org msg)
  have "tickets (dk_db (snd (process_item env fl now org msg b (of_desk w)))) = tickets (odb w)"
    by (auto simp: process_item_def storage_delete_def eff_defs on_db_def pg_mark_completed_def pg_mark_failed_def
        set_outbox_def split: option.splits prod.splits sum.splits)
  then show ?thesis by (intro tickets_fewer) (simp_all add: office_item(1))
next
  case (office_ticket org i cl creator number q)
  let ?d = "snd (pg_create_ticket cl org i creator number q (odb w))"
  have created: "tickets ?d = tickets (odb w) \<or> (\<exists>t. tickets ?d = tickets (odb w) @ [t]
      \<and> ticket_key t = (org, i) \<and> tk_status t = NEW)"
    by (rule tickets_created)
  have w': "tickets (odb w') = tickets ?d" "of_tickets w' = (org, i) # of_tickets w"
    by (simp_all add: office_ticket(1) in_db_eq)
  show ?thesis
    using created office_ticket(2) unfolding tickets_ok_step_def tickets_kept_def tickets_live_def w'
    by (elim disjE exE conjE) (auto simp: staffed_def)
next
  case (office_transition cl org t actor expected target assigned clock)
  show ?thesis unfolding office_transition(1) by (rule transition_tickets [OF refl])
next
  case (office_other db)
  then show ?thesis by (intro tickets_fewer) (simp_all add: same_desk_def)
qed (auto intro: tickets_fewer tickets_in_db [OF tickets_same_ops(1)] tickets_in_db [OF tickets_same_ops(2)]
  tickets_in_db [OF tickets_same_ops(3)] tickets_in_db [OF tickets_same_ops(4)])

lemma reach_tickets: "(office_step env)\<^sup>*\<^sup>* w w' \<Longrightarrow> tickets_ok_step w w'"
proof (induction rule: rtranclp_induct)
  case base
  show ?case by (rule tickets_fewer) simp_all
next
  case (step v u)
  then show ?case using step_tickets [OF step.hyps(2)] by (auto simp: tickets_ok_step_def intro: tickets_live_trans)
qed

text \<open>
  Property C32. Over any run of the help desk a ticket moves only along the transitions: if a ticket
  is still there, its later state is reached from the earlier one by allowed changes of state, so a
  closed ticket is never changed again; every ticket past NEW has an assignee, who is a member of its
  organisation; and exactly the resolved and closed ones have a time of resolution.
\<close>

theorem ticket_lifecycle:
  assumes "office_ok env w" and "tickets_kept w" and "(office_step env)\<^sup>*\<^sup>* w w'"
  shows "(\<forall>r\<in>set (tickets (odb w)). \<forall>r'\<in>set (tickets (odb w')). ticket_key r' = ticket_key r \<longrightarrow>
      ticket_edge\<^sup>*\<^sup>* r r' \<and> (tk_status r = CLOSED \<longrightarrow> r' = r))
    \<and> (\<forall>r'\<in>set (tickets (odb w')). (tk_status r' \<noteq> NEW \<longrightarrow> (\<exists>u. tk_assignee r' = Some u
         \<and> (tk_org r', u) \<in> set (known_members (odb w'))))
        \<and> (tk_status r' \<in> {RESOLVED, CLOSED} \<longleftrightarrow> tk_resolved r' \<noteq> None))"
proof (intro conjI ballI impI)
  have steps: "tickets_kept w'" "tickets_live w w'"
    using reach_tickets [OF assms(3)] assms(2) by (simp_all add: tickets_ok_step_def)
  have ok: "store_ok (odb w)" "store_ok (odb w')"
    using assms(1) reach_ok [OF assms(3,1)] by (simp_all add: office_okD)
  show edges: "ticket_edge\<^sup>*\<^sup>* r r'"
    if "r \<in> set (tickets (odb w))" "r' \<in> set (tickets (odb w'))" "ticket_key r' = ticket_key r" for r r'
  proof -
    have "ticket_key r' \<in> set (of_tickets w)"
      using assms(2) that by (simp add: tickets_kept_def)
    with steps(2) that obtain r0 where r0: "r0 \<in> set (tickets (odb w))" "ticket_edge\<^sup>*\<^sup>* r0 r'"
      by (auto simp: tickets_live_def)
    with that ok(1) ticket_edges_key [OF r0(2)] have "r0 = r"
      by (auto simp: store_ok_def dest: unique_by_eqD)
    with r0 show ?thesis by simp
  qed
  show "r' = r"
    if "r \<in> set (tickets (odb w))" "r' \<in> set (tickets (odb w'))" "ticket_key r' = ticket_key r" "tk_status r = CLOSED" for r r'
    using closed_final [OF edges] that by blast
  fix r'
  assume r': "r' \<in> set (tickets (odb w'))"
  then have checks: "ticket_checks (odb w') r'" using ok(2) by (simp add: store_ok_def list_all_iff)
  show "tk_status r' \<in> {RESOLVED, CLOSED} \<longleftrightarrow> tk_resolved r' \<noteq> None"
    using checks by (simp add: ticket_checks_def)
  assume "tk_status r' \<noteq> NEW"
  with steps(1) r' obtain u where "tk_assignee r' = Some u"
    by (auto simp: tickets_kept_def staffed_def)
  with checks show "\<exists>u. tk_assignee r' = Some u \<and> (tk_org r', u) \<in> set (known_members (odb w'))"
    by (simp add: ticket_checks_def)
qed

text \<open>When an audit row can be written.\<close>

definition audit_accepts :: "call \<Rightarrow> uuid \<Rightarrow> support_db \<Rightarrow> bool" where
  "audit_accepts cl org db \<longleftrightarrow> (\<forall>ip\<in>set_option (tr_ip (cl_trace cl)). cl_inet cl ip)
     \<and> (\<forall>a\<in>set_option (tr_agent (cl_trace cl)). length a \<le> 255)
     \<and> (\<forall>r\<in>set (trail db). (tl_org r, tl_id r, tl_created r) \<noteq> (org, cl_audit cl, cl_now cl))"

lemma audit_call_run:
  "audit_accepts cl org db \<Longrightarrow> audit_call cl org actor ty action rt r ds db
    = (Inr (), db\<lparr>trail := trail db @ [\<lparr>tl_id = cl_audit cl, tl_org = org, tl_actor = actor,
       tl_actor_type = ty, tl_trace = cl_trace cl, tl_action = action,
       tl_resource_type = rt, tl_resource = r, tl_details = ds, tl_created = cl_now cl\<rparr>]\<rparr>)"
  by (auto simp: audit_call_def append_trail_def audit_accepts_def bindE_def reads_def writes_def list_ex_iff)

lemma moved_ticket_checks:
  assumes "ticket_checks db r" and "target \<in> TICKET_TRANSITIONS (tk_status r)"
    and "\<forall>u\<in>set_option assigned. (tk_org r, u) \<in> set (known_members db)"
  shows "ticket_checks db (moved_ticket now target assigned (if target = RESOLVED then Some clock else None) r)"
  using assms by (cases "tk_status r") (auto simp: ticket_checks_def moved_ticket_def)

lemma transition_refused:
  assumes "\<forall>x\<in>set (tickets db). ticket_key x = (org, t) \<longrightarrow> tk_status x \<noteq> expected"
  shows "pg_transition_ticket cl org t actor expected target assigned resolved db = (Inl SupportConflict, db)"
proof -
  let ?P = "\<lambda>x. ticket_key x = (org, t) \<and> tk_status x = expected"
  have "rowcount ?P (tickets db) = 0" and "\<not> list_ex (\<lambda>x. ?P x \<and> Q x) (tickets db)" for Q
    using assms by (auto simp: rowcount_def filter_empty_conv list_ex_iff)
  then show ?thesis
    by (simp add: pg_transition_ticket_def txn_def txn_by_def bindE_def reads_def raise_def Let_def)
qed

lemma pg_transition_runs:
  fixes cl target assigned clock
  defines "f \<equiv> moved_ticket (cl_now cl) target assigned (if target = RESOLVED then Some clock else None)"
  assumes "store_ok db" and "r \<in> set (tickets db)" and "ticket_key r = (org, t)"
    and "target \<in> TICKET_TRANSITIONS (tk_status r)"
    and "\<forall>u\<in>set_option assigned. (org, u) \<in> set (known_members db)"
    and "audit_accepts cl org db"
  obtains tr where "pg_transition_ticket cl org t actor (tk_status r) target assigned
      (if target = RESOLVED then Some clock else None) db
    = (Inr (), db\<lparr>tickets := map (\<lambda>x. if x = r then f r else x) (tickets db), trail := tr\<rparr>)"
proof -
  let ?P = "\<lambda>x. ticket_key x = (org, t) \<and> tk_status x = tk_status r"
  note tables = assms(2) [unfolded store_ok_def]
  have only: "x = r" if "x \<in> set (tickets db)" "ticket_key x = (org, t)" for x
    using tables assms(3,4) that by (auto dest: unique_by_eqD)
  have org: "tk_org r = org" using assms(4) by (simp add: ticket_key_def)
  have "ticket_checks db (f r)"
    using tables assms(3,5,6) org unfolding f_def by (intro moved_ticket_checks) (auto simp: list_all_iff)
  then have checks: "\<not> list_ex (\<lambda>x. ?P x \<and> \<not> ticket_checks db (f x)) (tickets db)"
    using only by (auto simp: list_ex_iff)
  have iff: "?P x \<longleftrightarrow> x = r" if "x \<in> set (tickets db)" for x
    using only [OF that] assms(4) by blast
  have "rowcount ?P (tickets db) = rowcount (\<lambda>x. ticket_key x = ticket_key r) (tickets db)"
  proof (rule rowcount_cong)
    fix x
    assume x: "x \<in> set (tickets db)"
    show "?P x = (ticket_key x = ticket_key r)"
      unfolding iff [OF x] using only [OF x] assms(4) by metis
  qed
  then have count: "rowcount ?P (tickets db) = 1"
    using rowcount_key [of ticket_key "tickets db" r, OF _ assms(3)] tables
    by (metis unique_by_def)
  have update: "update_where ?P f (tickets db) = map (\<lambda>x. if x = r then f r else x) (tickets db)"
  proof (unfold update_where_def, rule map_cong [OF refl])
    fix x
    assume x: "x \<in> set (tickets db)"
    show "(if ?P x then f x else x) = (if x = r then f r else x)"
      unfolding iff [OF x] by (rule if_cong) simp_all
  qed
  have "\<exists>tr. pg_transition_ticket cl org t actor (tk_status r) target assigned
      (if target = RESOLVED then Some clock else None) db
    = (Inr (), db\<lparr>tickets := update_where ?P f (tickets db), trail := tr\<rparr>)"
    using assms(7) checks count
    by (simp add: pg_transition_ticket_def txn_def txn_by_def bindE_def reads_def writes_def Let_def f_def
      audit_call_run audit_accepts_def) auto
  with that update show thesis by auto
qed

lemma legal_transition:
  assumes "store_ok (dk_db d)" and "r \<in> set (tickets (dk_db d))" and "ticket_key r = (org, t)"
    and "target \<in> TICKET_TRANSITIONS expected" and "(assigned \<noteq> None) = (target = ASSIGNED)"
    and "\<forall>u\<in>set_option assigned. (org, u) \<in> set (known_members (dk_db d))"
    and "audit_accepts cl org (dk_db d)"
  shows "let (result, d') = transition_ticket cl org t actor expected target assigned clock d;
      new = moved_ticket (cl_now cl) target assigned (if target = RESOLVED then Some clock else None) in
    if tk_status r = expected
    then result = Inr () \<and> tickets (dk_db d') = map (\<lambda>x. if x = r then new r else x) (tickets (dk_db d))
      \<and> dk_files d' = dk_files d
      \<and> fst (transition_ticket cl' org t actor' expected target assigned clock' d') = Inl SupportConflict
    else result = Inl SupportConflict \<and> d' = d"
proof -
  let ?P = "\<lambda>x. ticket_key x = (org, t) \<and> tk_status x = expected"
  let ?f = "moved_ticket (cl_now cl) target assigned (if target = RESOLVED then Some clock else None)"
  note tables = assms(1) [unfolded store_ok_def]
  have only: "x = r" if "x \<in> set (tickets (dk_db d))" "ticket_key x = (org, t)" for x
    using tables assms(2,3) that by (auto dest: unique_by_eqD)
  have org: "tk_org r = org" using assms(3) by (simp add: ticket_key_def)
  have legal: "\<not> (target \<notin> TICKET_TRANSITIONS expected)" "\<not> (target = ASSIGNED \<and> assigned = None)"
    "\<not> (target \<noteq> ASSIGNED \<and> assigned \<noteq> None)" "target \<noteq> expected"
    using assms(4,5) by (auto, cases expected) auto
  have start: "transition_ticket c org t a expected target assigned k
      = on_db (pg_transition_ticket c org t a expected target assigned (if target = RESOLVED then Some k else None))"
    for c a k
    unfolding transition_ticket_def using legal by (simp only: if_False)
  show ?thesis
  proof (cases "tk_status r = expected")
    case True
    obtain tr where run: "pg_transition_ticket cl org t actor expected target assigned
        (if target = RESOLVED then Some clock else None) (dk_db d)
      = (Inr (), (dk_db d)\<lparr>tickets := map (\<lambda>x. if x = r then ?f r else x) (tickets (dk_db d)), trail := tr\<rparr>)"
      using pg_transition_runs [OF assms(1,2,3) _ assms(6,7), of target actor clock] assms(4) unfolding True by metis
    have gone: "tk_status (?f r) \<noteq> expected" using legal(4) by simp
    have again: "pg_transition_ticket cl' org t actor' expected target assigned resolved
        ((dk_db d)\<lparr>tickets := map (\<lambda>x. if x = r then ?f r else x) (tickets (dk_db d)), trail := tr\<rparr>)
      = (Inl SupportConflict, (dk_db d)\<lparr>tickets := map (\<lambda>x. if x = r then ?f r else x) (tickets (dk_db d)), trail := tr\<rparr>)"
      for resolved
    proof (rule transition_refused, intro ballI impI)
      fix x
      assume "x \<in> set (tickets ((dk_db d)\<lparr>tickets := map (\<lambda>x. if x = r then ?f r else x) (tickets (dk_db d)), trail := tr\<rparr>))"
        and key: "ticket_key x = (org, t)"
      then obtain y where y: "y \<in> set (tickets (dk_db d))" "x = (if y = r then ?f r else y)" by auto
      show "tk_status x \<noteq> expected"
      proof (cases "y = r")
        case False
        with only [OF y(1)] y(2) key show ?thesis by simp
      qed (use gone y(2) in simp)
    qed
    have sel: "dk_db (d\<lparr>dk_db := x\<rparr>) = x" "dk_files (d\<lparr>dk_db := x\<rparr>) = dk_files d" for x by simp_all
    have kept: "tickets ((dk_db d)\<lparr>tickets := ts, trail := tr\<rparr>) = ts" for ts by simp
    show ?thesis
      unfolding start using True
      by (simp only: on_db_def run again sel Let_def prod.case if_True) (simp only: fst_conv simp_thms kept if_True)
  next
    case False
    then have "pg_transition_ticket cl org t actor expected target assigned
        (if target = RESOLVED then Some clock else None) (dk_db d) = (Inl SupportConflict, dk_db d)"
      using only by (intro transition_refused) blast
    with False show ?thesis unfolding start by (simp add: on_db_def Let_def)
  qed
qed

text \<open>
  Property C33. A change of state succeeds exactly if the table of transitions allows it from the state
  the caller expects, an assignee is named if and only if the target is ASSIGNED, and the ticket is
  still in the expected state; then it changes that ticket alone. Otherwise it is a conflict that
  changes nothing. So of two callers who start from the same state only the first succeeds. This is for
  an assignee who is a member of the organisation, and a call whose audit row is accepted; no other
  constraint of the tables can refuse it.
\<close>

theorem transition_exact:
  assumes "store_ok (dk_db d)" and "r \<in> set (tickets (dk_db d))" and "ticket_key r = (org, t)"
    and "\<forall>u\<in>set_option assigned. (org, u) \<in> set (known_members (dk_db d))"
    and "audit_accepts cl org (dk_db d)"
  shows "let (result, d') = transition_ticket cl org t actor expected target assigned clock d;
      new = moved_ticket (cl_now cl) target assigned (if target = RESOLVED then Some clock else None) in
    if target \<in> TICKET_TRANSITIONS expected \<and> (assigned \<noteq> None) = (target = ASSIGNED) \<and> tk_status r = expected
    then result = Inr () \<and> tickets (dk_db d') = map (\<lambda>x. if x = r then new r else x) (tickets (dk_db d))
      \<and> dk_files d' = dk_files d
      \<and> fst (transition_ticket cl' org t actor' expected target assigned clock' d') = Inl SupportConflict
    else result = Inl SupportConflict \<and> d' = d"
proof (cases "target \<in> TICKET_TRANSITIONS expected \<and> (assigned \<noteq> None) = (target = ASSIGNED)")
  case True
  then have "target \<in> TICKET_TRANSITIONS expected" "(assigned \<noteq> None) = (target = ASSIGNED)" by simp_all
  from legal_transition [OF assms(1-3) this assms(4,5), of actor clock cl' actor' clock'] True
  show ?thesis by simp
next
  case False
  then have "transition_ticket cl org t actor expected target assigned clock d = (Inl SupportConflict, d)"
    by (auto simp: transition_ticket_def raise_def)
  with False show ?thesis by (auto simp: Let_def)
qed

text \<open>
  Property C34. Whatever text stands in a row as the path of an attachment, the storage touches no file
  outside its root: storing and deleting change none, and reading returns what a file under the root
  holds.
\<close>

theorem storage_confined:
  assumes "\<not> prefix (st_root env) q"
  shows "dk_files (snd (storage_store env fl org t md content d)) q = dk_files d q
    \<and> dk_files (snd (storage_delete env fl p d)) q = dk_files d q
    \<and> fst (storage_read env fl p (d\<lparr>dk_files := (dk_files d)(q := c)\<rparr>)) = fst (storage_read env fl p d)"
proof -
  have other: "target \<noteq> q" if "confined env p = Some target" for p target
    using assms confined_in_root [OF that] by blast
  have "dk_files (snd (storage_store env fl org t md content d)) q = dk_files d q"
    using other [of "attachment_path org t (md_stored md)"]
    by (auto simp: storage_store_def Let_def eff_defs split: option.split)
  moreover have "dk_files (snd (storage_delete env fl p d)) q = dk_files d q"
    using other [of p] by (auto simp: storage_delete_def eff_defs split: option.split)
  moreover have "fst (storage_read env fl p (d\<lparr>dk_files := (dk_files d)(q := c)\<rparr>)) = fst (storage_read env fl p d)"
    using other [of p] by (auto simp: storage_read_def eff_defs split: option.split)
  ultimately show ?thesis by blast
qed

text \<open>A deletion that meets no failure.\<close>

lemma process_item_fine:
  assumes "proper_path (ob_path b)" "\<not> fl_unlink fl (ob_path b)" "\<not> fl_complete fl"
  shows "process_item env fl now org msg b d = (Inr True, d\<lparr>dk_db := snd (pg_mark_completed now org (ob_id b) (dk_db d)),
    dk_files := (dk_files d)(file_of env (ob_path b) := None)\<rparr>)"
  using assms(2,3) by (simp add: process_item_run [OF assms(1)] Let_def on_db_def split: prod.splits)

definition deletion_done :: "desk_env \<Rightarrow> outbox_row \<Rightarrow> desk \<Rightarrow> bool" where
  "deletion_done env b d \<longleftrightarrow> dk_files d (file_of env (ob_path b)) = None
     \<and> (\<forall>x\<in>set (outbox (dk_db d)). ob_org x = ob_org b \<and> ob_id x = ob_id b \<longrightarrow> ob_status x = OB_COMPLETED)"

lemma process_items_fine:
  assumes "distinct bs" and "\<And>b. b \<in> set bs \<Longrightarrow> proper_path (ob_path b) \<and> ob_org b = org"
    and "\<And>i p. \<not> fl_unlink (fl i) p" "\<And>i. \<not> fl_complete (fl i)"
  shows "wp (mapE (\<lambda>b. process_item env (fl (ob_id b)) now org msg b) bs)
    (\<lambda>_ d. True \<and> (\<forall>b\<in>set bs. deletion_done env b d)) (\<lambda>_ _. False) d"
proof (rule wp_mapE)
  have item: "wp (process_item env (fl (ob_id x)) now org msg x) (\<lambda>_. Q) E s
      = Q (s\<lparr>dk_db := snd (pg_mark_completed now org (ob_id x) (dk_db s)),
           dk_files := (dk_files s)(file_of env (ob_path x) := None)\<rparr>)" if "x \<in> set bs" for x Q E s
    using process_item_fine assms(2) [OF that] assms(3,4) by (simp add: wp_def)
  show "wp (process_item env (fl (ob_id x)) now org msg x) (\<lambda>_ s. True \<and> deletion_done env x s) (\<lambda>_ _. False) s"
    if "x \<in> set bs" for x s
    using assms(2) [OF that]
    by (auto simp: item [OF that] deletion_done_def pg_mark_completed_def set_outbox_def writes_def set_update_where)
  show "wp (process_item env (fl (ob_id x)) now org msg x) (\<lambda>_. deletion_done env y) (\<lambda>_ _. False) s"
    if "x \<in> set bs" "deletion_done env y s" for x y s
    using that(2)
    by (auto simp: item [OF that(1)] deletion_done_def pg_mark_completed_def set_outbox_def writes_def set_update_where)
qed (use assms in auto)

text \<open>
  The outbox drains: if the storage and the database work, one run of the deletion worker
  over an organisation with room for its rows ends, removes the file of every deletion that is pending
  or may be tried again, and marks it completed.
\<close>

theorem outbox_drains:
  assumes ok: "office_ok env w" and "st_enabled env"
    and fine: "\<And>i p. \<not> fl_unlink (fl i) p" "\<And>i. \<not> fl_complete (fl i)"
    and room: "length (own_outbox org (odb w)) \<le> n"
  shows "\<exists>k d. process_pending_deletions env fl now org msg (\<lambda>_. False) n (of_desk w) = (Inr k, d)
    \<and> (\<forall>b\<in>set (outbox (odb w)). ob_org b = org \<and> ob_status b \<in> {OB_PENDING, OB_FAILED} \<and> ob_attempts b < ob_max b
        \<longrightarrow> deletion_done env b d)"
proof -
  let ?ids = "claimable org (\<lambda>_. False) n (odb w)"
  let ?claim = "pg_claim_deletions org (\<lambda>_. False) n"
  let ?rows = "update_where (\<lambda>b. ob_org b = org \<and> ob_id b \<in> set ?ids) (\<lambda>b. b\<lparr>ob_status := OB_PROCESSING\<rparr>) (outbox (odb w))"
  define bs where "bs = select_where (\<lambda>b. ob_id b \<in> set ?ids) (select_where (\<lambda>b. ob_org b = org) ?rows)"
  define d1 where "d1 = (of_desk w)\<lparr>dk_db := (odb w)\<lparr>outbox := ?rows\<rparr>\<rparr>"
  have claim: "on_db ?claim (of_desk w) = (Inr bs, d1)"
    by (simp add: on_db_def pg_claim_deletions_def bindE_def reads_def writes_def own_outbox_def bs_def d1_def)
  have claimed: "wp (on_db ?claim) Q E (of_desk w) = Q bs d1" for Q :: "outbox_row list \<Rightarrow> desk \<Rightarrow> bool" and E
    by (simp add: wp_def claim)
  have "unique_by ob_id (outbox (odb w))" using office_okD(1) [OF ok] by (simp add: store_ok_def)
  then have "unique_by ob_id ?rows" by (simp add: unique_by_update)
  then have "distinct ?rows" by (simp add: unique_by_def distinct_map)
  then have distinct: "distinct bs" by (simp add: bs_def select_where_def)
  have in_bs: "proper_path (ob_path b) \<and> ob_org b = org" if "b \<in> set bs" for b
  proof -
    have b: "b \<in> set ?rows" "ob_org b = org" using that by (simp_all add: bs_def)
    have "ob_path ` set ?rows = ob_path ` set (outbox (odb w))" by (rule image_update_where) simp
    with imageI [OF b(1), of ob_path] have "proper_path (ob_path b)"
      by (intro proper_outbox [OF ok]) (simp only:)
    with b(2) show ?thesis by simp
  qed
  have "wp (process_pending_deletions env fl now org msg (\<lambda>_. False) n)
      (\<lambda>_ d. \<forall>b\<in>set bs. deletion_done env b d) (\<lambda>_ _. False) (of_desk w)"
    unfolding process_pending_deletions_def wp_bindE claimed wp_bindE_fun wp_ret_fun
    using process_items_fine [OF distinct in_bs fine, where env = env and now = now and msg = msg and d = d1] assms(2) claimed
    by (simp add: wp_ret_fun wp_bindE_fun)
  then obtain k d where run: "process_pending_deletions env fl now org msg (\<lambda>_. False) n (of_desk w) = (Inr k, d)"
    and finished: "\<forall>b\<in>set bs. deletion_done env b d"
    by (auto dest: wp_total)
  have "deletion_done env b d" if "b \<in> set (outbox (odb w))" "ob_org b = org"
    "ob_status b \<in> {OB_PENDING, OB_FAILED}" "ob_attempts b < ob_max b" for b
  proof -
    have few: "length (select_where P (own_outbox org (odb w))) \<le> n" for P
      using room by (simp add: select_where_def le_trans [OF length_filter_le])
    have "ob_id b \<in> set ?ids"
      using that few by (auto simp: claimable_def order_by_def own_outbox_def)
    then have "b\<lparr>ob_status := OB_PROCESSING\<rparr> \<in> set bs"
      using that by (auto simp: bs_def set_update_where)
    with finished have "deletion_done env (b\<lparr>ob_status := OB_PROCESSING\<rparr>) d" by blast
    then show ?thesis by (simp add: deletion_done_def)
  qed
  with run show ?thesis by blast
qed

text \<open>The text of a UUID of version 4 is what the table asks of a generated name.\<close>

lemma bit_nibble: "bit (nibble w k) j \<longleftrightarrow> j < 4 \<and> bit w (4 * k + j)"
  by (auto simp: nibble_def bit_unsigned_iff bit_take_bit_iff bit_drop_bit_eq dest: bit_imp_le_length)

lemma nth_hex_range: "i < hi - lo \<Longrightarrow> hex_range w hi lo ! i = hex_digit (nibble w (hi - Suc i))"
  by (simp add: hex_range_def rev_nth)

lemma hex_digits [simp]: "hex_digit 4 = CHR ''4''" "hex_digit 8 = CHR ''8''" "hex_digit 9 = CHR ''9''"
  "hex_digit 10 = CHR ''a''" "hex_digit 11 = CHR ''b''"
  by code_simp+

lemma variant_nibble:
  assumes "bit w 63" "\<not> bit w 62" shows "hex_digit (nibble w 15) \<in> set ''89ab''"
proof -
  have bits: "bit (nibble w 15) 3" "\<not> bit (nibble w 15) 2" using assms by (simp_all add: bit_nibble)
  have "n = 8 \<or> n = 9 \<or> n = 10 \<or> n = 11" if "n < 16" "bit n 3" "\<not> bit n 2" for n :: nat
  proof -
    have "n \<in> set [0..<16]" using that(1) by simp
    then show ?thesis using that(2,3) by (auto simp: upt_rec bit_iff_odd)
  qed
  from this [OF nibble_lt bits] show ?thesis by auto
qed

lemma nth_uuid_str:
  "i < 36 \<Longrightarrow> if i \<in> {8, 13, 18, 23} then uuid_str w ! i = CHR ''-'' else lower_hex (uuid_str w ! i)"
  by (auto simp: uuid_str_def nth_append nth_hex_range nth_Cons' hex_char nibble_lt)

lemma generated_uuid:
  assumes "uuid_version f = Some 4" and "e \<in> EXTENSIONS"
  shows "generated_name (uuid_str f @ e)"
proof -
  have v: "bit f 63" "\<not> bit f 62" "nibble f 19 = 4"
    using assms(1) by (auto simp: uuid_version_def split: if_splits)
  have "uuid_str f ! 14 = CHR ''4''" "uuid_str f ! 19 \<in> set ''89ab''"
    using v variant_nibble [OF v(1,2)] by (simp_all add: uuid_str_def nth_append nth_hex_range)
  moreover have "list_all (\<lambda>i. if i \<in> {8, 13, 18, 23} then (uuid_str f @ e) ! i = CHR ''-''
      else lower_hex ((uuid_str f @ e) ! i)) [0..<36]"
    unfolding list_all_iff
  proof
    fix i
    assume "i \<in> set [0..<36]"
    then have i: "i < 36" by simp
    show "if i \<in> {8, 13, 18, 23} then (uuid_str f @ e) ! i = CHR ''-'' else lower_hex ((uuid_str f @ e) ! i)"
      using nth_uuid_str [OF i, of f] i by (simp add: nth_append)
  qed
  moreover have "drop 36 (uuid_str f @ e) \<in> {''.png'', ''.jpg'', ''.pdf''}"
    using assms(2) by (simp add: EXTENSIONS_def)
  ultimately show ?thesis
    unfolding generated_name_def by (simp only: nth_append length_uuid_str length_append) simp
qed

section \<open>Concrete runs\<close>

definition demo_trace :: trace where
  "demo_trace = \<lparr>tr_ip = Some ''10.0.0.1'', tr_agent = None\<rparr>"

definition demo_call :: call where
  "demo_call = \<lparr>cl_now = 1000, cl_audit = 77, cl_trace = demo_trace, cl_inet = (\<lambda>_. True)\<rparr>"

definition demo_storage :: desk_env where
  "demo_storage = \<lparr>st_root = [''srv'', ''attachments''], st_enabled = True\<rparr>"

definition no_faults :: faults where
  "no_faults = \<lparr>fl_store = False, fl_read = False, fl_unlink = (\<lambda>_. False), fl_insert = False,
     fl_complete = False, fl_fail = False\<rparr>"

definition demo_id :: uuid where
  "demo_id = 0x40008000000000000003"

definition demo_ticket :: ticket_row where
  "demo_ticket = \<lparr>tk_org = 10, tk_id = demo_id, tk_device = None, tk_alert = None, tk_creator = 1,
     tk_assignee = None, tk_number = ''NEX-1'', tk_title = ''No network'', tk_description = ''Cable?'',
     tk_status = NEW, tk_priority = LOW, tk_resolved = None, tk_created = 0, tk_updated = 0\<rparr>"

definition demo_content :: bytes where
  "demo_content = [0x89, 0x50, 0x4E, 0x47, 0x0D, 0x0A, 0x1A, 0x0A]"

definition demo_metadata :: metadata where
  "demo_metadata = \<lparr>md_name = ''a.png'', md_stored = uuid_str demo_id @ ''.png'', md_mime = ''image/png'',
     md_size = 8\<rparr>"

definition demo_upload :: upload where
  "demo_upload = \<lparr>up_org = 10, up_ticket = demo_id, up_metadata = demo_metadata, up_content = demo_content\<rparr>"

definition demo_deletion :: outbox_row where
  "demo_deletion = \<lparr>ob_id = 5, ob_org = 10, ob_path = up_path demo_upload, ob_status = OB_PENDING,
     ob_attempts = 0, ob_max = 5, ob_error = None, ob_created = 0, ob_processed = None\<rparr>"

definition demo_support :: "outbox_row list \<Rightarrow> support_db" where
  "demo_support obs = \<lparr>known_devices = [(10, demo_id)], known_members = [(10, 1), (10, 2)], known_alerts = [],
     machine_tokens = [], tickets = [demo_ticket], comments = [], attachments = [], executions = [],
     outbox = obs, trail = []\<rparr>"

definition demo_office :: "outbox_row list \<Rightarrow> upload list \<Rightarrow> office" where
  "demo_office obs ups = \<lparr>of_desk = \<lparr>dk_db = demo_support obs,
       dk_files = [file_of demo_storage (up_path demo_upload) \<mapsto> demo_content]\<rparr>,
     of_uploads = ups, of_lost = [], of_tickets = [(10, demo_id)]\<rparr>"

lemma demo_store_ok: "store_ok (demo_support [])" "store_ok (demo_support [demo_deletion])"
  by (simp_all add: store_ok_def demo_support_def unique_by_def ticket_checks_def demo_ticket_def btrim_def)

lemma demo_path: "up_path demo_upload = attachment_path 10 demo_id (uuid_str demo_id @ ''.png'')"
  by (simp add: up_path_def demo_upload_def demo_metadata_def)

lemma demo_proper: "proper_path (up_path demo_upload)"
  unfolding proper_path_def demo_path EXTENSIONS_def by blast

lemma demo_detect: "detect_type demo_content = Some (''image/png'', ''.png'')" by code_simp

lemma demo_office_ok: "office_ok demo_storage (demo_office [] [demo_upload])"
proof -
  have "holds_upload demo_storage (demo_office [] [demo_upload]) demo_upload"
    by (simp add: holds_upload_def demo_office_def demo_detect) (simp add: demo_upload_def demo_metadata_def demo_content_def demo_detect [unfolded demo_content_def])
  then show ?thesis
    using demo_store_ok demo_proper
    by (simp add: office_ok_def known_paths_def demo_office_def) (simp add: demo_support_def)
qed

lemma demo_support_simps [simp]:
  "attachments (demo_support obs) = []" "outbox (demo_support obs) = obs" "tickets (demo_support obs) = [demo_ticket]"
  "trail (demo_support obs) = []" "known_members (demo_support obs) = [(10, 1), (10, 2)]"
  by (simp_all add: demo_support_def)

lemma demo_deletion_simps [simp]:
  "ob_path demo_deletion = up_path demo_upload" "ob_status demo_deletion = OB_PENDING" "ob_org demo_deletion = 10"
  "ob_attempts demo_deletion = 0" "ob_max demo_deletion = 5"
  by (simp_all add: demo_deletion_def)

lemma demo_queued: "queued_paths (demo_support [demo_deletion]) = {up_path demo_upload}"
proof -
  have "{b \<in> set (outbox (demo_support [demo_deletion])). ob_status b \<noteq> OB_COMPLETED} = {demo_deletion}" by auto
  then show ?thesis unfolding queued_paths_def by (simp only: image_insert image_empty demo_deletion_simps)
qed

lemma demo_deleted_ok: "office_ok demo_storage (demo_office [demo_deletion] [])"
  unfolding office_ok_def known_paths_def demo_office_def
  using demo_store_ok(2) demo_proper by (simp add: demo_queued)

lemma demo_version: "uuid_version demo_id = Some 4"
  by code_simp

lemma pg_create_attachment_accepts:
  fixes cl org i t md path
  defines "a \<equiv> \<lparr>at_org = org, at_id = i, at_ticket = t, at_original = md_name md, at_stored = md_stored md,
       at_mime = md_mime md, at_size = md_size md, at_path = path, at_uploaded = cl_now cl\<rparr>"
  assumes "readable_ticket org t actor (\<not> owner_only) db = Some k" and "attachment_checks db a"
    and "\<forall>r\<in>set (attachments db). at_org r = org \<longrightarrow> at_id r \<noteq> i \<and> at_stored r \<noteq> md_stored md"
    and "audit_accepts cl org db"
  shows "fst (pg_create_attachment cl org i t actor md path owner_only db) = Inr a"
proof -
  have new: "\<not> list_ex (\<lambda>r. at_org r = org \<and> (at_id r = i \<or> at_stored r = md_stored md)) (attachments db)"
    using assms(4) by (auto simp: list_ex_iff)
  have audit: "audit_accepts cl org (db\<lparr>attachments := attachments db @ [a]\<rparr>)"
    using assms(5) by (simp add: audit_accepts_def)
  show ?thesis
    using assms(2,3) new audit_call_run [OF audit]
    by (simp add: pg_create_attachment_def txn_def txn_by_def bindE_def reads_def writes_def ret_def Let_def a_def)
qed

lemma demo_finish:
  "fst (finish_upload demo_storage no_faults demo_call i (up_org demo_upload) (up_ticket demo_upload) 1
     (up_metadata demo_upload) (up_path demo_upload) True (of_desk (demo_office [] [demo_upload])))
   = Inr \<lparr>at_org = 10, at_id = i, at_ticket = demo_id, at_original = ''a.png'',
       at_stored = uuid_str demo_id @ ''.png'', at_mime = ''image/png'', at_size = 8,
       at_path = up_path demo_upload, at_uploaded = 1000\<rparr>"
proof -
  have up: "up_org demo_upload = 10" "up_ticket demo_upload = demo_id" "up_metadata demo_upload = demo_metadata"
    by (simp_all add: demo_upload_def)
  have stored: "generated_name (uuid_str demo_id @ ''.png'')"
    by (rule generated_uuid [OF demo_version]) (simp add: EXTENSIONS_def)
  have long: "length (up_path demo_upload) \<le> 500"
    by (simp add: demo_path attachment_path_def)
  have readable: "readable_ticket 10 demo_id 1 (\<not> True) (demo_support []) = Some demo_ticket"
    by (simp add: readable_ticket_def own_tickets_def select_where_def) (simp add: demo_ticket_def)
  have ticket: "has_ticket 10 demo_id (demo_support [])"
    by (simp add: has_ticket_def ticket_key_def demo_ticket_def)
  have audit: "audit_accepts demo_call 10 (demo_support [])"
    by (simp add: audit_accepts_def demo_call_def demo_trace_def)
  have "fst (pg_create_attachment demo_call 10 i demo_id 1 demo_metadata (up_path demo_upload) True (demo_support []))
      = Inr \<lparr>at_org = 10, at_id = i, at_ticket = demo_id, at_original = md_name demo_metadata,
          at_stored = md_stored demo_metadata, at_mime = md_mime demo_metadata, at_size = md_size demo_metadata,
          at_path = up_path demo_upload, at_uploaded = cl_now demo_call\<rparr>"
    by (rule pg_create_attachment_accepts [OF readable _ _ audit])
      (simp_all add: attachment_checks_def demo_metadata_def stored long ticket MAX_ATTACHMENT_BYTES_def)
  moreover have "dk_db (of_desk (demo_office [] [demo_upload])) = demo_support []" "\<not> fl_insert no_faults"
    by (simp_all add: demo_office_def no_faults_def)
  ultimately show ?thesis
    unfolding up finish_upload_run [OF demo_proper]
    by (auto simp: demo_metadata_def demo_call_def split: prod.splits sum.splits)
qed

lemma demo_uploads: "of_uploads (demo_office [] [demo_upload]) = [] @ demo_upload # []"
  by (simp add: demo_office_def)

lemma demo_stored: "\<exists>d a. finish_upload demo_storage no_faults demo_call i (up_org demo_upload) (up_ticket demo_upload) 1
     (up_metadata demo_upload) (up_path demo_upload) True (of_desk (demo_office [] [demo_upload])) = (Inr a, d)"
  using demo_finish by (metis prod.collapse)

text \<open>The same office before the upload, and the whole call.\<close>

definition blank_office :: office where
  "blank_office = (demo_office [] [])\<lparr>of_desk := \<lparr>dk_db = demo_support [], dk_files = Map.empty\<rparr>\<rparr>"

lemma blank_office_ok: "office_ok demo_storage blank_office"
  using demo_store_ok by (simp add: office_ok_def known_paths_def blank_office_def demo_office_def)

lemma demo_valid: "validate_attachment ''a.png'' demo_content demo_id = Some demo_metadata"
proof -
  have "normalize_text False ''a.png'' = Some ''a.png''" "clean_name ''a.png'' = ''a.png''" by code_simp+
  moreover have "length demo_content = 8" "demo_content \<noteq> []" by (simp_all add: demo_content_def)
  ultimately show ?thesis
    by (simp add: validate_attachment_def demo_detect MAX_ATTACHMENT_BYTES_def) (simp add: demo_metadata_def)
qed

lemma demo_store: "storage_store demo_storage no_faults 10 demo_id demo_metadata demo_content (of_desk blank_office)
    = (Inr (up_path demo_upload), of_desk (demo_office [] [demo_upload]))"
proof -
  have path: "attachment_path 10 demo_id (md_stored demo_metadata) = up_path demo_upload"
    by (simp add: up_path_def demo_upload_def)
  show ?thesis
    by (simp add: storage_store_def path proper_confined [OF demo_proper] Let_def eff_defs)
      (simp add: blank_office_def demo_office_def no_faults_def)
qed

lemma demo_answered:
  "\<exists>a d. upload_attachment demo_storage no_faults demo_call demo_id demo_id 10 demo_id 1 ''a.png'' demo_content True
      (of_desk blank_office) = (Inr a, d)
    \<and> upload_answered demo_storage blank_office demo_upload a (blank_office\<lparr>of_desk := d\<rparr>)"
proof -
  have up: "up_org demo_upload = 10" "up_ticket demo_upload = demo_id" "up_metadata demo_upload = demo_metadata"
    "up_content demo_upload = demo_content"
    by (simp_all add: demo_upload_def)
  obtain a d where finish: "finish_upload demo_storage no_faults demo_call demo_id 10 demo_id 1 demo_metadata
      (up_path demo_upload) True (of_desk (demo_office [] [demo_upload])) = (Inr a, d)"
    using demo_stored [of demo_id] by (auto simp: up)
  have enabled: "st_enabled demo_storage" by (simp add: demo_storage_def)
  have run: "upload_attachment demo_storage no_faults demo_call demo_id demo_id 10 demo_id 1 ''a.png'' demo_content True
      (of_desk blank_office) = (Inr a, d)"
    by (simp add: upload_attachment_def demo_valid demo_version enabled bindE_def demo_store finish)
  moreover have "up_path demo_upload \<notin> known_paths blank_office"
    by (simp add: known_paths_def blank_office_def demo_office_def)
  ultimately have "upload_answered demo_storage blank_office demo_upload a (blank_office\<lparr>of_desk := d\<rparr>)"
    unfolding upload_answered_def up using demo_valid by blast
  with run show ?thesis by blast
qed

text \<open>After the upload the ticket is deleted as a whole.\<close>

lemma attachment_durable_witness:
  "\<exists>a d. upload_attachment demo_storage no_faults demo_call demo_id demo_id 10 demo_id 1 ''a.png'' demo_content True
      (of_desk blank_office) = (Inr a, d)
    \<and> (let w' = blank_office\<lparr>of_desk :=
          snd (delete_ticket demo_storage no_faults demo_call (\<lambda>k. of_nat k) 10 demo_id 1 True d)\<rparr> in
        up_path demo_upload \<in> ob_path ` set (outbox (odb w')) \<or> a \<in> set (attachments (odb w')))"
proof -
  obtain a d where run: "upload_attachment demo_storage no_faults demo_call demo_id demo_id 10 demo_id 1 ''a.png''
      demo_content True (of_desk blank_office) = (Inr a, d)"
    and up: "upload_answered demo_storage blank_office demo_upload a (blank_office\<lparr>of_desk := d\<rparr>)"
    using demo_answered by blast
  have set: "st_enabled demo_storage" "\<not> fl_read no_faults" by (simp_all add: demo_storage_def no_faults_def)
  from attachment_durable [OF blank_office_ok up r_into_rtranclp [of "call_step demo_storage", OF call_delete_ticket] set,
      of no_faults demo_call "\<lambda>k. of_nat k" 10 demo_id 1 True]
  show ?thesis using run by (auto simp: Let_def)
qed

lemma files_accounted_witness:
  "\<exists>a d content. upload_attachment demo_storage no_faults demo_call demo_id demo_id 10 demo_id 1 ''a.png'' demo_content True
      (of_desk blank_office) = (Inr a, d)
    \<and> a \<in> set (attachments (dk_db d)) \<and> dk_files d (file_of demo_storage (at_path a)) = Some content
    \<and> length content = at_size a \<and> map_option fst (detect_type content) = Some (at_mime a)"
proof -
  obtain a d where run: "upload_attachment demo_storage no_faults demo_call demo_id demo_id 10 demo_id 1 ''a.png''
      demo_content True (of_desk blank_office) = (Inr a, d)"
    and up: "upload_answered demo_storage blank_office demo_upload a (blank_office\<lparr>of_desk := d\<rparr>)"
    using demo_answered by blast
  have new: "up_path \<lparr>up_org = 10, up_ticket = demo_id, up_metadata = demo_metadata, up_content = demo_content\<rparr>
      \<notin> known_paths blank_office"
    by (simp add: known_paths_def blank_office_def demo_office_def)
  note step = call_upload [OF demo_valid refl new run]
  from files_accounted [OF blank_office_ok r_into_rtranclp [of "call_step demo_storage", OF step]]
  have "\<forall>a\<in>set (attachments (dk_db d)). \<exists>content. dk_files d (file_of demo_storage (at_path a)) = Some content
      \<and> length content = at_size a \<and> map_option fst (detect_type content) = Some (at_mime a)" by simp
  moreover have "a \<in> set (attachments (dk_db d))" using answered [OF blank_office_ok up] by simp
  ultimately show ?thesis using run by blast
qed

definition demo_move :: "desk \<Rightarrow> desk" where
  "demo_move d = snd (transition_ticket demo_call 10 demo_id 1 NEW ASSIGNED (Some 2) 0 d)"

lemma demo_moved: "tickets (dk_db (demo_move (of_desk (demo_office [] ups))))
    = [moved_ticket 1000 ASSIGNED (Some 2) None demo_ticket]"
proof -
  have key: "ticket_key demo_ticket = (10, demo_id)" "tk_status demo_ticket = NEW" "cl_now demo_call = 1000"
    by (simp_all add: ticket_key_def demo_ticket_def demo_call_def)
  have audit: "audit_accepts demo_call 10 (demo_support [])"
    by (simp add: audit_accepts_def demo_call_def demo_trace_def)
  obtain tr where "pg_transition_ticket demo_call 10 demo_id 1 NEW ASSIGNED (Some 2) None (demo_support [])
      = (Inr (), (demo_support [])\<lparr>tickets := [moved_ticket 1000 ASSIGNED (Some 2) None demo_ticket], trail := tr\<rparr>)"
    using pg_transition_runs [OF demo_store_ok(1) _ key(1) _ _ audit, of ASSIGNED "Some 2" 1] key by auto
  then show ?thesis
    by (simp add: demo_move_def demo_office_def transition_ticket_def on_db_def)
qed

lemma ticket_lifecycle_witness:
  "\<exists>r'. tickets (dk_db (demo_move (of_desk (demo_office [] [demo_upload])))) = [r']
    \<and> ticket_edge\<^sup>*\<^sup>* demo_ticket r' \<and> tk_assignee r' = Some 2"
proof -
  let ?w = "demo_office [] [demo_upload]"
  have "tickets_kept ?w"
    by (simp add: tickets_kept_def demo_office_def) (simp add: staffed_def ticket_key_def demo_ticket_def)
  from ticket_lifecycle [OF demo_office_ok this r_into_rtranclp [of "office_step demo_storage"], OF office_transition
      [of demo_storage ?w demo_call 10 demo_id 1 NEW ASSIGNED "Some 2" 0]]
  have "ticket_edge\<^sup>*\<^sup>* demo_ticket (moved_ticket 1000 ASSIGNED (Some 2) None demo_ticket)"
    using demo_moved [of "[demo_upload]"] by (simp add: demo_move_def ticket_key_def) (simp add: demo_office_def)
  then show ?thesis by (simp add: demo_moved) (simp add: moved_ticket_def)
qed

lemma transition_exact_witness:
  "fst (transition_ticket demo_call 10 demo_id 1 NEW ASSIGNED None 0 (of_desk (demo_office [] []))) = Inl SupportConflict
   \<and> (let (result, d') = transition_ticket demo_call 10 demo_id 1 NEW ASSIGNED (Some 2) 0 (of_desk (demo_office [] [])) in
        result = Inr () \<and> fst (transition_ticket demo_call 10 demo_id 2 NEW ASSIGNED (Some 2) 5 d') = Inl SupportConflict)"
proof -
  let ?d = "of_desk (demo_office [] [])"
  have d: "dk_db ?d = demo_support []" by (simp add: demo_office_def)
  have key: "ticket_key demo_ticket = (10, demo_id)" and new: "tk_status demo_ticket = NEW"
    by (simp_all add: ticket_key_def demo_ticket_def)
  have audit: "audit_accepts demo_call 10 (demo_support [])"
    by (simp add: audit_accepts_def demo_call_def demo_trace_def)
  note exact = transition_exact [of ?d demo_ticket 10 demo_id, unfolded d, OF demo_store_ok(1) _ key _ audit]
  show ?thesis
    using exact [of "Some 2" 1 NEW ASSIGNED 0 demo_call 2 5] exact [of None 1 NEW ASSIGNED 0 demo_call 2 5] new
    by (auto simp: Let_def)
qed

lemma storage_confined_witness:
  "dk_files (snd (storage_delete demo_storage no_faults ''../../etc/passwd'' (of_desk (demo_office [] [])))) [''etc'', ''passwd'']
   = dk_files (of_desk (demo_office [] [])) [''etc'', ''passwd'']"
  using storage_confined [of demo_storage "[''etc'', ''passwd'']" no_faults 1 1 demo_metadata "[]" "of_desk (demo_office [] [])"
      "''../../etc/passwd''" None]
  by (simp add: demo_storage_def)

lemma outbox_drains_witness:
  "\<exists>k d. process_pending_deletions demo_storage (\<lambda>_. no_faults) 0 10 (\<lambda>_. ''error'') (\<lambda>_. False) 20
      (of_desk (demo_office [demo_deletion] [])) = (Inr k, d) \<and> deletion_done demo_storage demo_deletion d"
proof -
  have room: "length (own_outbox 10 (odb (demo_office [demo_deletion] []))) \<le> 20"
    by (simp add: demo_office_def own_outbox_def select_where_def)
  from outbox_drains [where fl = "\<lambda>_. no_faults", OF demo_deleted_ok _ _ _ room] show ?thesis
    by (simp add: demo_storage_def no_faults_def) (simp add: demo_office_def)
qed

end
