(* ===== verification/Support_Actions.thy ===== *)
theory Support_Actions
  imports Support_Store Codecs
begin

text \<open>
  Remote actions on the server: the requests of \<open>backend/app/support/schemas.py\<close>, the signing of
  \<open>backend/app/support/service.py\<close> and \<open>crypto.py\<close>, and the methods of
  \<open>backend/app/support/postgres.py\<close> on the table \<open>action_executions\<close>.

  Ed25519 is a family of signing functions by key version, JSON and SHA-256 are parameters. Instants
  are microseconds.
\<close>

section \<open>Requests\<close>

definition service_char :: "char \<Rightarrow> bool" where
  "service_char c \<longleftrightarrow> is_upper c \<or> is_lower c \<or> is_digit c \<or> c \<in> set ''_.@-''"

definition restart_parameters :: "params \<Rightarrow> params option" where
  "restart_parameters ps = (if set (map fst ps) \<subseteq> {''service_name''} then
     (case map_of ps ''service_name'' of
        Some (JStr s) \<Rightarrow> if 1 \<le> length s \<and> length s \<le> 100 then
          (case normalize_text False s of
             Some name \<Rightarrow> if 1 \<le> length name \<and> length name \<le> 100 \<and> list_all service_char name
               then Some [(''service_name'', JStr name)] else None
           | None \<Rightarrow> None) else None
      | _ \<Rightarrow> None) else None)"

text \<open>A strict field with a default: booleans are no integers and no text is converted.\<close>

definition bool_field :: "string \<Rightarrow> bool \<Rightarrow> params \<Rightarrow> bool option" where
  "bool_field k dflt ps = (case map_of ps k of
     None \<Rightarrow> Some dflt | Some (JBool b) \<Rightarrow> Some b | _ \<Rightarrow> None)"

definition int_field :: "string \<Rightarrow> int \<Rightarrow> int \<Rightarrow> int \<Rightarrow> params \<Rightarrow> int option" where
  "int_field k dflt lo hi ps = (case map_of ps k of
     None \<Rightarrow> Some dflt | Some (JInt i) \<Rightarrow> if lo \<le> i \<and> i \<le> hi then Some i else None | _ \<Rightarrow> None)"

definition flush_parameters :: "params \<Rightarrow> params option" where
  "flush_parameters ps = (if ps = [] then Some [] else None)"

definition diagnostics_parameters :: "params \<Rightarrow> params option" where
  "diagnostics_parameters ps = (if set (map fst ps) \<subseteq> {''include_logs'', ''max_log_lines''} then
     (case (bool_field ''include_logs'' False ps, int_field ''max_log_lines'' 1000 1 10000 ps) of
        (Some b, Some n) \<Rightarrow> Some [(''include_logs'', JBool b), (''max_log_lines'', JInt n)]
      | _ \<Rightarrow> None) else None)"

definition reboot_parameters :: "params \<Rightarrow> params option" where
  "reboot_parameters ps = (if set (map fst ps) \<subseteq> {''delay_seconds'', ''force''} then
     (case (int_field ''delay_seconds'' 0 0 300 ps, bool_field ''force'' False ps) of
        (Some d, Some f) \<Rightarrow> Some [(''delay_seconds'', JInt d), (''force'', JBool f)]
      | _ \<Rightarrow> None) else None)"

text \<open>\<open>ActionRequest\<close>: the validated parameters, their keys in order.\<close>

definition action_request :: "string \<Rightarrow> params \<Rightarrow> params option" where
  "action_request name ps = (if \<not> distinct (map fst ps) then None
     else if name = ''restart_service'' then restart_parameters ps
     else if name = ''flush_dns'' then flush_parameters ps
     else if name = ''collect_extended_diagnostics'' then diagnostics_parameters ps
     else if name = ''reboot_system'' then reboot_parameters ps else None)"

section \<open>Signing\<close>

text \<open>\<open>_utc_timestamp\<close>.\<close>

definition utc_stamp :: "int \<Rightarrow> string" where
  "utc_stamp t = utc_text (t div 1000000)"

definition payload_lines :: "execution_row \<Rightarrow> int \<Rightarrow> string list" where
  "payload_lines r k = [''nexus-action:v1'', uuid_str (ex_id r), uuid_str (ex_org r), uuid_str (ex_device r),
     ex_name r, uuid_str (ex_nonce r), int_str k, utc_stamp (ex_issued r), utc_stamp (ex_expires r),
     ex_canonical r]"

definition build_action_signing_payload :: "execution_row \<Rightarrow> bytes option" where
  "build_action_signing_payload r = map_option (\<lambda>k. encode_utf8 (join_lines (payload_lines r k))) (ex_key r)"

text \<open>\<open>Ed25519ActionSigner\<close>: the version in force and, for every version, its signing function.\<close>

record signer =
  sg_version :: int
  sg_sign :: "int \<Rightarrow> bytes \<Rightarrow> bytes"

definition sign :: "signer \<Rightarrow> bytes \<Rightarrow> string" where
  "sign sg payload = unpadded (urlsafe_b64encode (sg_sign sg (sg_version sg) payload))"

definition signed_row :: "signer \<Rightarrow> execution_row \<Rightarrow> execution_row" where
  "signed_row sg r = (case build_action_signing_payload r of
     None \<Rightarrow> r | Some payload \<Rightarrow> r\<lparr>ex_signature := Some (sign sg payload)\<rparr>)"

section \<open>Constraints\<close>

text \<open>
  A constraint that evaluates to NULL holds: a dispatched row without a signature passes, if it has a
  key version. The bound on the size of the stored JSON follows from that on its text for the
  parameters that requests can have.
\<close>

definition execution_checks :: "support_db \<Rightarrow> execution_row \<Rightarrow> bool" where
  "execution_checks db r \<longleftrightarrow>
     ex_name r \<in> {''restart_service'', ''flush_dns'', ''collect_extended_diagnostics'', ''reboot_system''}
     \<and> (\<forall>k\<in>set_option (ex_key r). 0 < k)
     \<and> ex_issued r < ex_expires r \<and> ex_expires r \<le> ex_issued r + 5 * 60 * 1000000
     \<and> 2 \<le> length (ex_canonical r) \<and> length (ex_canonical r) \<le> 8192
     \<and> (if ex_status r = PENDING_APPROVAL then ex_signature r = None \<and> ex_key r = None
        else ex_key r \<noteq> None \<and> (\<forall>s\<in>set_option (ex_signature r). 80 \<le> length s \<and> length s \<le> 128))
     \<and> (ex_approver r = None \<longleftrightarrow> ex_approved_at r = None)
     \<and> (\<forall>d\<in>set_option (ex_digest r). length d = 32)
     \<and> (\<forall>s\<in>set_option (ex_output r). length s \<le> 2000)
     \<and> (ex_token r = None \<longleftrightarrow> ex_accepted_at r = None)
     \<and> (ex_org r, ex_device r) \<in> set (known_devices db)
     \<and> (ex_org r, ex_requester r) \<in> set (known_members db)
     \<and> (\<forall>u\<in>set_option (ex_approver r). (ex_org r, u) \<in> set (known_members db))
     \<and> (\<forall>t\<in>set_option (ex_token r). (ex_org r, t) \<in> (\<lambda>m. (mt_org m, mt_id m)) ` set (machine_tokens db))"

abbreviation execution_key :: "execution_row \<Rightarrow> uuid \<times> uuid" where
  "execution_key r \<equiv> (ex_org r, ex_id r)"

abbreviation nonce_key :: "execution_row \<Rightarrow> uuid \<times> uuid \<times> uuid" where
  "nonce_key r \<equiv> (ex_org r, ex_device r, ex_nonce r)"

text \<open>An UPDATE: a row that would break a constraint makes the statement fail.\<close>

definition update_executions :: "(execution_row \<Rightarrow> bool) \<Rightarrow> (execution_row \<Rightarrow> execution_row) \<Rightarrow> nat seff" where
  "update_executions P f = bindE (reads id) (\<lambda>db.
     if list_ex (\<lambda>r. P r \<and> \<not> execution_checks db (f r)) (executions db) then raise StatementFailed
     else bindE (writes (\<lambda>db. db\<lparr>executions := update_where P f (executions db)\<rparr>))
       (\<lambda>_. ret (rowcount P (executions db))))"

definition find_execution :: "(execution_row \<Rightarrow> bool) \<Rightarrow> support_db \<Rightarrow> execution_row option" where
  "find_execution P db = first_row (select_where P (executions db))"

section \<open>Request and approval\<close>

fun execution_text :: "execution_status \<Rightarrow> string" where
  "execution_text PENDING_APPROVAL = ''PENDING_APPROVAL''"
| "execution_text DISPATCHED = ''DISPATCHED''"
| "execution_text ACCEPTED = ''ACCEPTED''"
| "execution_text EXECUTING = ''EXECUTING''"
| "execution_text COMPLETED = ''COMPLETED''"
| "execution_text FAILED = ''FAILED''"
| "execution_text INTERRUPTED = ''INTERRUPTED''"
| "execution_text UNKNOWN = ''UNKNOWN''"
| "execution_text TIMED_OUT = ''TIMED_OUT''"
| "execution_text REJECTED = ''REJECTED''"

definition pg_create_action :: "call \<Rightarrow> execution_row \<Rightarrow> execution_row seff" where
  "pg_create_action cl r = txn (bindE (reads id) (\<lambda>db.
     if \<not> execution_checks db r \<or> execution_key r \<in> execution_key ` set (executions db)
        \<or> nonce_key r \<in> nonce_key ` set (executions db)
     then raise StatementFailed
     else bindE (writes (\<lambda>db. db\<lparr>executions := executions db @ [r]\<rparr>)) (\<lambda>_.
       bindE (audit_call cl (ex_org r) (ex_requester r) ''USER'' ''REMOTE_ACTION.REQUESTED'' ''action_execution''
         (ex_id r) [(''action_name'', ex_name r),
           (''status'', execution_text (ex_status r))])
         (\<lambda>_. ret r))))"

text \<open>\<open>replace(microsecond=0)\<close>.\<close>

definition whole_second :: "int \<Rightarrow> int" where
  "whole_second t = t - t mod 1000000"

definition FIVE_MINUTES :: int where
  "FIVE_MINUTES = 5 * 60 * 1000000"

text \<open>\<open>ps\<close> are validated parameters, \<open>dumps\<close> their canonical JSON text.\<close>

definition request_action ::
  "(params \<Rightarrow> string) \<Rightarrow> signer \<Rightarrow> call \<Rightarrow> int \<Rightarrow> uuid \<Rightarrow> uuid \<Rightarrow> uuid \<Rightarrow> uuid \<Rightarrow> uuid \<Rightarrow> string \<Rightarrow> params
   \<Rightarrow> execution_row seff" where
  "request_action dumps sg cl clock i nonce org device actor name ps =
     (if uuid_version i \<noteq> Some 4 \<or> uuid_version nonce \<noteq> Some 4 then raise SupportUnavailable
      else let requires_approval = (name = ''reboot_system'');
               unsigned = \<lparr>ex_org = org, ex_id = i, ex_device = device, ex_name = name, ex_requester = actor,
                 ex_approver = None, ex_approved_at = None, ex_nonce = nonce,
                 ex_key = (if requires_approval then None else Some (sg_version sg)),
                 ex_issued = whole_second clock, ex_expires = whole_second clock + FIVE_MINUTES,
                 ex_signature = None, ex_parameters = ps, ex_canonical = dumps ps,
                 ex_status = (if requires_approval then PENDING_APPROVAL else DISPATCHED),
                 ex_exit = None, ex_output = None, ex_digest = None, ex_token = None,
                 ex_accepted_at = None, ex_executed_at = None\<rparr>
           in pg_create_action cl (if requires_approval then unsigned else signed_row sg unsigned))"

text \<open>\<open>approve_action\<close>, with the times and the signature of the moment of approval.\<close>

definition approved_row :: "signer \<Rightarrow> uuid \<Rightarrow> int \<Rightarrow> execution_row \<Rightarrow> execution_row" where
  "approved_row sg approver now r = signed_row sg (r\<lparr>ex_status := DISPATCHED, ex_approver := Some approver,
     ex_approved_at := Some now, ex_key := Some (sg_version sg), ex_issued := whole_second now,
     ex_expires := whole_second now + FIVE_MINUTES\<rparr>)"

definition approve_action :: "signer \<Rightarrow> call \<Rightarrow> uuid \<Rightarrow> uuid \<Rightarrow> uuid \<Rightarrow> int \<Rightarrow> unit seff" where
  "approve_action sg cl org i approver now = txn (bindE (reads (find_execution
       (\<lambda>r. execution_key r = (org, i) \<and> ex_status r = PENDING_APPROVAL \<and> now < ex_expires r))) (\<lambda>row.
     case row of None \<Rightarrow> raise SupportConflict
     | Some _ \<Rightarrow> bindE (update_executions (\<lambda>r. execution_key r = (org, i) \<and> ex_status r = PENDING_APPROVAL)
           (approved_row sg approver now)) (\<lambda>n.
         if n \<noteq> 1 then raise SupportConflict
         else audit_call cl org approver ''USER'' ''REMOTE_ACTION.APPROVED'' ''action_execution'' i [])))"

section \<open>Polling, acknowledgement, result\<close>

definition of_device :: "uuid \<Rightarrow> uuid \<Rightarrow> execution_row \<Rightarrow> bool" where
  "of_device org dev r \<longleftrightarrow> ex_org r = org \<and> ex_device r = dev"

definition overdue :: "uuid \<Rightarrow> uuid \<Rightarrow> int \<Rightarrow> execution_row \<Rightarrow> bool" where
  "overdue org dev now r \<longleftrightarrow> of_device org dev r \<and> ex_status r = DISPATCHED \<and> ex_expires r \<le> now"

definition pollable :: "uuid \<Rightarrow> uuid \<Rightarrow> int \<Rightarrow> execution_row \<Rightarrow> bool" where
  "pollable org dev now r \<longleftrightarrow> of_device org dev r \<and> ex_status r = DISPATCHED \<and> now < ex_expires r
     \<and> ex_signature r \<noteq> None"

definition poll_actions :: "uuid \<Rightarrow> uuid \<Rightarrow> int \<Rightarrow> nat \<Rightarrow> execution_row list seff" where
  "poll_actions org dev now limit = txn (bindE (update_executions (overdue org dev now)
       (\<lambda>r. r\<lparr>ex_status := TIMED_OUT\<rparr>)) (\<lambda>_.
     reads (\<lambda>db. take limit (order_by ex_issued (order_by ex_id
       (select_where (pollable org dev now) (executions db)))))))"

definition token_live :: "uuid \<Rightarrow> uuid \<Rightarrow> uuid \<Rightarrow> int \<Rightarrow> support_db \<Rightarrow> bool" where
  "token_live org dev tok now db \<longleftrightarrow> list_ex (\<lambda>m. mt_org m = org \<and> mt_device m = dev \<and> mt_id m = tok
     \<and> \<not> mt_revoked m \<and> (case mt_expires m of None \<Rightarrow> True | Some e \<Rightarrow> now < e)) (machine_tokens db)"

definition the_execution :: "uuid \<Rightarrow> uuid \<Rightarrow> uuid \<Rightarrow> execution_row \<Rightarrow> bool" where
  "the_execution org dev i r \<longleftrightarrow> of_device org dev r \<and> ex_id r = i"

definition acknowledgeable :: "uuid \<Rightarrow> uuid \<Rightarrow> uuid \<Rightarrow> uuid \<Rightarrow> int \<Rightarrow> support_db \<Rightarrow> execution_row \<Rightarrow> bool" where
  "acknowledgeable org dev i tok now db r \<longleftrightarrow> the_execution org dev i r \<and> ex_status r = DISPATCHED
     \<and> now < ex_expires r \<and> ex_signature r \<noteq> None \<and> token_live org dev tok now db"

definition accepted_row :: "uuid \<Rightarrow> int \<Rightarrow> execution_row \<Rightarrow> execution_row" where
  "accepted_row tok now r = r\<lparr>ex_status := ACCEPTED, ex_token := Some tok, ex_accepted_at := Some now\<rparr>"

text \<open>The answer is whether the call repeats an earlier one.\<close>

definition acknowledge_action :: "call \<Rightarrow> uuid \<Rightarrow> uuid \<Rightarrow> uuid \<Rightarrow> uuid \<Rightarrow> int \<Rightarrow> bool seff" where
  "acknowledge_action cl org dev i tok now = txn (bindE (reads id) (\<lambda>db.
     bindE (update_executions (acknowledgeable org dev i tok now db) (accepted_row tok now)) (\<lambda>n.
     if n = 1 then bindE (audit_call cl org dev ''AGENT'' ''REMOTE_ACTION.ACCEPTED'' ''action_execution'' i [])
       (\<lambda>_. ret False)
     else bindE (reads (find_execution (the_execution org dev i))) (\<lambda>row. case row of
         None \<Rightarrow> raise SupportNotFound
       | Some r \<Rightarrow> if ex_status r = ACCEPTED \<and> ex_token r = Some tok then ret True
           else raise SupportConflict))))"

datatype agent_status = R_ACCEPTED | R_EXECUTING | R_SUCCEEDED | R_FAILED | R_INTERRUPTED | R_UNKNOWN

fun RESULT_STATUS :: "agent_status \<Rightarrow> execution_status" where
  "RESULT_STATUS R_ACCEPTED = ACCEPTED"
| "RESULT_STATUS R_EXECUTING = EXECUTING"
| "RESULT_STATUS R_SUCCEEDED = COMPLETED"
| "RESULT_STATUS R_FAILED = FAILED"
| "RESULT_STATUS R_INTERRUPTED = INTERRUPTED"
| "RESULT_STATUS R_UNKNOWN = UNKNOWN"

record action_result =
  ar_status :: agent_status
  ar_exit :: "int option"
  ar_output :: "string option"

definition allowed_sources :: "execution_status \<Rightarrow> execution_status set" where
  "allowed_sources st = (if st \<in> {ACCEPTED, EXECUTING} then {ACCEPTED} else {ACCEPTED, EXECUTING})"

definition final_report :: "execution_status \<Rightarrow> bool" where
  "final_report st \<longleftrightarrow> st \<in> {COMPLETED, FAILED, INTERRUPTED, UNKNOWN}"

definition reported_row :: "(action_result \<Rightarrow> bytes) \<Rightarrow> action_result \<Rightarrow> int \<Rightarrow> execution_row \<Rightarrow> execution_row" where
  "reported_row digest result now r = (let st = RESULT_STATUS (ar_status result) in
     r\<lparr>ex_status := st, ex_exit := ar_exit result, ex_output := ar_output result,
       ex_digest := Some (digest result),
       ex_executed_at := (if final_report st then Some now else ex_executed_at r)\<rparr>)"

definition reportable ::
  "uuid \<Rightarrow> uuid \<Rightarrow> uuid \<Rightarrow> uuid \<Rightarrow> execution_status \<Rightarrow> int \<Rightarrow> support_db \<Rightarrow> execution_row \<Rightarrow> bool" where
  "reportable org dev i tok st now db r \<longleftrightarrow> the_execution org dev i r \<and> ex_token r = Some tok
     \<and> ex_status r \<in> allowed_sources st \<and> token_live org dev tok now db"

definition record_action_result ::
  "(action_result \<Rightarrow> bytes) \<Rightarrow> call \<Rightarrow> uuid \<Rightarrow> uuid \<Rightarrow> uuid \<Rightarrow> uuid \<Rightarrow> action_result \<Rightarrow> int \<Rightarrow> bool seff" where
  "record_action_result digest cl org dev i tok result now = (let st = RESULT_STATUS (ar_status result) in
     txn (bindE (reads id) (\<lambda>db.
     bindE (update_executions (reportable org dev i tok st now db) (reported_row digest result now)) (\<lambda>n.
     if n = 1 then bindE (audit_call cl org dev ''AGENT'' ''REMOTE_ACTION.RESULT_RECORDED'' ''action_execution'' i
         [(''status'', execution_text st)]) (\<lambda>_. ret False)
     else bindE (reads (find_execution (the_execution org dev i))) (\<lambda>row. case row of
         None \<Rightarrow> raise SupportNotFound
       | Some r \<Rightarrow> if ex_status r = st \<and> ex_token r = Some tok \<and> ex_digest r = Some (digest result) then ret True
           else raise SupportConflict)))))"

section \<open>Any sequence of requests\<close>

text \<open>
  \<open>ActionResultCreate\<close>; then what stays the same over all requests: the canonical JSON text of
  parameters, the signing key of every version, the digest of a result.
\<close>

definition action_result_create :: "action_result \<Rightarrow> action_result option" where
  "action_result_create r =
     (if (\<exists>k\<in>set_option (ar_exit r). k < - (2 ^ 31) \<or> 2 ^ 31 - 1 < k)
        \<or> (\<exists>s\<in>set_option (ar_output r). 2000 < length s) then None
      else case ar_output r of None \<Rightarrow> Some r
        | Some s \<Rightarrow> map_option (\<lambda>t. r\<lparr>ar_output := Some t\<rparr>) (normalize_text True s))"

record action_env =
  ae_dumps :: "params \<Rightarrow> string"
  ae_sign :: "int \<Rightarrow> bytes \<Rightarrow> bytes"
  ae_digest :: "action_result \<Rightarrow> bytes"

definition signer_at :: "action_env \<Rightarrow> int \<Rightarrow> signer" where
  "signer_at env v = \<lparr>sg_version = v, sg_sign = ae_sign env\<rparr>"

text \<open>A request refused by its schema reaches no service.\<close>

definition checked :: "'r option \<Rightarrow> ('r \<Rightarrow> 'a seff) \<Rightarrow> 'a seff" where
  "checked request f = (case request of None \<Rightarrow> raise SupportInvalid | Some r \<Rightarrow> f r)"

text \<open>
  The version of the signing key may change between requests. \<open>OtherTables\<close> is any change of the
  other tables, machine tokens among them.
\<close>

datatype action_op =
    RequestAction int call int uuid uuid uuid uuid uuid string params
  | ApproveAction int call uuid uuid uuid int
  | PollActions uuid uuid int nat
  | AcknowledgeAction call uuid uuid uuid uuid int
  | RecordResult call uuid uuid uuid uuid action_result int
  | OtherTables support_db

fun exec_action :: "action_env \<Rightarrow> action_op \<Rightarrow> support_db \<Rightarrow> support_db" where
  "exec_action env (RequestAction v cl clock i nonce org device actor name ps) db
     = snd (checked (action_request name ps)
         (request_action (ae_dumps env) (signer_at env v) cl clock i nonce org device actor name) db)"
| "exec_action env (ApproveAction v cl org i approver now) db
     = snd (approve_action (signer_at env v) cl org i approver now db)"
| "exec_action env (PollActions org dev now limit) db = snd (poll_actions org dev now limit db)"
| "exec_action env (AcknowledgeAction cl org dev i tok now) db = snd (acknowledge_action cl org dev i tok now db)"
| "exec_action env (RecordResult cl org dev i tok result now) db
     = snd (checked (action_result_create result)
         (\<lambda>r. record_action_result (ae_digest env) cl org dev i tok r now) db)"
| "exec_action env (OtherTables other) db = other\<lparr>executions := executions db\<rparr>"

definition run_actions :: "action_env \<Rightarrow> action_op list \<Rightarrow> support_db \<Rightarrow> support_db" where
  "run_actions env ops db = fold (exec_action env) ops db"

section \<open>Well-formed executions\<close>

definition authentic :: "action_env \<Rightarrow> execution_row \<Rightarrow> bool" where
  "authentic env r \<longleftrightarrow> (\<exists>k payload. ex_key r = Some k \<and> build_action_signing_payload r = Some payload
     \<and> ex_signature r = Some (unpadded (urlsafe_b64encode (ae_sign env k payload))))"

definition ACKNOWLEDGED :: "execution_status set" where
  "ACKNOWLEDGED = {ACCEPTED, EXECUTING, COMPLETED, FAILED, INTERRUPTED, UNKNOWN}"

definition execution_ok :: "action_env \<Rightarrow> execution_row \<Rightarrow> bool" where
  "execution_ok env r \<longleftrightarrow>
     uuid_version (ex_id r) = Some 4 \<and> uuid_version (ex_nonce r) = Some 4
     \<and> (\<exists>raw. action_request (ex_name r) raw = Some (ex_parameters r)) \<and> ex_canonical r = ae_dumps env (ex_parameters r)
     \<and> ex_issued r mod 1000000 = 0 \<and> ex_expires r = ex_issued r + FIVE_MINUTES
     \<and> (ex_status r = PENDING_APPROVAL \<longrightarrow> ex_signature r = None \<and> ex_key r = None \<and> ex_approver r = None)
     \<and> (ex_status r \<noteq> PENDING_APPROVAL \<longrightarrow> authentic env r)
     \<and> (ex_name r = ''reboot_system'' \<and> ex_status r \<noteq> PENDING_APPROVAL \<longrightarrow> ex_approver r \<noteq> None)
     \<and> (ex_token r \<noteq> None \<longleftrightarrow> ex_status r \<in> ACKNOWLEDGED)
     \<and> (ex_accepted_at r = None \<longleftrightarrow> ex_token r = None)
     \<and> (\<forall>t\<in>set_option (ex_accepted_at r). t < ex_expires r)
     \<and> (ex_executed_at r \<noteq> None \<longleftrightarrow> final_report (ex_status r))
     \<and> (ex_status r \<in> ACKNOWLEDGED - {ACCEPTED} \<longrightarrow> ex_digest r \<noteq> None)
     \<and> ex_status r \<noteq> REJECTED"

text \<open>How a row may change: forward only, and nothing that was signed changes after the dispatch.\<close>

fun rank :: "execution_status \<Rightarrow> nat" where
  "rank PENDING_APPROVAL = 0"
| "rank DISPATCHED = 1"
| "rank ACCEPTED = 2"
| "rank EXECUTING = 3"
| "rank _ = 4"

definition same_order :: "execution_row \<Rightarrow> execution_row \<Rightarrow> bool" where
  "same_order r r' \<longleftrightarrow> ex_org r' = ex_org r \<and> ex_id r' = ex_id r \<and> ex_device r' = ex_device r
     \<and> ex_name r' = ex_name r \<and> ex_requester r' = ex_requester r \<and> ex_nonce r' = ex_nonce r
     \<and> ex_parameters r' = ex_parameters r \<and> ex_canonical r' = ex_canonical r"

definition same_dispatch :: "execution_row \<Rightarrow> execution_row \<Rightarrow> bool" where
  "same_dispatch r r' \<longleftrightarrow> ex_key r' = ex_key r \<and> ex_signature r' = ex_signature r \<and> ex_issued r' = ex_issued r
     \<and> ex_expires r' = ex_expires r \<and> ex_approver r' = ex_approver r \<and> ex_approved_at r' = ex_approved_at r"

definition execution_step :: "execution_row \<Rightarrow> execution_row \<Rightarrow> bool" where
  "execution_step r r' \<longleftrightarrow> same_order r r' \<and> rank (ex_status r) \<le> rank (ex_status r')
     \<and> (rank (ex_status r) = 4 \<longrightarrow> r' = r)
     \<and> (ex_status r \<noteq> PENDING_APPROVAL \<longrightarrow> same_dispatch r r')
     \<and> (ex_token r \<noteq> None \<longrightarrow> ex_token r' = ex_token r \<and> ex_accepted_at r' = ex_accepted_at r)"

definition actions_ok :: "action_env \<Rightarrow> support_db \<Rightarrow> bool" where
  "actions_ok env db \<longleftrightarrow> unique_by execution_key (executions db) \<and> unique_by nonce_key (executions db)
     \<and> list_all (execution_ok env) (executions db)"

definition actions_upto :: "support_db \<Rightarrow> support_db \<Rightarrow> bool" where
  "actions_upto db db' \<longleftrightarrow> table_evolves execution_step (executions db) (executions db')"

lemma execution_step_refl [simp]: "execution_step r r"
  by (simp add: execution_step_def same_order_def same_dispatch_def)

lemma rank_0: "rank st = 0 \<longleftrightarrow> st = PENDING_APPROVAL"
  by (cases st) auto

lemma execution_step_trans: "execution_step a b \<Longrightarrow> execution_step b c \<Longrightarrow> execution_step a c"
proof -
  assume ab: "execution_step a b" and bc: "execution_step b c"
  have forward: "ex_status b \<noteq> PENDING_APPROVAL" if "ex_status a \<noteq> PENDING_APPROVAL"
    using ab that rank_0 [of "ex_status a"] rank_0 [of "ex_status b"] by (auto simp: execution_step_def)
  from ab bc have "same_order a c" "rank (ex_status a) \<le> rank (ex_status c)"
    by (auto simp: execution_step_def same_order_def)
  moreover have "rank (ex_status a) = 4 \<longrightarrow> c = a" using ab bc by (auto simp: execution_step_def)
  moreover have "ex_status a \<noteq> PENDING_APPROVAL \<longrightarrow> same_dispatch a c"
    using ab bc forward by (auto simp: execution_step_def same_dispatch_def)
  moreover have "ex_token a \<noteq> None \<longrightarrow> ex_token c = ex_token a \<and> ex_accepted_at c = ex_accepted_at a"
    using ab bc by (auto simp: execution_step_def)
  ultimately show ?thesis by (simp only: execution_step_def simp_thms)
qed

lemma actions_upto_refl: "actions_upto db db"
  by (simp add: actions_upto_def table_evolves_refl)

lemma actions_upto_trans: "actions_upto a b \<Longrightarrow> actions_upto b c \<Longrightarrow> actions_upto a c"
  unfolding actions_upto_def by (rule table_evolves_trans [of execution_step]) (auto intro: execution_step_trans)

text \<open>A state reached from \<open>old\<close>.\<close>

definition actions_from :: "action_env \<Rightarrow> support_db \<Rightarrow> support_db \<Rightarrow> bool" where
  "actions_from env old db \<longleftrightarrow> actions_ok env db \<and> actions_upto old db"

lemma actions_from_trail [simp]: "actions_from env old (db\<lparr>trail := tr\<rparr>) = actions_from env old db"
  by (simp add: actions_from_def actions_ok_def actions_upto_def)

lemma keeps_action_audit [keeps_rules]: "keeps (actions_from env old) (audit_call cl org a ty act rt r ds)"
  by (rule keepsI) (auto intro!: wp_audit_call)

lemma keeps_update_executions:
  assumes "\<And>r. execution_ok env r \<Longrightarrow> P r \<Longrightarrow> execution_ok env (f r) \<and> execution_step r (f r)"
  shows "keeps (actions_from env old) (update_executions P f)"
proof (rule keepsI)
  fix db
  assume ok: "actions_from env old db"
  have row: "execution_ok env (if P r then f r else r) \<and> execution_step r (if P r then f r else r)"
    if "r \<in> set (executions db)" for r
    using ok assms [of r] that by (auto simp: actions_from_def actions_ok_def list_all_iff)
  have "map k (update_where P f (executions db)) = map k (executions db)"
    if "\<And>r r'. execution_step r r' \<Longrightarrow> k r' = k r" for k :: "execution_row \<Rightarrow> 'k"
    using that row unfolding update_where_def map_map by (intro map_cong) auto
  from this [of execution_key] this [of nonce_key]
  have "unique_by execution_key (update_where P f (executions db))" "unique_by nonce_key (update_where P f (executions db))"
    using ok by (simp_all add: unique_by_def actions_from_def actions_ok_def execution_step_def same_order_def)
  moreover have "list_all (execution_ok env) (update_where P f (executions db))"
    unfolding list_all_iff set_update_where using row by blast
  moreover have "actions_upto db (db\<lparr>executions := update_where P f (executions db)\<rparr>)"
    unfolding actions_upto_def by (simp add: table_evolves_update row)
  ultimately have "actions_from env old (db\<lparr>executions := update_where P f (executions db)\<rparr>)"
    using ok actions_upto_trans by (auto simp: actions_from_def actions_ok_def)
  with ok show "wp (update_executions P f) (\<lambda>_. actions_from env old) (\<lambda>_. actions_from env old) db"
    by (simp add: update_executions_def)
qed

section \<open>Every request keeps them\<close>

lemma payload_unchanged [simp]:
  "build_action_signing_payload (r\<lparr>ex_status := st\<rparr>) = build_action_signing_payload r"
  "build_action_signing_payload (r\<lparr>ex_signature := sig\<rparr>) = build_action_signing_payload r"
  "build_action_signing_payload (r\<lparr>ex_token := tok\<rparr>) = build_action_signing_payload r"
  "build_action_signing_payload (r\<lparr>ex_accepted_at := t\<rparr>) = build_action_signing_payload r"
  "build_action_signing_payload (r\<lparr>ex_exit := x\<rparr>) = build_action_signing_payload r"
  "build_action_signing_payload (r\<lparr>ex_output := out\<rparr>) = build_action_signing_payload r"
  "build_action_signing_payload (r\<lparr>ex_digest := d\<rparr>) = build_action_signing_payload r"
  "build_action_signing_payload (r\<lparr>ex_executed_at := e\<rparr>) = build_action_signing_payload r"
  by (simp_all add: build_action_signing_payload_def payload_lines_def)

lemma authentic_unchanged [simp]:
  "authentic env (r\<lparr>ex_status := st\<rparr>) = authentic env r"
  "authentic env (r\<lparr>ex_token := tok\<rparr>) = authentic env r"
  "authentic env (r\<lparr>ex_accepted_at := t\<rparr>) = authentic env r"
  "authentic env (r\<lparr>ex_exit := x\<rparr>) = authentic env r"
  "authentic env (r\<lparr>ex_output := out\<rparr>) = authentic env r"
  "authentic env (r\<lparr>ex_digest := d\<rparr>) = authentic env r"
  "authentic env (r\<lparr>ex_executed_at := e\<rparr>) = authentic env r"
  by (simp_all add: authentic_def)

lemma signed_row_simps [simp]:
  "ex_org (signed_row sg r) = ex_org r" "ex_id (signed_row sg r) = ex_id r" "ex_device (signed_row sg r) = ex_device r"
  "ex_name (signed_row sg r) = ex_name r" "ex_requester (signed_row sg r) = ex_requester r"
  "ex_nonce (signed_row sg r) = ex_nonce r" "ex_parameters (signed_row sg r) = ex_parameters r"
  "ex_canonical (signed_row sg r) = ex_canonical r" "ex_status (signed_row sg r) = ex_status r"
  "ex_key (signed_row sg r) = ex_key r" "ex_issued (signed_row sg r) = ex_issued r"
  "ex_expires (signed_row sg r) = ex_expires r" "ex_approver (signed_row sg r) = ex_approver r"
  "ex_approved_at (signed_row sg r) = ex_approved_at r" "ex_token (signed_row sg r) = ex_token r"
  "ex_accepted_at (signed_row sg r) = ex_accepted_at r" "ex_executed_at (signed_row sg r) = ex_executed_at r"
  "ex_digest (signed_row sg r) = ex_digest r"
  by (simp_all add: signed_row_def split: option.split)

lemma authentic_signed:
  assumes "ex_key r = Some (sg_version sg)" and "sg_sign sg = ae_sign env"
  shows "authentic env (signed_row sg r)"
proof -
  obtain payload where "build_action_signing_payload r = Some payload"
    using assms(1) by (auto simp: build_action_signing_payload_def)
  then show ?thesis using assms by (simp add: authentic_def signed_row_def sign_def)
qed

lemma keeps_action_poll [keeps_rules]: "keeps (actions_from env old) (poll_actions org dev now limit)"
  unfolding poll_actions_def
  by (intro keeps_rules keeps_update_executions)
    (auto simp: overdue_def execution_ok_def execution_step_def same_order_def same_dispatch_def ACKNOWLEDGED_def final_report_def)

lemma keeps_action_acknowledge [keeps_rules]: "keeps (actions_from env old) (acknowledge_action cl org dev i tok now)"
  unfolding acknowledge_action_def
  by (intro keeps_rules keeps_update_executions)
    (auto simp: acknowledgeable_def accepted_row_def execution_ok_def execution_step_def same_order_def same_dispatch_def ACKNOWLEDGED_def final_report_def)

lemma reported_ok:
  assumes ok: "execution_ok env r" and "ex_token r = Some tok"
    and source: "ex_status r \<in> allowed_sources (RESULT_STATUS (ar_status result))"
  shows "execution_ok env (reported_row digest result now r)" "execution_step r (reported_row digest result now r)"
proof -
  let ?st = "RESULT_STATUS (ar_status result)"
  have st: "?st \<in> ACKNOWLEDGED" by (cases "ar_status result") (simp_all add: ACKNOWLEDGED_def)
  have src: "ex_status r = ACCEPTED \<or> ex_status r = EXECUTING \<and> final_report ?st"
    using source st by (auto simp: allowed_sources_def ACKNOWLEDGED_def final_report_def split: if_splits)
  then have rank: "rank (ex_status r) \<le> rank ?st" "rank (ex_status r) \<noteq> 4" "\<not> final_report (ex_status r)"
    "ex_status r \<noteq> PENDING_APPROVAL" "?st \<noteq> PENDING_APPROVAL" "?st \<noteq> REJECTED"
    using st by (auto simp: ACKNOWLEDGED_def final_report_def)
  show "execution_step r (reported_row digest result now r)"
    using rank assms(2) by (simp add: execution_step_def reported_row_def Let_def same_order_def same_dispatch_def)
  show "execution_ok env (reported_row digest result now r)"
    using ok rank st assms(2) by (auto simp: execution_ok_def reported_row_def Let_def)
qed

lemma keeps_action_record [keeps_rules]:
  "keeps (actions_from env old) (record_action_result digest cl org dev i tok result now)"
  unfolding record_action_result_def
  by (intro keeps_rules keeps_update_executions) (auto simp: reportable_def intro: reported_ok)

lemma approved_ok:
  assumes "execution_ok env r" and "ex_status r = PENDING_APPROVAL" and "sg_sign sg = ae_sign env"
  shows "execution_ok env (approved_row sg approver now r) \<and> execution_step r (approved_row sg approver now r)"
proof -
  have "authentic env (approved_row sg approver now r)"
    unfolding approved_row_def using assms(3) by (intro authentic_signed) simp_all
  moreover have "ex_token r = None" using assms(1,2) by (auto simp: execution_ok_def ACKNOWLEDGED_def)
  ultimately show ?thesis
    using assms by (simp add: execution_ok_def execution_step_def approved_row_def same_order_def ACKNOWLEDGED_def
        final_report_def whole_second_def minus_mod_eq_mult_div)
qed

lemma keeps_action_approve [keeps_rules]: "keeps (actions_from env old) (approve_action (signer_at env v) cl org i approver now)"
  unfolding approve_action_def
  by (intro keeps_rules keeps_update_executions approved_ok) (simp_all add: signer_at_def)

lemma keeps_action_create:
  assumes "execution_ok env r"
  shows "keeps (actions_from env old) (pg_create_action cl r)"
proof (rule keepsI)
  fix db
  assume ok: "actions_from env old db"
  let ?db = "db\<lparr>executions := executions db @ [r]\<rparr>"
  have "actions_from env old ?db"
    if "execution_key r \<notin> execution_key ` set (executions db)" "nonce_key r \<notin> nonce_key ` set (executions db)"
  proof -
    have "actions_upto db ?db" by (simp add: actions_upto_def table_evolves_append)
    then show ?thesis using ok that assms actions_upto_trans
      by (auto simp: actions_from_def actions_ok_def unique_by_append1)
  qed
  with ok show "wp (pg_create_action cl r) (\<lambda>_. actions_from env old) (\<lambda>_. actions_from env old) db"
    unfolding pg_create_action_def by (auto simp: wp_if intro!: wp_audit_call)
qed

lemma keeps_action_request:
  assumes "action_request name raw = Some ps"
  shows "keeps (actions_from env old) (request_action (ae_dumps env) (signer_at env v) cl clock i nonce org device actor name ps)"
proof -
  define r where "r = \<lparr>ex_org = org, ex_id = i, ex_device = device, ex_name = name, ex_requester = actor,
     ex_approver = None, ex_approved_at = None, ex_nonce = nonce,
     ex_key = (if name = ''reboot_system'' then None else Some (sg_version (signer_at env v))),
     ex_issued = whole_second clock, ex_expires = whole_second clock + FIVE_MINUTES,
     ex_signature = None, ex_parameters = ps, ex_canonical = ae_dumps env ps,
     ex_status = (if name = ''reboot_system'' then PENDING_APPROVAL else DISPATCHED),
     ex_exit = None, ex_output = None, ex_digest = None, ex_token = None,
     ex_accepted_at = None, ex_executed_at = None\<rparr>"
  have whole: "whole_second clock mod 1000000 = 0" by (simp add: whole_second_def minus_mod_eq_mult_div)
  have ready: "execution_ok env (if name = ''reboot_system'' then r else signed_row (signer_at env v) r)"
    if "uuid_version i = Some 4" "uuid_version nonce = Some 4"
  proof (cases "name = ''reboot_system''")
    case True
    then show ?thesis using assms that whole
      by (auto simp: execution_ok_def r_def ACKNOWLEDGED_def final_report_def)
  next
    case False
    have "authentic env (signed_row (signer_at env v) r)"
      using False by (intro authentic_signed) (simp_all add: r_def signer_at_def)
    then show ?thesis using assms that whole False
      by (auto simp: execution_ok_def r_def ACKNOWLEDGED_def final_report_def)
  qed
  show ?thesis
  proof (cases "uuid_version i = Some 4 \<and> uuid_version nonce = Some 4")
    case True
    with keeps_action_create [OF ready] show ?thesis
      unfolding request_action_def Let_def r_def [symmetric] by simp
  qed (auto simp: request_action_def)
qed

text \<open>What one operation keeps, any run keeps.\<close>

lemma exec_action_from: "actions_ok env db \<Longrightarrow> actions_from env db (exec_action env op db)"
proof -
  assume ok: "actions_ok env db"
  then have start: "actions_from env db db" by (simp add: actions_from_def actions_upto_refl)
  have by_keeps: "actions_from env db (snd (m db))" if "keeps (actions_from env db) m" for m :: "'a seff"
    by (rule keepsD [OF that start])
  show ?thesis
  proof (cases op)
    case (RequestAction v cl clock i nonce org device actor name ps)
    then show ?thesis using start
      by (cases "action_request name ps") (auto simp: checked_def raise_def intro!: by_keeps keeps_action_request)
  next
    case (RecordResult cl org dev i tok result now)
    then show ?thesis using start
      by (cases "action_result_create result") (auto simp: checked_def raise_def intro!: by_keeps keeps_action_record)
  next
    case (OtherTables other)
    then show ?thesis using ok by (simp add: actions_from_def actions_ok_def actions_upto_def table_evolves_refl)
  qed (simp_all add: by_keeps keeps_rules)
qed

interpretation remote: monotone_system "exec_action env" "actions_ok env" actions_upto
proof unfold_locales
  show "actions_ok env (exec_action env p s)" if "actions_ok env s" for p s
    using exec_action_from [OF that] by (simp add: actions_from_def)
  show "actions_upto s (exec_action env p s)" if "actions_ok env s" for p s
    using exec_action_from [OF that] by (simp add: actions_from_def)
qed (auto intro: actions_upto_refl actions_upto_trans)

lemma run_actions_from: "actions_ok env db \<Longrightarrow> actions_from env db (run_actions env ops db)"
  by (simp add: actions_from_def run_actions_def remote.run_good remote.run_upto)

section \<open>One row per request\<close>

lemma the_row:
  assumes "actions_ok env db" and "r \<in> set (executions db)" and "the_execution org dev i r"
    and "x \<in> set (executions db)" and "the_execution org dev i x"
  shows "x = r"
  using assms unique_by_eqD [of execution_key "executions db" x r]
  by (auto simp: actions_ok_def the_execution_def of_device_def)

lemma find_the:
  assumes "actions_ok env db" and "r \<in> set (executions db)" and "the_execution org dev i r"
  shows "find_execution (the_execution org dev i) db = Some r"
proof -
  have "select_where (the_execution org dev i) (executions db) \<noteq> []"
    using assms(2,3) by (auto simp: select_where_def filter_empty_conv)
  then obtain x where x: "find_execution (the_execution org dev i) db = Some x"
    unfolding find_execution_def by (metis first_row_None not_None_eq)
  then have "x \<in> set (executions db)" "the_execution org dev i x"
    by (auto simp: find_execution_def dest: first_row_SomeD)
  with the_row [OF assms this] x show ?thesis by simp
qed

lemma no_update:
  assumes "\<not> Q r" and "\<And>x. x \<in> set (executions db) \<Longrightarrow> Q x \<Longrightarrow> x = r"
  shows "update_executions Q f db = (Inr 0, db)"
proof -
  have none: "\<not> Q x" if "x \<in> set (executions db)" for x using assms that by blast
  then have "\<not> list_ex (\<lambda>x. Q x \<and> \<not> execution_checks db (f x)) (executions db)"
    "update_where Q f (executions db) = executions db" "rowcount Q (executions db) = 0"
    by (auto simp: list_ex_iff update_where_id rowcount_def filter_empty_conv)
  then show ?thesis by (simp add: update_executions_def bindE_def reads_def writes_def ret_def)
qed

text \<open>What the operations of an agent answer when no row is theirs to change.\<close>

lemma acknowledge_refused:
  assumes ok: "actions_ok env db" and r: "r \<in> set (executions db)" "the_execution org dev i r"
    and "\<not> acknowledgeable org dev i tok now db r"
  shows "acknowledge_action cl org dev i tok now db
    = (if ex_status r = ACCEPTED \<and> ex_token r = Some tok then Inr True else Inl SupportConflict, db)"
proof -
  have quiet: "update_executions (acknowledgeable org dev i tok now db) f db = (Inr 0, db)" for f
    using assms(4) the_row [OF ok r] by (intro no_update [of _ r]) (auto simp: acknowledgeable_def)
  show ?thesis
    by (simp add: acknowledge_action_def txn_def txn_by_def bindE_def reads_def quiet find_the [OF ok r] ret_def raise_def)
qed

lemma record_refused:
  assumes ok: "actions_ok env db" and r: "r \<in> set (executions db)" "the_execution org dev i r"
    and "\<not> reportable org dev i tok (RESULT_STATUS (ar_status result)) now db r"
  shows "record_action_result digest cl org dev i tok result now db
    = (if ex_status r = RESULT_STATUS (ar_status result) \<and> ex_token r = Some tok \<and> ex_digest r = Some (digest result)
       then Inr True else Inl SupportConflict, db)"
proof -
  have quiet: "update_executions (reportable org dev i tok (RESULT_STATUS (ar_status result)) now db) f db = (Inr 0, db)" for f
    using assms(4) the_row [OF ok r] by (intro no_update [of _ r]) (auto simp: reportable_def)
  show ?thesis
    by (simp add: record_action_result_def Let_def txn_def txn_by_def bindE_def reads_def quiet find_the [OF ok r]
      ret_def raise_def)
qed

text \<open>What holds of the row after they answered.\<close>

lemma update_executions_run:
  assumes "update_executions P f db = (Inr n, db')"
  shows "db' = db\<lparr>executions := update_where P f (executions db)\<rparr>" "n = rowcount P (executions db)"
  using assms by (auto simp: update_executions_def run_iffs split: if_splits)

lemma audit_run: "audit_call cl org a ty act rt r ds db = (Inr u, db') \<Longrightarrow> executions db' = executions db"
  using wp_InrD [OF wp_audit_call [of "\<lambda>_ _. True" db "\<lambda>_ s. executions s = executions db"]] by simp

lemma find_executionD: "find_execution P db = Some r \<Longrightarrow> r \<in> set (executions db) \<and> P r"
  by (auto simp: find_execution_def dest: first_row_SomeD)

lemma acknowledged_row:
  assumes "acknowledge_action cl org dev i tok now db = (Inr b, db')"
  obtains r where "r \<in> set (executions db')" "the_execution org dev i r" "ex_token r = Some tok"
proof -
  from assms obtain n db1 where
    upd: "update_executions (acknowledgeable org dev i tok now db) (accepted_row tok now) db = (Inr n, db1)"
    and rest: "if n = 1 then (\<exists>u. audit_call cl org dev ''AGENT'' ''REMOTE_ACTION.ACCEPTED'' ''action_execution'' i [] db1 = (Inr u, db'))
      else \<exists>r. find_execution (the_execution org dev i) db1 = Some r \<and> ex_token r = Some tok \<and> db' = db1"
    by (auto simp: acknowledge_action_def txn_def txn_by_def run_iffs split: prod.splits sum.splits if_splits option.splits)
  note run = update_executions_run [OF upd]
  show thesis
  proof (cases "n = 1")
    case True
    then obtain x where x: "x \<in> set (executions db)" "acknowledgeable org dev i tok now db x"
      using run(2) rowcount_pos_iff [of "acknowledgeable org dev i tok now db" "executions db"] by auto
    have same: "executions db' = executions db1" using rest True by (auto dest: audit_run)
    show thesis
      by (rule that [of "accepted_row tok now x"])
        (use x in \<open>auto simp: same run(1) set_update_where accepted_row_def acknowledgeable_def the_execution_def of_device_def\<close>)
  next
    case False
    then show thesis using rest that by (auto dest: find_executionD)
  qed
qed

lemma reported_result:
  assumes "record_action_result digest cl org dev i tok result now db = (Inr b, db')"
  obtains r where "r \<in> set (executions db')" "the_execution org dev i r" "ex_token r = Some tok"
    "ex_status r = RESULT_STATUS (ar_status result)" "ex_digest r = Some (digest result)"
proof -
  let ?st = "RESULT_STATUS (ar_status result)"
  from assms obtain n db1 where
    upd: "update_executions (reportable org dev i tok ?st now db) (reported_row digest result now) db = (Inr n, db1)"
    and rest: "if n = 1 then (\<exists>u. audit_call cl org dev ''AGENT'' ''REMOTE_ACTION.RESULT_RECORDED'' ''action_execution'' i
        [(''status'', execution_text ?st)] db1 = (Inr u, db'))
      else \<exists>r. find_execution (the_execution org dev i) db1 = Some r \<and> ex_token r = Some tok
        \<and> ex_status r = ?st \<and> ex_digest r = Some (digest result) \<and> db' = db1"
    by (auto simp: record_action_result_def Let_def txn_def txn_by_def run_iffs split: prod.splits sum.splits if_splits option.splits)
  note run = update_executions_run [OF upd]
  show thesis
  proof (cases "n = 1")
    case True
    then obtain x where x: "x \<in> set (executions db)" "reportable org dev i tok ?st now db x"
      using run(2) rowcount_pos_iff [of "reportable org dev i tok ?st now db" "executions db"] by auto
    have same: "executions db' = executions db1" using rest True by (auto dest: audit_run)
    show thesis
      by (rule that [of "reported_row digest result now x"])
        (use x in \<open>auto simp: same run(1) set_update_where reported_row_def reportable_def the_execution_def of_device_def Let_def\<close>)
  next
    case False
    then show thesis using rest that by (auto dest: find_executionD)
  qed
qed

section \<open>Properties\<close>

lemma actions_okD: "actions_ok env db \<Longrightarrow> r \<in> set (executions db) \<Longrightarrow> execution_ok env r"
  by (simp add: actions_ok_def list_all_iff)

lemma later_row:
  assumes "actions_ok env db" and "r \<in> set (executions db)"
  obtains r' where "r' \<in> set (executions (run_actions env ops db))" "execution_step r r'"
    "actions_ok env (run_actions env ops db)"
  using run_actions_from [OF assms(1), of ops] table_evolves_row [OF _ assms(2)]
  unfolding actions_from_def actions_upto_def by blast

lemma acknowledged_status: "execution_ok env r \<Longrightarrow> ex_token r = Some t \<Longrightarrow> ex_status r \<in> ACKNOWLEDGED"
  by (simp add: execution_ok_def)

text \<open>
  Property C35. Over any sequence of requests, approvals, polls, acknowledgements and results of any
  organisations, in any order and with any signing key versions, no action disappears, its order never
  changes, its state only moves forward, whatever was signed stays as it was signed once it is
  dispatched, and an action that has ended (completed, failed, interrupted, unknown or timed out) never
  changes again. Every row stays well formed: beyond the approval each carries the signature of its
  key over its own contents, a reboot has an approver, validity is five minutes, and exactly the
  acknowledged ones have a token.
\<close>

theorem action_lifecycle:
  assumes "actions_ok env db"
  shows "actions_ok env (run_actions env ops db)
    \<and> table_evolves execution_step (executions db) (executions (run_actions env ops db))
    \<and> {r \<in> set (executions db). rank (ex_status r) = 4} \<subseteq> set (executions (run_actions env ops db))"
proof -
  have "r \<in> set (executions (run_actions env ops db))" if "r \<in> set (executions db)" "rank (ex_status r) = 4" for r
    using that by (auto elim!: later_row [OF assms, where ops = ops] simp: execution_step_def)
  then show ?thesis using run_actions_from [OF assms, of ops] by (auto simp: actions_from_def actions_upto_def)
qed

lemma poll_run:
  assumes "poll_actions org dev now limit db = (Inr rows, db')"
  shows "rows = take limit (order_by ex_issued (order_by ex_id (select_where (pollable org dev now) (executions db'))))"
    and "executions db' = update_where (overdue org dev now) (\<lambda>r. r\<lparr>ex_status := TIMED_OUT\<rparr>) (executions db)"
proof -
  from assms obtain n where upd: "update_executions (overdue org dev now) (\<lambda>r. r\<lparr>ex_status := TIMED_OUT\<rparr>) db = (Inr n, db')"
    and rows: "rows = take limit (order_by ex_issued (order_by ex_id (select_where (pollable org dev now) (executions db'))))"
    by (auto simp: poll_actions_def txn_def txn_by_def run_iffs split: prod.splits sum.splits)
  from rows show "rows = take limit (order_by ex_issued (order_by ex_id (select_where (pollable org dev now) (executions db'))))" .
  show "executions db' = update_where (overdue org dev now) (\<lambda>r. r\<lparr>ex_status := TIMED_OUT\<rparr>) (executions db)"
    using update_executions_run(1) [OF upd] by simp
qed

text \<open>
  Property C36. What an agent is handed: after any history, a poll returns at most as many actions as
  asked for, oldest first, and only actions of that device which are dispatched and not yet expired,
  carry the signature of their key over exactly their contents, come from a request that passed
  validation, and, if they reboot the machine, were approved. Afterwards no expired action of the
  device is left dispatched.
\<close>

theorem polled_actions_authentic:
  assumes "actions_ok env db" and "poll_actions org dev now limit (run_actions env ops db) = (Inr rows, db')"
  shows "length rows \<le> limit \<and> sorted (map ex_issued rows)
    \<and> list_all (\<lambda>r. ex_org r = org \<and> ex_device r = dev \<and> ex_status r = DISPATCHED \<and> now < ex_expires r
        \<and> authentic env r \<and> (ex_name r = ''reboot_system'' \<longrightarrow> ex_approver r \<noteq> None)
        \<and> (\<exists>raw. action_request (ex_name r) raw = Some (ex_parameters r))) rows
    \<and> list_all (\<lambda>r. of_device org dev r \<and> ex_status r = DISPATCHED \<longrightarrow> now < ex_expires r) (executions db')"
proof -
  have "actions_from env db (run_actions env ops db)" by (rule run_actions_from [OF assms(1)])
  from keepsD [OF keeps_action_poll this, of org dev now limit] have ok: "actions_ok env db'"
    by (simp add: assms(2) actions_from_def)
  note run = poll_run [OF assms(2)]
  have members: "r \<in> set (executions db') \<and> of_device org dev r \<and> ex_status r = DISPATCHED \<and> now < ex_expires r"
    if "r \<in> set rows" for r
    using that unfolding run(1) by (auto simp: pollable_def dest!: in_set_takeD)
  have "sorted (map ex_issued (order_by ex_issued xs))" for xs by (simp add: order_by_def)
  then have "sorted (map ex_issued rows)" unfolding run(1) take_map [symmetric] by (rule sorted_wrt_take)
  moreover have "length rows \<le> limit" by (simp add: run(1))
  moreover have "list_all (\<lambda>r. ex_org r = org \<and> ex_device r = dev \<and> ex_status r = DISPATCHED \<and> now < ex_expires r
        \<and> authentic env r \<and> (ex_name r = ''reboot_system'' \<longrightarrow> ex_approver r \<noteq> None)
        \<and> (\<exists>raw. action_request (ex_name r) raw = Some (ex_parameters r))) rows"
    using ok members by (fastforce simp: list_all_iff actions_ok_def execution_ok_def of_device_def)
  moreover have "list_all (\<lambda>r. of_device org dev r \<and> ex_status r = DISPATCHED \<longrightarrow> now < ex_expires r) (executions db')"
    by (auto simp: run(2) list_all_iff set_update_where overdue_def)
  ultimately show ?thesis by blast
qed

text \<open>
  Property C37. One machine token carries an action: once an acknowledgement with a token has answered,
  no later acknowledgement and no result with another token is ever accepted, whatever happens in
  between; each is a conflict that changes nothing.
\<close>

theorem one_acknowledger:
  assumes "actions_ok env db" and "acknowledge_action cl org dev i tok now db = (Inr b, db1)" and "tok' \<noteq> tok"
  shows "let db' = run_actions env ops db1 in
    acknowledge_action cl' org dev i tok' now' db' = (Inl SupportConflict, db')
    \<and> record_action_result digest cl' org dev i tok' result now' db' = (Inl SupportConflict, db')"
proof -
  have "actions_from env db (snd (acknowledge_action cl org dev i tok now db))"
    by (rule keepsD [OF keeps_action_acknowledge]) (simp add: actions_from_def assms(1) actions_upto_refl)
  then have ok: "actions_ok env db1" by (simp add: assms(2) actions_from_def)
  obtain r where r: "r \<in> set (executions db1)" "the_execution org dev i r" "ex_token r = Some tok"
    by (rule acknowledged_row [OF assms(2)])
  obtain r' where r': "r' \<in> set (executions (run_actions env ops db1))" "execution_step r r'"
    "actions_ok env (run_actions env ops db1)" by (rule later_row [OF ok r(1)])
  have tok: "ex_token r' = Some tok" and own: "the_execution org dev i r'"
    using r r'(2) by (auto simp: execution_step_def same_order_def the_execution_def of_device_def)
  have "ex_status r' \<noteq> DISPATCHED"
    using acknowledged_status [OF actions_okD [OF r'(3,1)] tok] by (auto simp: ACKNOWLEDGED_def)
  then have no: "\<not> acknowledgeable org dev i tok' now' (run_actions env ops db1) r'"
    "\<not> reportable org dev i tok' (RESULT_STATUS (ar_status result)) now' (run_actions env ops db1) r'"
    and differ: "ex_token r' \<noteq> Some tok'"
    using tok assms(3) by (simp_all add: acknowledgeable_def reportable_def)
  show ?thesis
    unfolding Let_def acknowledge_refused [OF r'(3,1) own no(1)] record_refused [OF r'(3,1) own no(2)]
    by (simp only: differ simp_thms if_False)
qed

text \<open>
  Property C38. The outcome of an action is settled once: after a result that ends the action was
  accepted, the same report is answered as a repetition for ever, any other report is a conflict, and
  neither changes anything.
\<close>

theorem final_result_settled:
  assumes "actions_ok env db" and "record_action_result (ae_digest env) cl org dev i tok result now db = (Inr b, db1)"
    and "final_report (RESULT_STATUS (ar_status result))"
  shows "let db' = run_actions env ops db1 in
    record_action_result (ae_digest env) cl' org dev i tok result' now' db'
    = (if RESULT_STATUS (ar_status result') = RESULT_STATUS (ar_status result)
         \<and> ae_digest env result' = ae_digest env result then Inr True else Inl SupportConflict, db')"
proof -
  have "actions_from env db (snd (record_action_result (ae_digest env) cl org dev i tok result now db))"
    by (rule keepsD [OF keeps_action_record]) (simp add: actions_from_def assms(1) actions_upto_refl)
  then have ok: "actions_ok env db1" by (simp add: assms(2) actions_from_def)
  obtain r where r: "r \<in> set (executions db1)" "the_execution org dev i r" "ex_token r = Some tok"
    "ex_status r = RESULT_STATUS (ar_status result)" "ex_digest r = Some (ae_digest env result)"
    by (rule reported_result [OF assms(2)])
  have "rank (ex_status r) = 4" using assms(3) by (auto simp: r(4) final_report_def)
  with later_row [OF ok r(1), where ops = ops]
  have later: "r \<in> set (executions (run_actions env ops db1))" "actions_ok env (run_actions env ops db1)"
    unfolding execution_step_def by blast+
  have "ex_status r \<notin> allowed_sources (RESULT_STATUS (ar_status result'))"
    using assms(3) by (auto simp: r(4) allowed_sources_def final_report_def)
  then show ?thesis
    using record_refused [OF later(2,1) r(2), of tok result' now' "ae_digest env" cl'] r(3-5)
    by (auto simp: Let_def reportable_def)
qed

section \<open>Concrete runs\<close>

definition demo_keys :: action_env where
  "demo_keys = \<lparr>ae_dumps = (\<lambda>_. ''{}''), ae_sign = (\<lambda>_ _. replicate 64 0), ae_digest = (\<lambda>_. replicate 32 1)\<rparr>"

definition no_trace :: trace where
  "no_trace = \<lparr>tr_ip = None, tr_agent = None\<rparr>"

definition demo_request_call :: "uuid \<Rightarrow> call" where
  "demo_request_call i = \<lparr>cl_now = 0, cl_audit = i, cl_trace = no_trace, cl_inet = (\<lambda>_. True)\<rparr>"

definition demo_v4 :: uuid where
  "demo_v4 = 0x40008000000000000003"

definition demo_tables :: support_db where
  "demo_tables = \<lparr>known_devices = [(10, 20)], known_members = [(10, 1)], known_alerts = [],
     machine_tokens = [\<lparr>mt_org = 10, mt_device = 20, mt_id = 5, mt_revoked = False, mt_expires = None\<rparr>],
     tickets = [], comments = [], attachments = [], executions = [], outbox = [], trail = []\<rparr>"

definition demo_flush :: action_op where
  "demo_flush = RequestAction 1 (demo_request_call 7) 1000000 demo_v4 demo_v4 10 20 1 ''flush_dns'' []"

definition demo_dispatched :: support_db where
  "demo_dispatched = run_actions demo_keys [demo_flush] demo_tables"

lemma demo_actions_ok: "actions_ok demo_keys demo_tables"
  by (simp add: actions_ok_def demo_tables_def unique_by_def)

lemma demo_dispatched_ok: "actions_ok demo_keys demo_dispatched"
  unfolding demo_dispatched_def using run_actions_from [OF demo_actions_ok] by (simp add: actions_from_def)

definition demo_result :: action_result where
  "demo_result = \<lparr>ar_status = R_SUCCEEDED, ar_exit = Some 0, ar_output = None\<rparr>"

definition demo_acknowledged :: support_db where
  "demo_acknowledged = snd (acknowledge_action (demo_request_call 8) 10 20 demo_v4 5 2000000 demo_dispatched)"

lemma demo_scenario:
  "(let db = demo_dispatched;
        (polled, _) = poll_actions 10 20 1500000 5 db;
        (acknowledged, db1) = acknowledge_action (demo_request_call 8) 10 20 demo_v4 5 2000000 db;
        (reported, _) = record_action_result (ae_digest demo_keys) (demo_request_call 9) 10 20 demo_v4 5 demo_result 3000000 db1
    in (map_sum id (map ex_id) polled, acknowledged, reported)) = (Inr [demo_v4], Inr False, Inr False)"
  by code_simp

lemma demo_answers:
  "map_sum id (map ex_id) (fst (poll_actions 10 20 1500000 5 demo_dispatched)) = Inr [demo_v4]"
  "fst (acknowledge_action (demo_request_call 8) 10 20 demo_v4 5 2000000 demo_dispatched) = Inr False"
  "fst (record_action_result (ae_digest demo_keys) (demo_request_call 9) 10 20 demo_v4 5 demo_result 3000000
    demo_acknowledged) = Inr False"
  using demo_scenario by (auto simp: Let_def demo_acknowledged_def split: prod.splits)

lemma demo_acknowledged_ok: "actions_ok demo_keys demo_acknowledged"
  using keepsD [OF keeps_action_acknowledge, of demo_keys demo_dispatched demo_dispatched] demo_dispatched_ok
  by (simp add: demo_acknowledged_def actions_from_def actions_upto_refl)

lemma action_lifecycle_witness:
  "table_evolves execution_step (executions demo_dispatched) (executions (run_actions demo_keys
      [PollActions 10 20 2000000 5, AcknowledgeAction (demo_request_call 8) 10 20 demo_v4 5 2000000] demo_dispatched))"
  using action_lifecycle [OF demo_dispatched_ok] by blast

lemma polled_actions_authentic_witness:
  "\<exists>r db'. poll_actions 10 20 1500000 5 demo_dispatched = (Inr [r], db') \<and> ex_id r = demo_v4 \<and> authentic demo_keys r"
proof -
  obtain res db' where poll: "poll_actions 10 20 1500000 5 demo_dispatched = (res, db')" by (cases "poll_actions 10 20 1500000 5 demo_dispatched")
  obtain r where r: "res = Inr [r]" "ex_id r = demo_v4"
    using demo_answers(1) by (cases res) (auto simp: poll)
  from polled_actions_authentic [OF demo_actions_ok, of 10 20 1500000 5 "[demo_flush]" "[r]" db']
  have "authentic demo_keys r" using poll r by (simp add: demo_dispatched_def)
  then show ?thesis using poll r by blast
qed

lemma one_acknowledger_witness:
  "acknowledge_action (demo_request_call 9) 10 20 demo_v4 6 2500000 demo_acknowledged = (Inl SupportConflict, demo_acknowledged)"
proof -
  have run: "acknowledge_action (demo_request_call 8) 10 20 demo_v4 5 2000000 demo_dispatched = (Inr False, demo_acknowledged)"
    unfolding demo_acknowledged_def using demo_answers(2) by (metis prod.collapse)
  show ?thesis
    using one_acknowledger [OF demo_dispatched_ok run, of 6 "[]" "demo_request_call 9" 2500000 "\<lambda>_. []" demo_result]
    by (simp add: run_actions_def Let_def)
qed

lemma final_result_settled_witness:
  "\<exists>db1. fst (record_action_result (ae_digest demo_keys) (demo_request_call 9) 10 20 demo_v4 5 demo_result 3000000
      demo_acknowledged) = Inr False
    \<and> record_action_result (ae_digest demo_keys) (demo_request_call 9) 10 20 demo_v4 5 demo_result 9000000
      (run_actions demo_keys [demo_flush] db1) = (Inr True, run_actions demo_keys [demo_flush] db1)"
proof -
  obtain db1 where run: "record_action_result (ae_digest demo_keys) (demo_request_call 9) 10 20 demo_v4 5 demo_result 3000000
      demo_acknowledged = (Inr False, db1)"
    using demo_answers(3) by (metis prod.collapse)
  show ?thesis
    using final_result_settled [OF demo_acknowledged_ok run, of "[demo_flush]" "demo_request_call 9" demo_result 9000000] run
    by (auto simp: demo_result_def final_report_def Let_def)
qed

end
