(* ===== verification/Remote_Actions.thy ===== *)
theory Remote_Actions
  imports Agent_Runtime Support_Actions
begin

text \<open>
  Remote actions from end to end: the response in which the server lists polled actions
  (\<open>_action_response\<close> in \<open>backend/app/api/support.py\<close>), read by the agent
  (\<open>poll_and_execute_actions\<close> in \<open>agent/run_agent.py\<close>) and offered to its gate
  (\<open>agent/nexus_agent/actions.py\<close>).

  The two sides were written apart: each has its own signing payload, timestamps and canonical JSON.
  The theorems here say that they fit, and that nothing else fits. The transport keeps the values of
  the response; \<open>digest_hex\<close> is SHA-256 on both sides.
\<close>

section \<open>The response\<close>

definition json_of :: "string option \<Rightarrow> json" where
  "json_of x = (case x of None \<Rightarrow> JNull | Some s \<Rightarrow> JStr s)"

definition action_response :: "(bytes \<Rightarrow> string) \<Rightarrow> execution_row \<Rightarrow> params" where
  "action_response sha r =
     [(''organization_id'', JStr (uuid_str (ex_org r))), (''id'', JStr (uuid_str (ex_id r))),
      (''device_id'', JStr (uuid_str (ex_device r))), (''action_name'', JStr (ex_name r)),
      (''nonce'', JStr (uuid_str (ex_nonce r))),
      (''key_version'', case ex_key r of None \<Rightarrow> JNull | Some k \<Rightarrow> JInt k),
      (''issued_at'', JStr (utc_stamp (ex_issued r))), (''expires_at'', JStr (utc_stamp (ex_expires r))),
      (''signature'', json_of (ex_signature r)), (''parameters'', JObj (ex_parameters r)),
      (''parameters_canonical'', JStr (ex_canonical r)), (''action_version'', JInt 1),
      (''order_digest'', json_of (map_option sha (build_action_signing_payload r))),
      (''status'', JStr (execution_text (ex_status r)))]"

text \<open>The order the agent reads from it.\<close>

definition order_of_row :: "(bytes \<Rightarrow> string) \<Rightarrow> execution_row \<Rightarrow> int \<Rightarrow> string \<Rightarrow> bytes \<Rightarrow> action_order" where
  "order_of_row sha r k signature payload = \<lparr>o_execution_id = ex_id r, o_organization_id = ex_org r, o_device_id = ex_device r,
     o_nonce = ex_nonce r, o_action_name = ex_name r, o_action_version = 1, o_key_version = k,
     o_issued_at = utc_stamp (ex_issued r), o_expires_at = utc_stamp (ex_expires r), o_order_digest = sha payload,
     o_signature = signature, o_parameters = ex_canonical r\<rparr>"

lemma response_read:
  assumes "ex_key r = Some k" and "ex_signature r = Some signature" and "build_action_signing_payload r = Some payload"
  shows "order_of_item renv (uuid_str (ex_device r)) (action_response sha r) = Some (order_of_row sha r k signature payload)"
  using assms by (simp add: order_of_item_def text_or_none_def version_field_def field_def action_response_def py_str_def
      uuid_of_uuid_str order_of_row_def json_of_def)

lemma same_payload:
  assumes "ex_key r = Some k" and "build_action_signing_payload r = Some payload"
  shows "build_signing_payload (order_of_row sha r k signature payload) = payload"
  using assms by (simp add: build_signing_payload_def signed_lines_def build_action_signing_payload_def payload_lines_def
      order_of_row_def)

section \<open>Validated parameters\<close>

lemma requested_name: "action_request name raw = Some ps \<Longrightarrow> name \<in> set ACTION_CATALOG"
  by (auto simp: action_request_def ACTION_CATALOG_def split: if_splits)

lemma requested_scalars: "action_request name raw = Some ps \<Longrightarrow> list_all (\<lambda>(_, v). scalar v) ps"
  by (auto simp: action_request_def restart_parameters_def flush_parameters_def diagnostics_parameters_def
      reboot_parameters_def scalar_def split: if_splits option.splits json.splits)

section \<open>Trust\<close>

text \<open>
  The agent holds, under the version, the public key of the server's signing key; Ed25519 verifies
  what was signed, and signatures have 64 bytes.
\<close>

definition trusts :: "Support_Actions.action_env \<Rightarrow> Agent_Actions.action_env \<Rightarrow> (int \<rightharpoonup> bytes) \<Rightarrow> int \<Rightarrow> bool" where
  "trusts senv aenv keys k \<longleftrightarrow> 1 \<le> k \<and> (\<exists>pub. keys k = Some pub \<and> length pub = 32
     \<and> (\<forall>p. ed25519_verify aenv pub (ae_sign senv k p) p \<and> length (ae_sign senv k p) = 64))"

text \<open>The server writes parameters as the agent reads them and would write them.\<close>

definition same_json :: "Support_Actions.action_env \<Rightarrow> Agent_Actions.action_env \<Rightarrow> params \<Rightarrow> bool" where
  "same_json senv aenv ps \<longleftrightarrow> json_loads aenv (ae_dumps senv ps) = Some (JObj ps) \<and> json_dumps aenv ps = ae_dumps senv ps"

lemma authentic_row:
  assumes "execution_ok senv r" and "ex_status r \<noteq> PENDING_APPROVAL"
  obtains k payload where "ex_key r = Some k" "build_action_signing_payload r = Some payload"
    "ex_signature r = Some (unpadded (urlsafe_b64encode (ae_sign senv k payload)))"
  using assms unfolding execution_ok_def authentic_def by blast

lemma authentic_order_verifies:
  assumes ok: "execution_ok senv r" and row: "ex_key r = Some k" "build_action_signing_payload r = Some payload"
    and key: "keys k = Some pub" "length pub = 32" "ed25519_verify aenv pub (ae_sign senv k payload) payload"
      "length (ae_sign senv k payload) = 64"
    and years: "four_digit_years (ex_issued r div 1000000)" "four_digit_years (ex_expires r div 1000000)"
    and clock: "ex_issued r \<le> n + 60 * 1000000" "n \<le> ex_expires r + 60 * 1000000"
  shows "verify_order_signature aenv (order_of_row sha r k (unpadded (urlsafe_b64encode (ae_sign senv k payload))) payload)
    keys (Some n) 60 = Inr (ex_expires r div 1000000)"
proof -
  let ?sig = "ae_sign senv k payload"
  have decoded: "urlsafe_b64decode (unpadded (urlsafe_b64encode ?sig) @ ''=='') = Some ?sig"
    by (rule b64_roundtrip) (simp add: key(4))
  obtain q where q: "ex_issued r = q * 1000000"
    using ok unfolding execution_ok_def by (metis mod_0_imp_dvd dvd_div_mult_self)
  have e: "ex_expires r = (q + 300) * 1000000"
    using ok q by (simp add: execution_ok_def FIVE_MINUTES_def)
  let ?ord = "order_of_row sha r k (unpadded (urlsafe_b64encode ?sig)) payload"
  have "parse_utc (utc_stamp (ex_issued r)) = Some q" "parse_utc (utc_stamp (ex_expires r)) = Some (q + 300)"
    using parse_utc_text [OF years(1)] parse_utc_text [OF years(2)] by (simp_all add: utc_stamp_def q e)
  then have fields: "parse_utc (o_issued_at ?ord) = Some q" "parse_utc (o_expires_at ?ord) = Some (q + 300)"
    "o_key_version ?ord = k" "urlsafe_b64decode (o_signature ?ord @ ''=='') = Some ?sig"
    using decoded by (simp_all only: order_of_row_def action_order.simps)
  show ?thesis
    unfolding verify_order_signature_def fields same_payload [OF row(1,2)] using key clock by (simp add: q e)
qed

lemma authentic_order_valid:
  assumes ok: "execution_ok senv r" and row: "ex_key r = Some k" "1 \<le> k" "build_action_signing_payload r = Some payload"
    and versions: "uuid_version (ex_org r) = Some 4" "uuid_version (ex_device r) = Some 4"
    and json: "same_json senv aenv (ex_parameters r)"
  shows "validate_order aenv (order_of_row (digest_hex aenv) r k signature payload) = Inr (ex_parameters r)"
proof -
  from ok obtain raw where raw: "action_request (ex_name r) raw = Some (ex_parameters r)"
    and canonical: "ex_canonical r = ae_dumps senv (ex_parameters r)"
    and ids: "uuid_version (ex_id r) = Some 4" "uuid_version (ex_nonce r) = Some 4"
    unfolding execution_ok_def by blast
  note fits = requested_name [OF raw] requested_scalars [OF raw] json [unfolded same_json_def]
  have digest: "o_order_digest (order_of_row (digest_hex aenv) r k signature payload)
      = digest_hex aenv (build_signing_payload (order_of_row (digest_hex aenv) r k signature payload))"
    by (simp only: same_payload [OF row(1,3)]) (simp add: order_of_row_def)
  show ?thesis
    unfolding validate_order_def digest [symmetric]
    using fits ids versions row(2) by (simp add: order_of_row_def canonical uuid_str_lower)
qed

section \<open>From the request to the gate and back\<close>

lemma polled_row:
  assumes "actions_ok senv db" and "poll_actions org dev now limit db = (Inr rows, db')" and "r \<in> set rows"
  shows "execution_ok senv r" "ex_status r = DISPATCHED" "ex_org r = org" "ex_device r = dev"
proof -
  have "actions_from senv db (snd (poll_actions org dev now limit db))"
    by (rule keepsD [OF keeps_action_poll]) (simp add: actions_from_def assms(1) actions_upto_refl)
  then have ok: "actions_ok senv db'" by (simp add: assms(2) actions_from_def)
  have "r \<in> set (executions db') \<and> pollable org dev now r"
    using assms(3) unfolding poll_run(1) [OF assms(2)] by (auto dest!: in_set_takeD)
  then show "execution_ok senv r" "ex_status r = DISPATCHED" "ex_org r = org" "ex_device r = dev"
    using actions_okD [OF ok] by (auto simp: pollable_def of_device_def)
qed

text \<open>
  Property C39. What the server hands out the agent takes: after any history of requests, an action that
  a poll returns is read by the agent as an order which its gate accepts, provided the agent trusts
  the signing key, its clock lies in the validity of the action up to a minute, both sides write the
  parameters alike, identifiers have version 4, years have four digits, and neither the nonce nor the
  action was seen before. Payload, timestamps, base64 and digest of the two sides agree.
\<close>

theorem polled_action_accepted:
  assumes "actions_ok senv db" and "poll_actions org dev now limit (run_actions senv ops db) = (Inr rows, db')"
    and "r \<in> set rows"
    and "\<And>k. ex_key r = Some k \<Longrightarrow> trusts senv (r_actions renv) keys k" and "same_json senv (r_actions renv) (ex_parameters r)"
    and "uuid_version org = Some 4" "uuid_version dev = Some 4"
    and "four_digit_years (ex_issued r div 1000000)" "four_digit_years (ex_expires r div 1000000)"
    and "ex_issued r \<le> n + 60 * 1000000" "n \<le> ex_expires r + 60 * 1000000"
    and "ex_nonce r \<notin> cn_nonce ` set (as_nonces s)" "ex_id r \<notin> action_id ` set (as_actions s)"
    and "ex_nonce r \<notin> row_nonce ` set (as_actions s)"
  shows "\<exists>ord. order_of_item renv (uuid_str dev) (action_response (digest_hex (r_actions renv)) r) = Some ord
    \<and> o_execution_id ord = ex_id r \<and> o_action_name ord = ex_name r
    \<and> verify_and_accept (r_actions renv) ord keys (Some n) s = (Inr True, s\<lparr>
        as_nonces := as_nonces s @ [\<lparr>cn_nonce = ex_nonce r, cn_expires_at_with_skew = ex_expires r div 1000000 + 60\<rparr>],
        as_actions := as_actions s @ [new_action ord]\<rparr>)"
proof -
  let ?aenv = "r_actions renv"
  have "actions_ok senv (run_actions senv ops db)" using run_actions_from [OF assms(1)] by (simp add: actions_from_def)
  note row = polled_row [OF this assms(2,3)]
  have pending: "ex_status r \<noteq> PENDING_APPROVAL" by (simp add: row(2))
  obtain k payload where o: "ex_key r = Some k" "build_action_signing_payload r = Some payload"
    "ex_signature r = Some (unpadded (urlsafe_b64encode (ae_sign senv k payload)))"
    by (rule authentic_row [OF row(1) pending])
  from assms(4) [OF o(1)] obtain pub where key: "1 \<le> k" "keys k = Some pub" "length pub = 32"
    "ed25519_verify ?aenv pub (ae_sign senv k payload) payload" "length (ae_sign senv k payload) = 64"
    unfolding trusts_def by blast
  define signature where "signature = unpadded (urlsafe_b64encode (ae_sign senv k payload))"
  note verified = authentic_order_verifies [where keys = keys and k = k and pub = pub and aenv = ?aenv and payload = payload,
      OF row(1) o(1,2) key(2-5) assms(8-11), of "digest_hex ?aenv", folded signature_def]
  let ?ord = "order_of_row (digest_hex ?aenv) r k signature payload"
  have valid: "validate_order ?aenv ?ord = Inr (ex_parameters r)"
    by (rule authentic_order_valid [OF row(1) o(1) key(1) o(2) _ _ assms(5)]) (simp_all add: row(3,4) assms(6,7))
  have fields: "o_execution_id ?ord = ex_id r" "o_nonce ?ord = ex_nonce r" "o_action_name ?ord = ex_name r"
    by (simp_all add: order_of_row_def)
  have read: "order_of_item renv (uuid_str dev) (action_response (digest_hex ?aenv) r) = Some ?ord"
    using response_read [OF o(1) o(3) [folded signature_def] o(2), of renv "digest_hex ?aenv"] by (simp add: row(4))
  have accepted: "verify_and_accept ?aenv ?ord keys (Some n) s = (Inr True, s\<lparr>
        as_nonces := as_nonces s @ [\<lparr>cn_nonce = ex_nonce r, cn_expires_at_with_skew = ex_expires r div 1000000 + 60\<rparr>],
        as_actions := as_actions s @ [new_action ?ord]\<rparr>)"
    using assms(12-14) by (simp add: verify_and_accept_def verified accept_def valid fields eff_defs)
  show ?thesis using read accepted fields by blast
qed

text \<open>Only the server signs: a signature that verifies is one of a dispatched action.\<close>

definition only_server_signs :: "Agent_Actions.action_env \<Rightarrow> (int \<rightharpoonup> bytes) \<Rightarrow> support_db \<Rightarrow> bool" where
  "only_server_signs aenv keys db \<longleftrightarrow> (\<forall>pub\<in>ran keys. \<forall>signature payload. ed25519_verify aenv pub signature payload
     \<longrightarrow> (\<exists>r\<in>set (executions db). ex_status r \<noteq> PENDING_APPROVAL \<and> build_action_signing_payload r = Some payload))"

definition in_years :: "execution_row \<Rightarrow> bool" where
  "in_years r \<longleftrightarrow> four_digit_years (ex_issued r div 1000000) \<and> four_digit_years (ex_expires r div 1000000)"

lemma payload_lines_order:
  assumes ok: "execution_ok senv r" "in_years r" and row: "build_action_signing_payload r = Some (build_signing_payload ord)"
    and ord: "no_newline (o_action_name ord)" "no_newline (o_issued_at ord)" "no_newline (o_expires_at ord)"
  obtains k where "ex_key r = Some k" "payload_lines r k = signed_lines ord"
proof -
  obtain k where k: "ex_key r = Some k" "encode_utf8 (join_lines (payload_lines r k)) = build_signing_payload ord"
    using row by (auto simp: build_action_signing_payload_def)
  obtain raw where raw: "action_request (ex_name r) raw = Some (ex_parameters r)"
    using ok(1) unfolding execution_ok_def by blast
  have stamps: "no_newline (utc_stamp (ex_issued r))" "no_newline (utc_stamp (ex_expires r))"
    using ok(2) by (auto simp: in_years_def utc_stamp_def intro: parse_utc_no_newline [OF parse_utc_text])
  have "payload_lines r k = signed_lines ord"
  proof (rule join_lines_inj)
    show "join_lines (payload_lines r k) = join_lines (signed_lines ord)"
      using k(2) by (auto simp: build_signing_payload_def dest: encode_utf8_inj)
    show "list_all no_newline (butlast (payload_lines r k))"
      by (simp add: payload_lines_def no_newline_uuid no_newline_int stamps
          catalog_no_newline [OF requested_name [OF raw]]) (simp add: no_newline_def)
    show "list_all no_newline (butlast (signed_lines ord))"
      by (simp add: signed_lines_def no_newline_uuid no_newline_int ord) (simp add: no_newline_def)
  qed (simp_all add: payload_lines_def signed_lines_def)
  then show thesis using that k(1) by blast
qed

text \<open>
  Property C40. What the agent takes the server handed out: if only the server can sign, and the years of
  its actions have four digits, an order that
  the gate accepts, wherever it came from, is an action that was requested from this server with
  parameters that passed validation, for this organisation and device, with the same nonce and
  parameters, and, if it reboots the machine, approved by a member.
\<close>

theorem accepted_order_was_dispatched:
  assumes "actions_ok senv db" and "only_server_signs aenv keys (run_actions senv ops db)"
    and "list_all in_years (executions (run_actions senv ops db))"
    and "verify_and_accept aenv ord keys now s = (Inr True, s')"
  shows "\<exists>r\<in>set (executions (run_actions senv ops db)). ex_id r = o_execution_id ord
    \<and> ex_org r = o_organization_id ord \<and> ex_device r = o_device_id ord \<and> ex_nonce r = o_nonce ord
    \<and> ex_name r = o_action_name ord \<and> ae_dumps senv (ex_parameters r) = o_parameters ord
    \<and> (\<exists>raw. action_request (o_action_name ord) raw = Some (ex_parameters r))
    \<and> (o_action_name ord = ''reboot_system'' \<longrightarrow> ex_approver r \<noteq> None)"
proof -
  have ok: "actions_ok senv (run_actions senv ops db)" using run_actions_from [OF assms(1)] by (simp add: actions_from_def)
  obtain t ps where v: "verify_order_signature aenv ord keys now 60 = Inr t" and "validate_order aenv ord = Inr ps"
    using assms(4) by (auto simp: verify_and_accept_def accept_def raise_def split: sum.splits)
  note valid = validate_order_InrD [OF this(2)]
  obtain pub signature where signed: "pub \<in> ran keys" "ed25519_verify aenv pub signature (build_signing_payload ord)"
    and times: "no_newline (o_issued_at ord)" "no_newline (o_expires_at ord)"
    using verify_signature_InrD [OF v] by (metis parse_utc_no_newline ranI)
  obtain r where r: "r \<in> set (executions (run_actions senv ops db))" "ex_status r \<noteq> PENDING_APPROVAL"
    "build_action_signing_payload r = Some (build_signing_payload ord)"
    using assms(2) signed unfolding only_server_signs_def by blast
  note row = actions_okD [OF ok r(1)]
  have years: "in_years r" using assms(3) r(1) by (simp add: list_all_iff)
  have "no_newline (o_action_name ord)" using valid catalog_no_newline by blast
  then obtain k where lines: "payload_lines r k = signed_lines ord"
    using payload_lines_order [OF row years r(3) _ times] by blast
  then have fields: "ex_id r = o_execution_id ord" "ex_org r = o_organization_id ord" "ex_device r = o_device_id ord"
    "ex_nonce r = o_nonce ord" "ex_name r = o_action_name ord" "ex_canonical r = o_parameters ord"
    by (auto simp: payload_lines_def signed_lines_def dest: uuid_str_inj)
  show ?thesis
    by (rule bexI [OF _ r(1)]) (use row r(2) in \<open>simp add: fields execution_ok_def flip: fields\<close>)
qed

section \<open>A concrete exchange\<close>

definition e2e_org :: uuid where "e2e_org = 0x40008000000000000010"

definition e2e_device :: uuid where "e2e_device = 0x40008000000000000020"

definition e2e_tables :: support_db where
  "e2e_tables = \<lparr>known_devices = [(e2e_org, e2e_device)], known_members = [(e2e_org, 1)], known_alerts = [],
     machine_tokens = [], tickets = [], comments = [], attachments = [], executions = [], outbox = [], trail = []\<rparr>"

definition e2e_flush :: action_op where
  "e2e_flush = RequestAction 1 (demo_request_call 7) 1000000 demo_v4 demo_v4 e2e_org e2e_device 1 ''flush_dns'' []"

definition e2e_dispatched :: support_db where
  "e2e_dispatched = run_actions demo_keys [e2e_flush] e2e_tables"

definition e2e_agent :: "(bytes \<Rightarrow> bytes \<Rightarrow> bytes \<Rightarrow> bool) \<Rightarrow> Agent_Actions.action_env" where
  "e2e_agent verify = \<lparr>ed25519_verify = verify, digest_hex = (\<lambda>_. ''d''),
     json_loads = (\<lambda>s. if s = ''{}'' then Some (JObj []) else None), json_dumps = (\<lambda>_. ''{}'')\<rparr>"

definition e2e_runtime :: runtime_env where
  "e2e_runtime = \<lparr>r_actions = e2e_agent (\<lambda>_ signature _. signature = replicate 64 0), py_text = (\<lambda>_. ''''),
     int_of_float = (\<lambda>_. None)\<rparr>"

definition e2e_public :: "int \<rightharpoonup> bytes" where
  "e2e_public = [1 \<mapsto> replicate 32 0]"

definition e2e_store :: "unit action_store" where
  "e2e_store = \<lparr>as_nonces = [], as_actions = [], as_world = (), as_invoked = []\<rparr>"

lemma e2e_ok: "actions_ok demo_keys e2e_tables"
  by (simp add: actions_ok_def e2e_tables_def unique_by_def)

lemma e2e_rows: "map (\<lambda>r. (ex_id r, ex_status r, ex_org r, ex_device r, ex_key r, ex_parameters r, ex_issued r, ex_expires r,
      ex_signature r \<noteq> None)) (executions e2e_dispatched)
  = [(demo_v4, DISPATCHED, e2e_org, e2e_device, Some 1, [], 1000000, 301000000, True)]"
  by code_simp

lemma e2e_row:
  obtains r where "executions e2e_dispatched = [r]" "ex_id r = demo_v4" "ex_status r = DISPATCHED" "ex_org r = e2e_org"
    "ex_device r = e2e_device" "ex_key r = Some 1" "ex_parameters r = []" "ex_issued r = 1000000" "ex_expires r = 301000000"
    "ex_signature r \<noteq> None"
  using e2e_rows by (auto simp: map_eq_Cons_conv)

lemma e2e_poll:
  assumes "executions e2e_dispatched = [r]"
  obtains db' where "poll_actions e2e_org e2e_device 1500000 5 e2e_dispatched = (Inr [r], db')"
proof -
  have r: "pollable e2e_org e2e_device 1500000 r" "\<not> overdue e2e_org e2e_device 1500000 r"
    using e2e_rows assms by (auto simp: pollable_def overdue_def of_device_def)
  then show thesis using assms
    by (intro that) (simp add: poll_actions_def update_executions_def txn_def txn_by_def bindE_def reads_def writes_def
        ret_def update_where_def select_where_def order_by_def)
qed

lemma e2e_versions: "uuid_version e2e_org = Some 4 \<and> uuid_version e2e_device = Some 4"
  by code_simp

lemma e2e_years: "four_digit_years 1 \<and> four_digit_years 301"
  by code_simp

lemma e2e_trust: "trusts demo_keys (r_actions e2e_runtime) e2e_public 1"
  by (simp add: trusts_def e2e_runtime_def e2e_agent_def e2e_public_def demo_keys_def)

lemma e2e_json: "same_json demo_keys (e2e_agent verify) []"
  by (simp add: same_json_def e2e_agent_def demo_keys_def)

lemma polled_action_accepted_witness:
  "\<exists>r db' ord. poll_actions e2e_org e2e_device 1500000 5 e2e_dispatched = (Inr [r], db')
    \<and> order_of_item e2e_runtime (uuid_str e2e_device) (action_response (digest_hex (r_actions e2e_runtime)) r) = Some ord
    \<and> fst (verify_and_accept (r_actions e2e_runtime) ord e2e_public (Some 1600000) e2e_store) = Inr True"
proof -
  obtain r where rows: "executions e2e_dispatched = [r]" and r: "ex_id r = demo_v4" "ex_key r = Some 1"
    "ex_parameters r = []" "ex_issued r = 1000000" "ex_expires r = 301000000" by (rule e2e_row)
  obtain db' where poll: "poll_actions e2e_org e2e_device 1500000 5 e2e_dispatched = (Inr [r], db')"
    by (rule e2e_poll [OF rows])
  have "\<exists>ord. order_of_item e2e_runtime (uuid_str e2e_device) (action_response (digest_hex (r_actions e2e_runtime)) r) = Some ord
    \<and> o_execution_id ord = ex_id r \<and> o_action_name ord = ex_name r
    \<and> verify_and_accept (r_actions e2e_runtime) ord e2e_public (Some 1600000) e2e_store = (Inr True, e2e_store\<lparr>
        as_nonces := as_nonces e2e_store @ [\<lparr>cn_nonce = ex_nonce r, cn_expires_at_with_skew = ex_expires r div 1000000 + 60\<rparr>],
        as_actions := as_actions e2e_store @ [new_action ord]\<rparr>)"
  proof (rule polled_action_accepted [OF e2e_ok poll [unfolded e2e_dispatched_def]])
    show "trusts demo_keys (r_actions e2e_runtime) e2e_public k" if "ex_key r = Some k" for k
      using that e2e_trust by (simp add: r(2))
    show "same_json demo_keys (r_actions e2e_runtime) (ex_parameters r)"
      by (simp only: r(3) e2e_json e2e_runtime_def runtime_env.simps)
    show "uuid_version e2e_org = Some 4" "uuid_version e2e_device = Some 4" by (simp_all only: e2e_versions)
    show "four_digit_years (ex_issued r div 1000000)" "four_digit_years (ex_expires r div 1000000)"
      using e2e_years by (simp_all add: r(4,5))
    show "ex_issued r \<le> 1600000 + 60 * 1000000" "1600000 \<le> ex_expires r + 60 * 1000000"
      by (simp_all add: r(4,5))
  qed (simp_all add: e2e_store_def)
  then obtain ord where ord: "order_of_item e2e_runtime (uuid_str e2e_device)
      (action_response (digest_hex (r_actions e2e_runtime)) r) = Some ord"
    "fst (verify_and_accept (r_actions e2e_runtime) ord e2e_public (Some 1600000) e2e_store) = Inr True"
    by (metis fst_conv)
  show ?thesis by (intro exI conjI) (rule poll, rule ord(1), rule ord(2))
qed

text \<open>An agent whose Ed25519 verifies what the server signed, and only that.\<close>

definition e2e_strict :: Agent_Actions.action_env where
  "e2e_strict = e2e_agent (\<lambda>_ _ payload. Some payload \<in> set (map build_action_signing_payload (executions e2e_dispatched)))"

lemma e2e_signs: "only_server_signs e2e_strict e2e_public e2e_dispatched"
proof -
  have "ex_status r = DISPATCHED" if "r \<in> set (executions e2e_dispatched)" for r
    by (rule e2e_row) (use that in simp)
  then show ?thesis
    unfolding only_server_signs_def e2e_strict_def e2e_agent_def by (auto simp: image_iff)
qed

lemma e2e_accepted:
  obtains r ord s' where "executions e2e_dispatched = [r]"
    "verify_and_accept e2e_strict ord e2e_public (Some 1600000) e2e_store = (Inr True, s')"
proof -
  obtain r where rows: "executions e2e_dispatched = [r]" and row: "ex_status r = DISPATCHED" "ex_org r = e2e_org"
    "ex_device r = e2e_device" "ex_key r = Some 1" "ex_parameters r = []" "ex_issued r = 1000000" "ex_expires r = 301000000"
    by (rule e2e_row)
  have "actions_ok demo_keys e2e_dispatched"
    using run_actions_from [OF e2e_ok] by (simp add: actions_from_def e2e_dispatched_def)
  then have ok: "execution_ok demo_keys r" by (rule actions_okD) (simp add: rows)
  obtain k payload where o: "ex_key r = Some k" "build_action_signing_payload r = Some payload"
    by (rule authentic_row [OF ok]) (simp add: row(1))
  have k: "k = 1" using o(1) row(4) by simp
  have "ed25519_verify e2e_strict pub sig payload" for pub sig
    by (simp add: e2e_strict_def e2e_agent_def rows o(2))
  then have verified: "verify_order_signature e2e_strict
      (order_of_row (digest_hex e2e_strict) r 1 (unpadded (urlsafe_b64encode (ae_sign demo_keys 1 payload))) payload)
      e2e_public (Some 1600000) 60 = Inr 301"
    using authentic_order_verifies [OF ok o [unfolded k], of e2e_public "replicate 32 0" e2e_strict 1600000 "digest_hex e2e_strict"]
      e2e_years row by (simp add: e2e_public_def demo_keys_def)
  have valid: "validate_order e2e_strict (order_of_row (digest_hex e2e_strict) r 1 signature payload) = Inr []" for signature
    using authentic_order_valid [OF ok row(4) _ o(2), of e2e_strict] e2e_json [folded e2e_strict_def] e2e_versions row
    by (simp add: e2e_strict_def e2e_json)
  obtain s' where "verify_and_accept e2e_strict
      (order_of_row (digest_hex e2e_strict) r 1 (unpadded (urlsafe_b64encode (ae_sign demo_keys 1 payload))) payload)
      e2e_public (Some 1600000) e2e_store = (Inr True, s')"
    by (simp add: verify_and_accept_def verified accept_def valid eff_defs) (auto simp: e2e_store_def eff_defs)
  then show thesis by (rule that [OF rows])
qed

lemma accepted_order_was_dispatched_witness:
  "\<exists>ord s' r. verify_and_accept e2e_strict ord e2e_public (Some 1600000) e2e_store = (Inr True, s')
    \<and> executions e2e_dispatched = [r] \<and> ex_id r = o_execution_id ord \<and> ex_name r = o_action_name ord"
proof -
  obtain r ord s' where rows: "executions e2e_dispatched = [r]"
    and run: "verify_and_accept e2e_strict ord e2e_public (Some 1600000) e2e_store = (Inr True, s')"
    by (rule e2e_accepted)
  have years: "list_all in_years (executions e2e_dispatched)"
    using e2e_rows e2e_years by (auto simp: rows in_years_def)
  from accepted_order_was_dispatched [OF e2e_ok e2e_signs [unfolded e2e_dispatched_def] years [unfolded e2e_dispatched_def] run]
  have "ex_id r = o_execution_id ord" "ex_name r = o_action_name ord"
    using rows by (auto simp: e2e_dispatched_def)
  with run rows show ?thesis by blast
qed

end
