(* ===== verification/Spec2Isabelle.thy ===== *)
theory Spec2Isabelle
  imports Agent_Runtime Metric_Rollup Auth_System Support_Tickets Remote_Actions
begin

text \<open>
  \<^bold>\<open>NEXUS IT: a verification development.\<close>

  NEXUS IT is a multi-tenant service for watching and managing computers. An agent on each machine
  (\<open>agent/\<close>) samples metrics into a local SQLite queue, uploads them in batches, and executes
  signed remote actions. The backend (\<open>backend/app/\<close>) stores batches, turns them into samples in a
  worker, evaluates alert rules, rolls samples up and drops old ones, all in one PostgreSQL
  database whose rows belong to organisations.

  \<^bold>\<open>How the code is read.\<close> Every operation is a function from a state to a result or an
  error and the state it leaves (\<open>Prelude.eff\<close>); an exception of the code is an error value, a database
  transaction puts the tables back on an error (\<open>txn\<close>), a table is the list of its rows in the order of
  insertion, and a statement is \<open>select_where\<close>, \<open>update_where\<close>, \<open>delete_where\<close> or \<open>order_by\<close> on it.
  Row policies are predicates on a connection with its role and settings. Redis is a map of keys with
  expiry on which a script is one function. Identifiers are 128-bit words, byte strings lists of 8-bit words, instants integers (seconds on the
  agent, microseconds on the server). What the code only calls is a parameter: JSON and compression,
  SHA-256, Ed25519, uuid4 and uuid5, clocks, the network, the operating system.

  \<^bold>\<open>Theories.\<close>

  \<^item> \<open>Prelude\<close>: strings, effects with their weakest preconditions (\<open>wp\<close>) and preservation rules
    (\<open>keeps\<close>), tables, and the locales \<open>op_system\<close> and \<open>monotone_system\<close>, which lift what single
    operations keep to arbitrary runs.
  \<^item> \<open>Agent_Queue\<close> (\<open>agent/nexus_agent/storage.py\<close>, class \<open>LocalQueue\<close>): the four tables, the quotas,
    first-in-first-out eviction of unprotected batches, splitting, quarantine and expiry. Any run keeps
    keys unique and both quotas; eviction takes the oldest; splitting and storing lose nothing;
    a failed operation changes nothing.
  \<^item> \<open>Agent_Dispatch\<close> (\<open>dispatcher.py\<close>): the dispatch of one batch against an abstract queue, the
    locale \<open>batch_queue\<close>, interpreted on \<open>LocalQueue\<close>. No reply of a server loses a batch; splitting
    on 413 terminates; the backoff stays within its bounds.
  \<^item> \<open>Agent_Actions\<close> (\<open>actions.py\<close>): the gate of remote actions. Which orders it
    accepts is characterised exactly (\<open>acceptable\<close>). The step relation \<open>act_step\<close> has the
    operations and the deaths of the process; in every reachable state an action and a nonce are
    invoked at most once, and only orders that were verified; states only move forward.
  \<^item> \<open>Agent_Runtime\<close> (\<open>agent/run_agent.py\<close>): identity, public keys, command handlers, polling and the main
    loop, which keeps the invariants of queue and gate over any sequence of turns. Whatever a server
    sends, only catalogued commands reach the operating system.
  \<^item> \<open>Metric_Store\<close> (migration 0013, \<open>metrics/schemas.py\<close>): rows, check constraints and unique indexes,
    which inserts and updates are checked against, and the input schemas.
  \<^item> \<open>Metric_Batches\<close> (\<open>metrics/postgres.py\<close>, \<open>metrics/service.py\<close>): the life of a batch. A cluster is
    the database and the claims workers hold; requests, claims, completions and deaths of workers
    interleave in any order. Every run keeps rows well formed and moves them along the state machine
    towards an end (\<open>distance\<close>, at most 55 changes); ingestion is idempotent for ever; tenants are
    kept apart.
  \<^item> \<open>Metric_Alerts\<close> (the same files): the meaning of a rule, the evaluation of all rules of an
    organisation, and what the listings return.
  \<^item> \<open>Metric_Rollup\<close> (\<open>metrics/maintenance.py\<close>, migrations 0017 and 0023): rollups are exact.
    The maintenance function is modelled under the row policies of the role that owns it, and its whole
    effect is stated: which partitions it creates and drops, and when it fails.
  \<^item> \<open>Redis_Limits\<close> (\<open>auth/rate_limit.py\<close>, \<open>auth/session_rate_limit.py\<close>, \<open>metrics/rate_limit.py\<close>,
    \<open>devices/rate_limit.py\<close>): the Lua scripts and the limiters. The locale \<open>fixed_window\<close> bounds what any
    limiter lets through in a window and is interpreted for all four; five failures lock an account.
  \<^item> \<open>Auth_Store\<close> (\<open>auth/postgres.py\<close>, migrations 0002 to 0020): rows of accounts, constraints, row
    policies and every statement of the repository, each shown to keep the tables sound (\<open>sound\<close>).
  \<^item> \<open>Auth_Sessions\<close> (\<open>auth/session.py\<close>, \<open>logout.py\<close>, \<open>context.py\<close>): what authentication does,
    exactly; logout and the choice of an organisation revoke the presented session.
  \<^item> \<open>Auth_Login\<close> (\<open>auth/schemas.py\<close>, \<open>service.py\<close>, \<open>login.py\<close>, \<open>application.py\<close>,
    \<open>password_reset.py\<close>, \<open>password_reset_request.py\<close>): a login needs the credentials, refusals look
    alike, a locked account stays out, what a password reset changes.
  \<^item> \<open>Auth_Users\<close> (\<open>users/postgres.py\<close>, migration 0022): the administration of users stays within one
    organisation and needs its permission.
  \<^item> \<open>Auth_System\<close>: all of these operations in any order. The tables stay well formed, an ended
    session stays ended, a reset token works once (a \<open>monotone_system\<close> with the tokens handed out as
    history).
  \<^item> \<open>Codecs\<close>: instants in UTC as text and base64, written and read; both readers undo the writers.
  \<^item> \<open>Support_Store\<close> (\<open>support/postgres.py\<close>, migrations 0014 and 0024): rows of the help desk,
    constraints, and the statements on tickets, comments, attachments and the outbox of file
    deletions, each shown to keep the tables sound.
  \<^item> \<open>Support_Tickets\<close> (\<open>support/schemas.py\<close>, \<open>attachments.py\<close>, \<open>service.py\<close>): the help desk
    with its files. The step relation \<open>office_step\<close> interleaves requests, the two halves of uploads,
    uploads that die between them, and runs of the deletion worker; \<open>call_step\<close> adds the whole calls
    of the service, each proved to be a sequence of those parts (\<open>call_refines\<close>). Rows and files match
    at every moment; an attachment lasts until its deletion is asked for; tickets follow their life
    cycle.
  \<^item> \<open>Support_Actions\<close> (the same files, \<open>support/crypto.py\<close>): remote actions on the server: request,
    signature, approval, polling, acknowledgement and result in any order. States move forward and end
    once; what an agent is handed is signed and, for a reboot, approved.
  \<^item> \<open>Remote_Actions\<close> (\<open>api/support.py\<close>, with both sides): the listed action, read by the agent. What
    the server hands out the agent's gate accepts, and what the gate accepts the server handed out.

  \<^bold>\<open>Faults the models show\<close> are theorems too: a batch the server answers with 202 is never settled
  (\<open>head_of_line\<close>), the maintenance of metrics deletes neither aggregates nor samples of the default
  partition, and fails once that partition holds a day of its window (\<open>retention_exact\<close>), a rejection stops an agent without payload protection, a batch whose worker died
  stays in PROCESSING, two devices that use one batch identifier lose samples, a silent device's alert
  is never resolved, a suspended organisation loses samples, a password reset closes no session, a
  deactivated member stays signed in and cannot log out.

  \<^bold>\<open>Bounds.\<close> No definition has fuel: loops of the code are recursions over lists or have a proved
  measure (the eviction loop over the number of rows). The main loop of the agent and the loops of
  the workers run for ever; they are modelled over arbitrary finite sequences of turns.

  \<^bold>\<open>Not modelled.\<close> The HTTP routers, apart from the listing of remote actions, and the configuration are
  glue and I/O; cryptographic libraries, mail, the operating-system probes of the agent, the Windows
  installer and the web frontend are outside the program's own logic or another language. Left out
  for their size: enrolment of devices and rotation of machine tokens (other models read devices and
  tokens as tables), custom roles, the loop of the metric worker over tenants, and the realtime hub.
  The deletion of devices and members, on which foreign keys of the help desk depend, is left out with
  them.
\<close>

end
